(* ===== verification/Kernel_Prelude.thy ===== *)
theory Kernel_Prelude
  imports Main "HOL-Library.Word"
begin

text \<open>
  Shared vocabulary of the development: the machine integers of the Rust sources, the
  \<open>Result\<close> type as a sum, the checked and saturating arithmetic of the Rust standard library,
  first-match searches over fixed arrays, and the generic facts the component theories share.
\<close>

unbundle bit_operations_syntax

section \<open>Collections of facts\<close>

named_theorems result_simps \<open>evaluation of the result combinators\<close>
named_theorems space_simps \<open>reads after writes in a capability space\<close>
named_theorems tree_simps \<open>reads after writes in a derivation tree\<close>
named_theorems ipc_simps \<open>unfolding of the IPC building blocks\<close>
named_theorems sched_simps \<open>unfolding of the scheduler building blocks\<close>

section \<open>Machine integers\<close>

type_synonym u8 = "8 word"
type_synonym u16 = "16 word"
type_synonym u32 = "32 word"
type_synonym u64 = "64 word"

text \<open>
  \<open>usize\<close> values are natural numbers; the target is 64-bit, so the largest one is
  \<open>2 ^ 64 - 1\<close>. Where the sources use saturating or wrapping arithmetic on them the bound is
  written out by the operations below.
\<close>

type_synonym usize = nat

definition usize_max :: usize where
  "usize_max = 2 ^ 64 - 1"

definition usize_saturating_add :: "usize \<Rightarrow> usize \<Rightarrow> usize" where
  "usize_saturating_add a b = min (a + b) usize_max"

definition usize_saturating_mul :: "usize \<Rightarrow> usize \<Rightarrow> usize" where
  "usize_saturating_mul a b = min (a * b) usize_max"

definition usize_wrapping_add :: "usize \<Rightarrow> usize \<Rightarrow> usize" where
  "usize_wrapping_add a b = (a + b) mod 2 ^ 64"

definition usize_checked_add :: "usize \<Rightarrow> usize \<Rightarrow> usize option" where
  "usize_checked_add a b = (if a + b \<le> usize_max then Some (a + b) else None)"

definition usize_checked_sub :: "usize \<Rightarrow> usize \<Rightarrow> usize option" where
  "usize_checked_sub a b = (if b \<le> a then Some (a - b) else None)"

definition usize_checked_mul :: "usize \<Rightarrow> usize \<Rightarrow> usize option" where
  "usize_checked_mul a b = (if a * b \<le> usize_max then Some (a * b) else None)"

definition checked_add :: "'a::len word \<Rightarrow> 'a word \<Rightarrow> 'a word option" where
  "checked_add a b = (if unat a + unat b < 2 ^ LENGTH('a) then Some (a + b) else None)"

definition checked_sub :: "'a::len word \<Rightarrow> 'a word \<Rightarrow> 'a word option" where
  "checked_sub a b = (if b \<le> a then Some (a - b) else None)"

definition checked_mul :: "'a::len word \<Rightarrow> 'a word \<Rightarrow> 'a word option" where
  "checked_mul a b = (if unat a * unat b < 2 ^ LENGTH('a) then Some (a * b) else None)"

definition saturating_add :: "'a::len word \<Rightarrow> 'a word \<Rightarrow> 'a word" where
  "saturating_add a b = (if unat a + unat b < 2 ^ LENGTH('a) then a + b else - 1)"

definition saturating_sub :: "'a::len word \<Rightarrow> 'a word \<Rightarrow> 'a word" where
  "saturating_sub a b = (if b \<le> a then a - b else 0)"

lemma usize_saturating_add_small [simp]:
  "a + b \<le> usize_max \<Longrightarrow> usize_saturating_add a b = a + b"
  by (simp add: usize_saturating_add_def)

lemma usize_wrapping_add_small [simp]:
  "a + b < 2 ^ 64 \<Longrightarrow> usize_wrapping_add a b = a + b"
  by (simp add: usize_wrapping_add_def)

lemma unat_add_fits:
  fixes a b :: "'a::len word"
  assumes "unat a + unat b < 2 ^ LENGTH('a)"
  shows "unat (a + b) = unat a + unat b"
  using assms by (simp add: unat_word_ariths)

lemma unat_mul_fits:
  fixes a b :: "'a::len word"
  assumes "unat a * unat b < 2 ^ LENGTH('a)"
  shows "unat (a * b) = unat a * unat b"
  using assms by (simp add: unat_word_ariths)

lemma checked_add_Some:
  "checked_add a b = Some c \<Longrightarrow> c = a + b \<and> unat c = unat a + unat b"
  by (auto simp: checked_add_def unat_add_fits split: if_splits)

lemma checked_add_None:
  "checked_add (a :: 'a::len word) b = None \<longleftrightarrow> 2 ^ LENGTH('a) \<le> unat a + unat b"
  by (auto simp: checked_add_def)

lemma checked_mul_Some:
  "checked_mul a b = Some c \<Longrightarrow> c = a * b \<and> unat c = unat a * unat b"
  by (auto simp: checked_mul_def unat_mul_fits split: if_splits)

lemma checked_sub_Some:
  "checked_sub a b = Some c \<Longrightarrow> c = a - b \<and> b \<le> a \<and> unat c = unat a - unat b"
  by (auto simp: checked_sub_def unat_sub split: if_splits)

lemma unat_saturating_add:
  "unat (saturating_add a b :: 'a::len word) = min (unat a + unat b) (2 ^ LENGTH('a) - 1)"
  by (auto simp: saturating_add_def unat_add_fits unsigned_minus_1_eq_mask mask_eq_exp_minus_1)

lemma unat_saturating_sub: "unat (saturating_sub a b) = unat a - unat b"
  by (auto simp: saturating_sub_def unat_sub word_le_nat_alt)

lemma saturating_sub_1:
  "saturating_sub x 1 = (if x = 0 then 0 else x - (1 :: 'a::len word))"
proof (cases "x = 0")
  case False
  then have "(1 :: 'a word) \<le> x"
    by (simp add: word_le_nat_alt unat_gt_0 Suc_le_eq)
  with False show ?thesis by (simp add: saturating_sub_def)
qed (simp add: saturating_sub_def)

lemma unat_ucast_up:
  "LENGTH('a::len) \<le> LENGTH('b::len) \<Longrightarrow> unat (ucast (w :: 'a word) :: 'b word) = unat w"
proof -
  assume le: "LENGTH('a) \<le> LENGTH('b)"
  have "unat w < 2 ^ LENGTH('a)" by (rule unsigned_less)
  also have "(2 :: nat) ^ LENGTH('a) \<le> 2 ^ LENGTH('b)" using le by simp
  finally show ?thesis
    by (simp add: unsigned_ucast_eq take_bit_nat_eq_self_iff)
qed

lemma ucast_up_then_down:
  "LENGTH('a::len) \<le> LENGTH('b::len) \<Longrightarrow> (ucast (ucast (w :: 'a word) :: 'b word) :: 'a word) = w"
  by (rule ucast_up_ucast_id) (simp add: is_up)

lemma unat_u8_less: "unat (i :: u8) < 256"
  using unsigned_less [of i] by simp

lemma u8_cases_card: "card (UNIV :: u8 set) = 256"
  by (simp add: card_word)

lemma distinct_u8_length: "distinct (xs :: u8 list) \<Longrightarrow> length xs \<le> 256"
  by (metis card_mono distinct_card finite_UNIV finite subset_UNIV u8_cases_card)

section \<open>Results\<close>

text \<open>Rust's \<open>Result<T, E>\<close>: \<open>Inl\<close> is \<open>Err\<close>, \<open>Inr\<close> is \<open>Ok\<close>.\<close>

type_synonym ('t, 'e) result = "'e + 't"

abbreviation Err :: "'e \<Rightarrow> ('t, 'e) result" where "Err \<equiv> Inl"
abbreviation Ok :: "'t \<Rightarrow> ('t, 'e) result" where "Ok \<equiv> Inr"

text \<open>The \<open>?\<close> operator.\<close>

definition and_then :: "('a, 'e) result \<Rightarrow> ('a \<Rightarrow> ('b, 'e) result) \<Rightarrow> ('b, 'e) result" where
  "and_then r f = (case r of Inl e \<Rightarrow> Inl e | Inr a \<Rightarrow> f a)"

lemma and_then_simps [simp, result_simps]:
  "and_then (Inl e) f = Inl e"
  "and_then (Inr a) f = f a"
  by (simp_all add: and_then_def)

lemma and_then_Inr:
  "and_then r f = Inr b \<longleftrightarrow> (\<exists>a. r = Inr a \<and> f a = Inr b)"
  by (cases r) auto

lemma and_then_Inl:
  "and_then r f = Inl e \<longleftrightarrow> r = Inl e \<or> (\<exists>a. r = Inr a \<and> f a = Inl e)"
  by (cases r) auto

definition ok_or :: "'a option \<Rightarrow> 'e \<Rightarrow> ('a, 'e) result" where
  "ok_or m e = (case m of None \<Rightarrow> Inl e | Some a \<Rightarrow> Inr a)"

lemma ok_or_simps [simp, result_simps]:
  "ok_or None e = Inl e"
  "ok_or (Some a) e = Inr a"
  by (simp_all add: ok_or_def)

definition is_err :: "('a, 'e) result \<Rightarrow> bool" where
  "is_err r = (case r of Inl _ \<Rightarrow> True | Inr _ \<Rightarrow> False)"

lemma is_err_simps [simp, result_simps]:
  "is_err (Inl e)"
  "\<not> is_err (Inr a)"
  by (simp_all add: is_err_def)

section \<open>Array access\<close>

text \<open>\<open>slice.get(i)\<close>; an indexing expression panics where this is \<open>None\<close>.\<close>

definition array_get :: "'a list \<Rightarrow> usize \<Rightarrow> 'a option" where
  "array_get xs i = (if i < length xs then Some (xs ! i) else None)"

section \<open>First match in an array\<close>

text \<open>\<open>iter().position(p)\<close>: the index of the first element that satisfies \<open>p\<close>.\<close>

fun position :: "('a \<Rightarrow> bool) \<Rightarrow> 'a list \<Rightarrow> usize option" where
  "position p [] = None"
| "position p (x # xs) = (if p x then Some 0 else map_option Suc (position p xs))"

lemma position_None: "position p xs = None \<longleftrightarrow> (\<forall>x \<in> set xs. \<not> p x)"
  by (induction xs) auto

lemma position_Some:
  "position p xs = Some i \<Longrightarrow> i < length xs \<and> p (xs ! i) \<and> (\<forall>j < i. \<not> p (xs ! j))"
proof (induction xs arbitrary: i)
  case (Cons x xs)
  show ?case
  proof (cases "p x")
    case False
    with Cons.prems obtain k where k: "position p xs = Some k" "i = Suc k" by auto
    from Cons.IH [OF k(1)] False show ?thesis
      by (auto simp: k(2) nth_Cons split: nat.splits)
  qed (use Cons.prems in auto)
qed simp

lemma position_SomeI:
  assumes "i < length xs" and "p (xs ! i)" and "\<And>j. j < i \<Longrightarrow> \<not> p (xs ! j)"
  shows "position p xs = Some i"
  using assms
proof (induction xs arbitrary: i)
  case (Cons x xs)
  show ?case
  proof (cases i)
    case 0
    with Cons.prems show ?thesis by simp
  next
    case (Suc k)
    have "\<not> p x" using Cons.prems(3) [of 0] Suc by simp
    moreover have "position p xs = Some k"
    proof (rule Cons.IH)
      show "k < length xs" and "p (xs ! k)" using Cons.prems Suc by auto
      show "\<And>j. j < k \<Longrightarrow> \<not> p (xs ! j)" using Cons.prems(3) Suc by fastforce
    qed
    ultimately show ?thesis using Suc by simp
  qed
qed simp

lemma position_exists:
  "x \<in> set xs \<Longrightarrow> p x \<Longrightarrow> \<exists>i. position p xs = Some i"
  using position_None by (metis option.exhaust)

lemma position_cong:
  "length xs = length ys \<Longrightarrow> (\<And>i. i < length xs \<Longrightarrow> p (xs ! i) = q (ys ! i)) \<Longrightarrow>
   position p xs = position q ys"
proof (induction xs ys rule: list_induct2')
  case (4 x xs y ys)
  have "p x = q y" using 4(3) [of 0] by simp
  moreover have "position p xs = position q ys"
    using 4(1) 4(2) 4(3) [of "Suc _"] by simp
  ultimately show ?case by simp
qed auto

lemma position_append:
  "position p (xs @ ys) =
     (case position p xs of Some i \<Rightarrow> Some i | None \<Rightarrow> map_option ((+) (length xs)) (position p ys))"
proof (induction xs)
  case Nil
  have "(+) (0::nat) = id" by auto
  then show ?case by (simp add: option.map_id)
next
  case (Cons x xs)
  have "Suc \<circ> (+) (length xs) = (+) (Suc (length xs))" by auto
  with Cons show ?case by (auto split: option.splits simp: option.map_comp)
qed

text \<open>
  The search loops of the kernel run over the whole array and keep the first hit in a variable:
  \<open>if matches && found.is_none() { found = Some(i) }\<close>. They compute \<open>position\<close>.
\<close>

definition first_match_loop :: "('a \<Rightarrow> bool) \<Rightarrow> 'a list \<Rightarrow> usize \<Rightarrow> usize option" where
  "first_match_loop p xs n =
     fold (\<lambda>i found. if p (xs ! i) \<and> found = None then Some i else found) [0..<n] None"

lemma first_match_loop_take: "n \<le> length xs \<Longrightarrow> first_match_loop p xs n = position p (take n xs)"
proof (induction n)
  case (Suc n)
  then show ?case
    by (auto simp: first_match_loop_def take_Suc_conv_app_nth position_append split: option.splits)
qed (simp add: first_match_loop_def)

lemma first_match_loop_eq: "n = length xs \<Longrightarrow> first_match_loop p xs n = position p xs"
  by (simp add: first_match_loop_take)

lemma unat_of_nat_small:
  "n < 2 ^ LENGTH('a) \<Longrightarrow> unat (of_nat n :: 'a::len word) = n"
  by (simp add: unsigned_of_nat take_bit_nat_eq_self)

lemma unat_inj [simp]: "unat a = unat b \<longleftrightarrow> a = (b :: 'a::len word)"
  by (auto intro: unsigned_word_eqI)

lemma and_exp_eq_exp_iff:
  fixes w :: "'a::len word"
  assumes "n < LENGTH('a)"
  shows "w AND 2 ^ n = 2 ^ n \<longleftrightarrow> bit w n"
proof
  assume "w AND 2 ^ n = 2 ^ n"
  then have "bit (w AND 2 ^ n) n" using assms by (simp add: bit_exp_iff)
  then show "bit w n" by (simp add: bit_and_iff)
next
  assume "bit w n"
  then show "w AND 2 ^ n = 2 ^ n" by (intro bit_word_eqI) (auto simp: bit_and_iff bit_exp_iff)
qed

section \<open>Tables keyed by an identifier\<close>

text \<open>
  The contract of the kernel's fixed tables: an insertion may be refused, and one that succeeds is
  seen by the lookup of its key and by no other.
\<close>

locale keyed_table =
  fixes get :: "'s \<Rightarrow> 'k \<Rightarrow> 'v option"
    and put :: "'s \<Rightarrow> 'k \<Rightarrow> 'v \<Rightarrow> 's option"
    and invar :: "'s \<Rightarrow> bool"
  assumes put_get: "invar s \<Longrightarrow> put s k v = Some s' \<Longrightarrow> get s' k' = (if k' = k then Some v else get s k')"
    and put_invar: "invar s \<Longrightarrow> put s k v = Some s' \<Longrightarrow> invar s'"
begin

lemma put_get_same: "invar s \<Longrightarrow> put s k v = Some s' \<Longrightarrow> get s' k = Some v"
  by (simp add: put_get)

lemma put_get_other: "invar s \<Longrightarrow> put s k v = Some s' \<Longrightarrow> k' \<noteq> k \<Longrightarrow> get s' k' = get s k'"
  by (simp add: put_get)

text \<open>A run of insertions that all succeed.\<close>

fun put_all :: "'s \<Rightarrow> ('k \<times> 'v) list \<Rightarrow> 's option" where
  "put_all s [] = Some s"
| "put_all s ((k, v) # kvs) = (case put s k v of None \<Rightarrow> None | Some s' \<Rightarrow> put_all s' kvs)"

lemma put_all_invar: "invar s \<Longrightarrow> put_all s kvs = Some s' \<Longrightarrow> invar s'"
  by (induction s kvs rule: put_all.induct) (auto split: option.splits intro: put_invar)

lemma put_all_get:
  "invar s \<Longrightarrow> put_all s kvs = Some s' \<Longrightarrow>
   get s' k = (case map_of (rev kvs) k of None \<Rightarrow> get s k | Some v \<Rightarrow> Some v)"
proof (induction s kvs rule: put_all.induct)
  case (2 s k0 v0 kvs)
  then obtain s1 where s1: "put s k0 v0 = Some s1" "put_all s1 kvs = Some s'" by (auto split: option.splits)
  with 2 have "get s' k = (case map_of (rev kvs) k of None \<Rightarrow> get s1 k | Some v \<Rightarrow> Some v)"
    by (auto intro: put_invar)
  then show ?case using s1 2 by (simp add: put_get map_add_def split: option.splits)
qed simp

end

end
