(* ===== verification/Capability_Space.thy ===== *)
theory Capability_Space
  imports Kernel_Prelude
begin

text \<open>
  The data of the capability manager (\<open>src/kernel/src/capability\<close>): rights bitmasks, capability
  types, slots with their life cycle, the 256-slot capability space of a process, and the
  volatile zeroing of a slot (\<open>memory/slot_zeroing.rs\<close>). The two 256-entry arrays of the manager
  (slots here, derivation records in the theory of derivation) are indexed by \<open>u8\<close>, so every
  index is in range by construction and both are functions on \<open>u8\<close>. They share one contract,
  the locale \<open>slot_array\<close>.
\<close>

section \<open>An array indexed by a byte\<close>

locale slot_array =
  fixes read :: "'s \<Rightarrow> u8 \<Rightarrow> 'v"
    and "write" :: "'s \<Rightarrow> u8 \<Rightarrow> 'v \<Rightarrow> 's"
  assumes read_write: "read (write s i v) j = (if j = i then v else read s j)"
    and read_ext: "(\<And>i. read s i = read t i) \<Longrightarrow> s = t"
begin

lemma write_twice: "write (write s i v) i w = write s i w"
  by (rule read_ext) (simp add: read_write)

lemma write_commute: "i \<noteq> j \<Longrightarrow> write (write s i v) j w = write (write s j w) i v"
  by (rule read_ext) (simp add: read_write)

lemma write_read: "write s i (read s i) = s"
  by (rule read_ext) (simp add: read_write)

lemma read_fold_write:
  "read (fold (\<lambda>i s. write s i v) is s) j = (if j \<in> set is then v else read s j)"
  by (induction "is" arbitrary: s) (auto simp: read_write)

lemma fold_write_idem:
  assumes "\<And>i. i \<in> set is \<Longrightarrow> read s i = v"
  shows "fold (\<lambda>i s. write s i v) is s = s"
  by (rule read_ext) (simp add: read_fold_write assms)

end

section \<open>Errors\<close>

datatype CapabilityError =
    NullCapability
  | TypeMismatch
  | RightsExceedParent
  | SlotOccupied
  | QuotaExhausted
  | InvalidObjectType
  | CapabilityExpired
  | TemporalExceedsParent
  | GenerationMismatch
  | WriteRightNotGranted
  | ReadRightNotGranted
  | GrantRightNotGranted
  | EndpointNotInCSpace
  | OutOfBoundsFrameAccess

section \<open>Types and rights\<close>

datatype CapabilityType =
    Memory | Endpoint | Thread | CNode | Irq | Device | Untyped | Reply | Spawn
  | AuditRead | Frame | Serve | Model | Gpu | Admin

type_synonym CapabilityRights = u32

definition READ :: CapabilityRights where "READ = 1"
definition WRITE :: CapabilityRights where "WRITE = 2"
definition GRANT :: CapabilityRights where "GRANT = 4"
definition GRANT_REPLY :: CapabilityRights where "GRANT_REPLY = 8"

definition rights_empty :: CapabilityRights where
  "rights_empty = 0"

definition rights_contains :: "CapabilityRights \<Rightarrow> CapabilityRights \<Rightarrow> bool" where
  "rights_contains self other \<longleftrightarrow> self AND other = other"

definition rights_is_empty :: "CapabilityRights \<Rightarrow> bool" where
  "rights_is_empty self \<longleftrightarrow> self = 0"

definition rights_bitand :: "CapabilityRights \<Rightarrow> CapabilityRights \<Rightarrow> CapabilityRights" where
  "rights_bitand self other = self AND other"

definition rights_bitor :: "CapabilityRights \<Rightarrow> CapabilityRights \<Rightarrow> CapabilityRights" where
  "rights_bitor self other = self OR other"

definition rights_not :: "CapabilityRights \<Rightarrow> CapabilityRights" where
  "rights_not self = NOT self"

lemma rights_contains_bits:
  "rights_contains a b \<longleftrightarrow> (\<forall>n. bit b n \<longrightarrow> bit a n)"
  using bit_imp_le_length [of b]
  by (fastforce simp: rights_contains_def bit_eq_iff bit_and_iff)

lemma rights_contains_refl [simp]: "rights_contains a a"
  by (simp add: rights_contains_bits)

lemma rights_contains_trans:
  "rights_contains a b \<Longrightarrow> rights_contains b c \<Longrightarrow> rights_contains a c"
  by (simp add: rights_contains_bits)

lemma rights_contains_antisym:
  "rights_contains a b \<Longrightarrow> rights_contains b a \<Longrightarrow> a = b"
  by (auto simp: rights_contains_def and.commute)

lemma rights_contains_empty [simp]: "rights_contains a rights_empty"
  by (simp add: rights_contains_def rights_empty_def)

text \<open>The subset test of the derivation code is containment.\<close>

lemma rights_excess_empty:
  "rights_is_empty (rights_bitand r (rights_not p)) \<longleftrightarrow> rights_contains p r"
proof
  assume "rights_is_empty (rights_bitand r (rights_not p))"
  then have z: "r AND NOT p = 0"
    by (simp add: rights_is_empty_def rights_bitand_def rights_not_def)
  have "bit p n" if "bit r n" for n
  proof (rule ccontr)
    assume "\<not> bit p n"
    with that have "bit (r AND NOT p) n"
      using bit_imp_le_length [of r n] by (simp add: bit_and_iff bit_not_iff)
    with z show False by simp
  qed
  then show "rights_contains p r" by (simp add: rights_contains_bits)
next
  assume "rights_contains p r"
  then show "rights_is_empty (rights_bitand r (rights_not p))"
    by (auto simp: rights_contains_bits rights_is_empty_def rights_bitand_def rights_not_def
        bit_eq_iff bit_and_iff bit_not_iff)
qed

section \<open>Slots\<close>

datatype CapabilitySlotState = Null | Valid | Revoking

record CapabilitySlot =
  state :: CapabilitySlotState
  capability_type :: CapabilityType
  rights_bitmask :: CapabilityRights
  object_pointer :: u64
  generation_counter :: u64
  derivation_parent_index :: u32
  use_count_remaining :: "u32 option"
  expiry_tick :: "u64 option"

text \<open>\<open>u32::MAX\<close>, the sentinel of every link of the derivation tree.\<close>

definition SENTINEL_INDEX :: u32 where
  "SENTINEL_INDEX = - 1"

definition null_slot :: CapabilitySlot where
  "null_slot = \<lparr> state = Null, capability_type = Memory, rights_bitmask = rights_empty,
     object_pointer = 0, generation_counter = 0, derivation_parent_index = - 1,
     use_count_remaining = None, expiry_tick = None \<rparr>"

definition is_null :: "CapabilitySlot \<Rightarrow> bool" where
  "is_null s \<longleftrightarrow> state s = Null"

definition is_valid :: "CapabilitySlot \<Rightarrow> bool" where
  "is_valid s \<longleftrightarrow> state s = Valid"

definition is_revoking :: "CapabilitySlot \<Rightarrow> bool" where
  "is_revoking s \<longleftrightarrow> state s = Revoking"

definition validate_is_usable :: "CapabilitySlot \<Rightarrow> (CapabilitySlot, CapabilityError) result" where
  "validate_is_usable s =
     (if is_null s then Err NullCapability
      else if is_revoking s then Err NullCapability
      else Ok s)"

definition new_cap_reply :: "u32 \<Rightarrow> CapabilitySlot" where
  "new_cap_reply caller_thread_identifier =
     \<lparr> state = Valid, capability_type = Reply, rights_bitmask = rights_empty,
       object_pointer = ucast caller_thread_identifier, generation_counter = 0,
       derivation_parent_index = - 1, use_count_remaining = Some 1, expiry_tick = None \<rparr>"

definition zero_capability_slot_via_reference :: "CapabilitySlot \<Rightarrow> CapabilitySlot" where
  "zero_capability_slot_via_reference s = null_slot"

lemma state_null_slot [simp]: "state null_slot = Null"
  by (simp add: null_slot_def)

lemma slot_state_tests [simp]:
  "is_null null_slot" "\<not> is_valid null_slot" "\<not> is_revoking null_slot"
  "is_valid s \<Longrightarrow> \<not> is_null s" "is_revoking s \<Longrightarrow> \<not> is_null s"
  by (simp_all add: is_null_def is_valid_def is_revoking_def)

lemma validate_is_usable_Inr: "validate_is_usable s = Inr s' \<longleftrightarrow> s' = s \<and> is_valid s"
  by (cases "state s")
    (auto simp: validate_is_usable_def is_null_def is_revoking_def is_valid_def)

section \<open>The capability space\<close>

definition MAXIMUM_CAPABILITY_SLOTS_PER_PROCESS :: usize where
  "MAXIMUM_CAPABILITY_SLOTS_PER_PROCESS = 256"

record CapabilitySpace =
  slots :: "u8 \<Rightarrow> CapabilitySlot"

definition new_space :: CapabilitySpace where
  "new_space = \<lparr> slots = (\<lambda>_. null_slot) \<rparr>"

text \<open>\<open>read_slot_at_index\<close> issues a speculation barrier and reads the array.\<close>

definition read_slot_at_index :: "CapabilitySpace \<Rightarrow> u8 \<Rightarrow> CapabilitySlot" where
  "read_slot_at_index cs i = slots cs i"

definition lookup_slot_ref :: "CapabilitySpace \<Rightarrow> u8 \<Rightarrow> CapabilitySlot" where
  "lookup_slot_ref cs i = read_slot_at_index cs i"

definition lookup_slot :: "CapabilitySpace \<Rightarrow> u8 \<Rightarrow> (CapabilitySlot, CapabilityError) result" where
  "lookup_slot cs i = validate_is_usable (read_slot_at_index cs i)"

text \<open>
  \<open>lookup_slot_mut\<close> hands out a mutable reference; assigning \<open>v\<close> through it is \<open>write_slot cs i v\<close>.
\<close>

definition write_slot :: "CapabilitySpace \<Rightarrow> u8 \<Rightarrow> CapabilitySlot \<Rightarrow> CapabilitySpace" where
  "write_slot cs i v = cs\<lparr> slots := (slots cs)(i := v) \<rparr>"

interpretation cspace: slot_array lookup_slot_ref write_slot
proof unfold_locales
  show "\<And>s i v j. lookup_slot_ref (write_slot s i v) j = (if j = i then v else lookup_slot_ref s j)"
    by (simp add: lookup_slot_ref_def read_slot_at_index_def write_slot_def)
  show "\<And>s t. (\<And>i. lookup_slot_ref s i = lookup_slot_ref t i) \<Longrightarrow> s = t"
    by (rule CapabilitySpace.equality)
      (auto simp: lookup_slot_ref_def read_slot_at_index_def)
qed

declare cspace.read_write [simp, space_simps]

lemma lookup_new_space [simp, space_simps]: "lookup_slot_ref new_space i = null_slot"
  by (simp add: lookup_slot_ref_def read_slot_at_index_def new_space_def)

lemma lookup_slot_Inr:
  "lookup_slot cs i = Inr s \<longleftrightarrow> s = lookup_slot_ref cs i \<and> is_valid (lookup_slot_ref cs i)"
  by (auto simp: lookup_slot_def lookup_slot_ref_def validate_is_usable_Inr)

lemma lookup_slot_Inl:
  "lookup_slot cs i = Inl e \<longleftrightarrow> e = NullCapability \<and> \<not> is_valid (lookup_slot_ref cs i)"
  by (cases "state (lookup_slot_ref cs i)")
    (auto simp: lookup_slot_def lookup_slot_ref_def validate_is_usable_def is_null_def
      is_revoking_def is_valid_def)

end
