(* ===== verification/Derivation.thy ===== *)
theory Derivation
  imports Capability_Space
begin

text \<open>
  Derivation, revocation and temporal validation of capabilities
  (\<open>derivation_record.rs\<close>, \<open>derivation_tree.rs\<close>, \<open>derive_capability.rs\<close>, \<open>revocation.rs\<close>,
  \<open>temporal_validation.rs\<close>). The tree is a left-child right-sibling forest in an array of records.
  The two loops of revocation follow links stored in that array, so nothing in their code bounds
  them: they are \<open>partial_function (option)\<close>, where \<open>None\<close> is a call that never returns, and that
  they return is a theorem about well-formed forests.
\<close>

section \<open>Derivation records and the tree\<close>

record DerivationRecord =
  parent_index :: u32
  first_child_index :: u32
  next_sibling_index :: u32

definition empty_record :: DerivationRecord where
  "empty_record = \<lparr> parent_index = SENTINEL_INDEX, first_child_index = SENTINEL_INDEX,
     next_sibling_index = SENTINEL_INDEX \<rparr>"

record CapabilityDerivationTree =
  records :: "u8 \<Rightarrow> DerivationRecord"

definition new_tree :: CapabilityDerivationTree where
  "new_tree = \<lparr> records = (\<lambda>_. empty_record) \<rparr>"

definition record_at :: "CapabilityDerivationTree \<Rightarrow> u8 \<Rightarrow> DerivationRecord" where
  "record_at t i = records t i"

text \<open>Assignment through \<open>record_at_mut\<close>.\<close>

definition write_record ::
  "CapabilityDerivationTree \<Rightarrow> u8 \<Rightarrow> DerivationRecord \<Rightarrow> CapabilityDerivationTree" where
  "write_record t i r = t\<lparr> records := (records t)(i := r) \<rparr>"

definition sentinel_to_option :: "u32 \<Rightarrow> u8 option" where
  "sentinel_to_option raw_index = (if raw_index = SENTINEL_INDEX then None else Some (ucast raw_index))"

definition first_child_of :: "CapabilityDerivationTree \<Rightarrow> u8 \<Rightarrow> u8 option" where
  "first_child_of t i = sentinel_to_option (first_child_index (record_at t i))"

definition next_sibling_of :: "CapabilityDerivationTree \<Rightarrow> u8 \<Rightarrow> u8 option" where
  "next_sibling_of t i = sentinel_to_option (next_sibling_index (record_at t i))"

definition parent_of :: "CapabilityDerivationTree \<Rightarrow> u8 \<Rightarrow> u8 option" where
  "parent_of t i = sentinel_to_option (parent_index (record_at t i))"

definition set_child_parent_link ::
  "CapabilityDerivationTree \<Rightarrow> u8 \<Rightarrow> u8 \<Rightarrow> CapabilityDerivationTree" where
  "set_child_parent_link t child parent =
     write_record t child ((record_at t child)\<lparr> parent_index := ucast parent \<rparr>)"

definition prepend_child_to_sibling_chain ::
  "CapabilityDerivationTree \<Rightarrow> u8 \<Rightarrow> u8 \<Rightarrow> CapabilityDerivationTree" where
  "prepend_child_to_sibling_chain t parent child =
     (let existing_first_child = first_child_index (record_at t parent);
          t1 = write_record t child
                 ((record_at t child)\<lparr> next_sibling_index := existing_first_child \<rparr>)
      in write_record t1 parent ((record_at t1 parent)\<lparr> first_child_index := ucast child \<rparr>))"

definition record_derivation ::
  "CapabilityDerivationTree \<Rightarrow> u8 \<Rightarrow> u8 \<Rightarrow> CapabilityDerivationTree" where
  "record_derivation t parent child =
     prepend_child_to_sibling_chain (set_child_parent_link t child parent) parent child"

definition remove_record :: "CapabilityDerivationTree \<Rightarrow> u8 \<Rightarrow> CapabilityDerivationTree" where
  "remove_record t i = write_record t i empty_record"

interpretation dtree: slot_array record_at write_record
proof unfold_locales
  show "\<And>s i v j. record_at (write_record s i v) j = (if j = i then v else record_at s j)"
    by (simp add: record_at_def write_record_def)
  show "\<And>s t. (\<And>i. record_at s i = record_at t i) \<Longrightarrow> s = t"
    by (rule CapabilityDerivationTree.equality) (auto simp: record_at_def)
qed

declare dtree.read_write [simp, tree_simps]

lemma record_at_new_tree [simp, tree_simps]: "record_at new_tree i = empty_record"
  by (simp add: record_at_def new_tree_def)

lemma ucast_u8_not_sentinel [simp]: "(ucast (i :: u8) :: u32) \<noteq> SENTINEL_INDEX"
proof
  assume "(ucast i :: u32) = SENTINEL_INDEX"
  then have "unat (ucast i :: u32) = unat (- 1 :: u32)" by (simp add: SENTINEL_INDEX_def)
  moreover have "unat (ucast i :: u32) = unat i" by (rule unat_ucast_up) simp
  moreover have "unat i < 256" by (rule unat_u8_less)
  ultimately show False by (simp add: unsigned_minus_1_eq_mask mask_eq_exp_minus_1)
qed

lemma sentinel_to_option_simps [simp, tree_simps]:
  "sentinel_to_option SENTINEL_INDEX = None"
  "sentinel_to_option (ucast (i :: u8)) = Some i"
  by (simp_all add: sentinel_to_option_def ucast_up_then_down)

lemma empty_record_links [simp, tree_simps]:
  "record_at t i = empty_record \<Longrightarrow> first_child_of t i = None"
  "record_at t i = empty_record \<Longrightarrow> next_sibling_of t i = None"
  "record_at t i = empty_record \<Longrightarrow> parent_of t i = None"
  by (simp_all add: first_child_of_def next_sibling_of_def parent_of_def empty_record_def)

lemma links_cong:
  "record_at t i = record_at u i \<Longrightarrow> first_child_of t i = first_child_of u i"
  "record_at t i = record_at u i \<Longrightarrow> next_sibling_of t i = next_sibling_of u i"
  "record_at t i = record_at u i \<Longrightarrow> parent_of t i = parent_of u i"
  by (simp_all add: first_child_of_def next_sibling_of_def parent_of_def)

lemma record_at_remove_record [simp, tree_simps]:
  "record_at (remove_record t i) j = (if j = i then empty_record else record_at t j)"
  by (simp add: remove_record_def)

lemma remove_record_links [simp, tree_simps]:
  "first_child_of (remove_record t i) j = (if j = i then None else first_child_of t j)"
  "next_sibling_of (remove_record t i) j = (if j = i then None else next_sibling_of t j)"
  "parent_of (remove_record t i) j = (if j = i then None else parent_of t j)"
  by (simp_all add: first_child_of_def next_sibling_of_def parent_of_def empty_record_def)

lemma record_derivation_links:
  assumes "p \<noteq> c"
  shows "parent_of (record_derivation t p c) i = (if i = c then Some p else parent_of t i)"
    and "first_child_of (record_derivation t p c) i = (if i = p then Some c else first_child_of t i)"
    and "next_sibling_of (record_derivation t p c) i =
           (if i = c then first_child_of t p else next_sibling_of t i)"
  using assms
  by (auto simp: record_derivation_def prepend_child_to_sibling_chain_def set_child_parent_link_def
      parent_of_def first_child_of_def next_sibling_of_def Let_def)

section \<open>Derivation\<close>

definition read_valid_parent ::
  "CapabilitySpace \<Rightarrow> u8 \<Rightarrow> (CapabilitySlot, CapabilityError) result" where
  "read_valid_parent cs parent =
     (let parent_slot = lookup_slot_ref cs parent
      in if \<not> is_valid parent_slot then Err NullCapability else Ok parent_slot)"

definition check_child_slot_is_null ::
  "CapabilitySpace \<Rightarrow> u8 \<Rightarrow> (unit, CapabilityError) result" where
  "check_child_slot_is_null cs child =
     (if \<not> is_null (lookup_slot_ref cs child) then Err SlotOccupied else Ok ())"

definition check_rights_do_not_exceed_parent ::
  "CapabilityRights \<Rightarrow> CapabilityRights \<Rightarrow> (unit, CapabilityError) result" where
  "check_rights_do_not_exceed_parent requested parent_rights =
     (let excess = rights_bitand requested (rights_not parent_rights)
      in if \<not> rights_is_empty excess then Err RightsExceedParent else Ok ())"

definition populate_child_slot_core_fields ::
  "CapabilitySpace \<Rightarrow> u8 \<Rightarrow> CapabilityRights \<Rightarrow> CapabilitySlot \<Rightarrow> CapabilitySpace" where
  "populate_child_slot_core_fields cs child requested parent_snapshot =
     write_slot cs child ((lookup_slot_ref cs child)
       \<lparr> state := Valid,
         capability_type := capability_type parent_snapshot,
         rights_bitmask := requested,
         object_pointer := object_pointer parent_snapshot,
         generation_counter := generation_counter parent_snapshot \<rparr>)"

definition set_child_derivation_parent :: "CapabilitySpace \<Rightarrow> u8 \<Rightarrow> u8 \<Rightarrow> CapabilitySpace" where
  "set_child_derivation_parent cs child parent =
     write_slot cs child ((lookup_slot_ref cs child)\<lparr> derivation_parent_index := ucast parent \<rparr>)"

definition initialize_child_slot ::
  "CapabilitySpace \<Rightarrow> u8 \<Rightarrow> u8 \<Rightarrow> CapabilityRights \<Rightarrow> CapabilitySlot \<Rightarrow> CapabilitySpace" where
  "initialize_child_slot cs parent child requested parent_snapshot =
     set_child_derivation_parent
       (populate_child_slot_core_fields cs child requested parent_snapshot) child parent"

text \<open>
  Operations that mutate through \<open>&mut\<close> and return a \<open>Result\<close> yield the result together with the
  state they leave behind, on the error paths too.
\<close>

definition derive_capability ::
  "CapabilitySpace \<Rightarrow> CapabilityDerivationTree \<Rightarrow> u8 \<Rightarrow> u8 \<Rightarrow> CapabilityRights \<Rightarrow>
   (unit, CapabilityError) result \<times> CapabilitySpace \<times> CapabilityDerivationTree" where
  "derive_capability cs t parent child requested =
     (case and_then (read_valid_parent cs parent) (\<lambda>snapshot.
           and_then (check_child_slot_is_null cs child) (\<lambda>_.
           and_then (check_rights_do_not_exceed_parent requested (rights_bitmask snapshot)) (\<lambda>_.
           Ok snapshot))) of
        Inl e \<Rightarrow> (Err e, cs, t)
      | Inr snapshot \<Rightarrow>
          (Ok (), initialize_child_slot cs parent child requested snapshot,
           record_derivation t parent child))"

text \<open>When derivation succeeds, and what it then does.\<close>

definition derivable :: "CapabilitySpace \<Rightarrow> u8 \<Rightarrow> u8 \<Rightarrow> CapabilityRights \<Rightarrow> bool" where
  "derivable cs parent child requested \<longleftrightarrow>
     is_valid (lookup_slot_ref cs parent) \<and> is_null (lookup_slot_ref cs child) \<and>
     rights_contains (rights_bitmask (lookup_slot_ref cs parent)) requested"

definition derived_slot :: "CapabilitySpace \<Rightarrow> u8 \<Rightarrow> u8 \<Rightarrow> CapabilityRights \<Rightarrow> CapabilitySlot" where
  "derived_slot cs parent child requested =
     (lookup_slot_ref cs child)
       \<lparr> state := Valid,
         capability_type := capability_type (lookup_slot_ref cs parent),
         rights_bitmask := requested,
         object_pointer := object_pointer (lookup_slot_ref cs parent),
         generation_counter := generation_counter (lookup_slot_ref cs parent),
         derivation_parent_index := ucast parent \<rparr>"

lemma initialize_child_slot_eq:
  "initialize_child_slot cs p c r (lookup_slot_ref cs p) = write_slot cs c (derived_slot cs p c r)"
  by (simp add: initialize_child_slot_def set_child_derivation_parent_def
      populate_child_slot_core_fields_def derived_slot_def cspace.write_twice)

lemmas derive_checks =
  read_valid_parent_def check_child_slot_is_null_def check_rights_do_not_exceed_parent_def

lemma derive_capability_ok:
  "derivable cs p c r \<Longrightarrow>
   derive_capability cs t p c r = (Ok (), write_slot cs c (derived_slot cs p c r), record_derivation t p c)"
  by (simp add: derive_capability_def derive_checks derivable_def rights_excess_empty
      initialize_child_slot_eq Let_def)

lemma derive_capability_err:
  "\<not> derivable cs p c r \<Longrightarrow> \<exists>e. derive_capability cs t p c r = (Err e, cs, t)"
  by (auto simp: derive_capability_def derive_checks derivable_def rights_excess_empty Let_def)

lemma derive_capability_cases:
  obtains (ok) "derivable cs p c r"
      "derive_capability cs t p c r =
         (Ok (), write_slot cs c (derived_slot cs p c r), record_derivation t p c)"
    | (err) e where "\<not> derivable cs p c r" "derive_capability cs t p c r = (Err e, cs, t)"
  using derive_capability_ok derive_capability_err by blast

lemma derivable_neq: "derivable cs p c r \<Longrightarrow> p \<noteq> c"
  by (auto simp: derivable_def)

section \<open>Revocation\<close>

definition check_target_slot_is_valid ::
  "CapabilitySpace \<Rightarrow> u8 \<Rightarrow> (unit, CapabilityError) result" where
  "check_target_slot_is_valid cs target =
     (if \<not> is_valid (lookup_slot_ref cs target) then Err NullCapability else Ok ())"

definition mark_slot_as_revoking :: "CapabilitySpace \<Rightarrow> u8 \<Rightarrow> CapabilitySpace" where
  "mark_slot_as_revoking cs i = write_slot cs i ((lookup_slot_ref cs i)\<lparr> state := Revoking \<rparr>)"

definition zero_single_slot :: "CapabilitySpace \<Rightarrow> u8 \<Rightarrow> CapabilitySpace" where
  "zero_single_slot cs i = write_slot cs i (zero_capability_slot_via_reference (lookup_slot_ref cs i))"

text \<open>
  The explicit stack is the used part of the array \<open>depth_first_stack\<close>, its top first: the entries
  below \<open>stack_depth\<close>. A push onto a full stack is dropped.
\<close>

definition push_onto_stack :: "u8 list \<Rightarrow> u8 \<Rightarrow> u8 list" where
  "push_onto_stack stack i =
     (if length stack < MAXIMUM_CAPABILITY_SLOTS_PER_PROCESS then i # stack else stack)"

partial_function (option) push_children_loop ::
  "CapabilityDerivationTree \<Rightarrow> u8 option \<Rightarrow> u8 list \<Rightarrow> u8 list option" where
  "push_children_loop t next_child stack =
     (case next_child of
        None \<Rightarrow> Some stack
      | Some child \<Rightarrow> push_children_loop t (next_sibling_of t child) (push_onto_stack stack child))"

definition push_children_onto_stack ::
  "CapabilityDerivationTree \<Rightarrow> u8 \<Rightarrow> u8 list \<Rightarrow> u8 list option" where
  "push_children_onto_stack t parent stack = push_children_loop t (first_child_of t parent) stack"

definition process_one_descendant ::
  "CapabilitySpace \<Rightarrow> CapabilityDerivationTree \<Rightarrow> u8 \<Rightarrow> u8 list \<Rightarrow> u32 \<Rightarrow>
   (CapabilitySpace \<times> CapabilityDerivationTree \<times> u8 list \<times> u32) option" where
  "process_one_descendant cs t current popped_stack revoked_count =
     (case push_children_onto_stack t current popped_stack of
        None \<Rightarrow> None
      | Some stack \<Rightarrow>
          Some (zero_single_slot cs current, remove_record t current, stack, revoked_count + 1))"

partial_function (option) walk_loop ::
  "CapabilitySpace \<Rightarrow> CapabilityDerivationTree \<Rightarrow> u8 list \<Rightarrow> u32 \<Rightarrow>
   (CapabilitySpace \<times> CapabilityDerivationTree \<times> u32) option" where
  "walk_loop cs t stack revoked_count =
     (case stack of
        [] \<Rightarrow> Some (cs, t, revoked_count)
      | current # popped_stack \<Rightarrow>
          (case process_one_descendant cs t current popped_stack revoked_count of
             None \<Rightarrow> None
           | Some (cs', t', stack', n') \<Rightarrow> walk_loop cs' t' stack' n'))"

definition walk_and_zero_descendants ::
  "CapabilitySpace \<Rightarrow> CapabilityDerivationTree \<Rightarrow> u8 \<Rightarrow>
   (CapabilitySpace \<times> CapabilityDerivationTree \<times> u32) option" where
  "walk_and_zero_descendants cs t target =
     (case push_children_onto_stack t target [] of
        None \<Rightarrow> None
      | Some stack \<Rightarrow> walk_loop cs t stack 0)"

definition revoke_capability ::
  "CapabilitySpace \<Rightarrow> CapabilityDerivationTree \<Rightarrow> u8 \<Rightarrow>
   ((u32, CapabilityError) result \<times> CapabilitySpace \<times> CapabilityDerivationTree) option" where
  "revoke_capability cs t target =
     (case check_target_slot_is_valid cs target of
        Inl e \<Rightarrow> Some (Err e, cs, t)
      | Inr _ \<Rightarrow>
          (case walk_and_zero_descendants (mark_slot_as_revoking cs target) t target of
             None \<Rightarrow> None
           | Some (cs', t', descendant_count) \<Rightarrow>
               Some (Ok (descendant_count + 1), zero_single_slot cs' target, remove_record t' target)))"

section \<open>Temporal validation\<close>

definition check_slot_is_not_null :: "CapabilitySlot \<Rightarrow> (unit, CapabilityError) result" where
  "check_slot_is_not_null s = (if state s = Null then Err NullCapability else Ok ())"

definition check_slot_is_not_revoking :: "CapabilitySlot \<Rightarrow> (unit, CapabilityError) result" where
  "check_slot_is_not_revoking s = (if state s = Revoking then Err NullCapability else Ok ())"

definition check_use_count_not_exhausted :: "CapabilitySlot \<Rightarrow> (unit, CapabilityError) result" where
  "check_use_count_not_exhausted s =
     (if use_count_remaining s = Some 0 then Err CapabilityExpired else Ok ())"

definition check_time_window_not_expired ::
  "CapabilitySlot \<Rightarrow> u64 \<Rightarrow> (unit, CapabilityError) result" where
  "check_time_window_not_expired s current_tick =
     (case expiry_tick s of
        None \<Rightarrow> Ok ()
      | Some expiry \<Rightarrow> if expiry \<le> current_tick then Err CapabilityExpired else Ok ())"

definition decrement_use_count_if_limited :: "CapabilitySlot \<Rightarrow> CapabilitySlot" where
  "decrement_use_count_if_limited s =
     (case use_count_remaining s of
        None \<Rightarrow> s
      | Some remaining \<Rightarrow> s\<lparr> use_count_remaining := Some (remaining - 1) \<rparr>)"

definition expire_and_zero_slot ::
  "CapabilitySpace \<Rightarrow> CapabilityDerivationTree \<Rightarrow> u8 \<Rightarrow>
   (CapabilityError \<times> CapabilitySpace \<times> CapabilityDerivationTree) option" where
  "expire_and_zero_slot cs t i =
     (case revoke_capability cs t i of
        None \<Rightarrow> None
      | Some (_, cs', t') \<Rightarrow> Some (CapabilityExpired, cs', t'))"

definition validate_capability ::
  "CapabilitySpace \<Rightarrow> CapabilityDerivationTree \<Rightarrow> u8 \<Rightarrow> u64 \<Rightarrow>
   ((unit, CapabilityError) result \<times> CapabilitySpace \<times> CapabilityDerivationTree) option" where
  "validate_capability cs t i current_tick =
     (let s = lookup_slot_ref cs i;
          expire = map_option (\<lambda>(e, cs', t'). (Err e, cs', t')) (expire_and_zero_slot cs t i)
      in case and_then (check_slot_is_not_null s) (\<lambda>_. check_slot_is_not_revoking s) of
           Inl e \<Rightarrow> Some (Err e, cs, t)
         | Inr _ \<Rightarrow>
             if is_err (check_use_count_not_exhausted s) then expire
             else if is_err (check_time_window_not_expired s current_tick) then expire
             else Some (Ok (), write_slot cs i (decrement_use_count_if_limited s), t))"

end
