(* ===== verification/Derivation_Forest.thy ===== *)
theory Derivation_Forest
  imports Derivation
begin

text \<open>
  Correctness of derivation and revocation. The abstract view of the derivation tree is the
  relation from parents to children; \<open>forest\<close> says that the sibling chains stored in the records
  list exactly the children of each slot and that the relation is acyclic, and \<open>cap_inv\<close> ties it
  to the capability space. Derivation keeps \<open>cap_inv\<close>; under it revocation returns and clears
  exactly the target and its descendants.
\<close>

section \<open>The forest invariant\<close>

definition child_rel :: "CapabilityDerivationTree \<Rightarrow> (u8 \<times> u8) set" where
  "child_rel t = {(p, c). parent_of t c = Some p}"

definition descendants :: "CapabilityDerivationTree \<Rightarrow> u8 \<Rightarrow> u8 set" where
  "descendants t r = {x. (r, x) \<in> (child_rel t)\<^sup>+}"

fun sibling_chain :: "CapabilityDerivationTree \<Rightarrow> u8 option \<Rightarrow> u8 list \<Rightarrow> bool" where
  "sibling_chain t n [] \<longleftrightarrow> n = None"
| "sibling_chain t n (c # cs) \<longleftrightarrow> n = Some c \<and> sibling_chain t (next_sibling_of t c) cs"

definition children_listed :: "CapabilityDerivationTree \<Rightarrow> u8 \<Rightarrow> u8 list \<Rightarrow> bool" where
  "children_listed t p kids \<longleftrightarrow>
     sibling_chain t (first_child_of t p) kids \<and> distinct kids \<and> set kids = {c. parent_of t c = Some p}"

definition forest :: "CapabilityDerivationTree \<Rightarrow> bool" where
  "forest t \<longleftrightarrow> (\<forall>p. \<exists>kids. children_listed t p kids) \<and> acyclic (child_rel t)"

definition cap_inv :: "CapabilitySpace \<Rightarrow> CapabilityDerivationTree \<Rightarrow> bool" where
  "cap_inv cs t \<longleftrightarrow> forest t \<and> (\<forall>i. is_null (lookup_slot_ref cs i) \<longrightarrow> record_at t i = empty_record)"

lemma sibling_chain_cong:
  "(\<And>c. c \<in> set kids \<Longrightarrow> next_sibling_of t c = next_sibling_of u c) \<Longrightarrow>
   sibling_chain t n kids = sibling_chain u n kids"
  by (induction kids arbitrary: n) auto

lemma children_listed_cong:
  assumes "children_listed t p kids"
    and "first_child_of u p = first_child_of t p"
    and "\<And>c. c \<in> set kids \<Longrightarrow> next_sibling_of u c = next_sibling_of t c"
    and "\<And>c. parent_of u c = Some p \<longleftrightarrow> parent_of t c = Some p"
  shows "children_listed u p kids"
  using assms sibling_chain_cong [of kids u t] by (simp add: children_listed_def)

lemma children_listedE:
  assumes "forest t"
  obtains kids where "children_listed t p kids"
  using assms by (auto simp: forest_def)

lemma childless_first_child:
  assumes "forest t" and "first_child_of t p = None"
  shows "parent_of t c \<noteq> Some p"
proof -
  from assms(1) obtain kids where "children_listed t p kids" by (rule children_listedE)
  with assms(2) show ?thesis by (cases kids) (auto simp: children_listed_def)
qed

lemma forest_new_tree: "forest new_tree"
proof -
  have none: "parent_of new_tree i = None" "first_child_of new_tree i = None" for i by simp_all
  have "children_listed new_tree p []" for p
    using none by (simp add: children_listed_def)
  moreover have "child_rel new_tree = {}"
    using none by (simp add: child_rel_def)
  ultimately show ?thesis by (auto simp: forest_def acyclic_def)
qed

lemma cap_inv_new_tree: "cap_inv cs new_tree"
  by (simp add: cap_inv_def forest_new_tree)

subsection \<open>Derivation keeps the invariant\<close>

lemma forest_record_derivation:
  assumes f: "forest t" and pc: "p \<noteq> c" and c: "record_at t c = empty_record"
  shows "forest (record_derivation t p c)"
proof -
  let ?u = "record_derivation t p c"
  note links = record_derivation_links [OF pc, of t]
  have c_root: "parent_of t c = None" "first_child_of t c = None" using c by simp_all
  have kid_ne: "x \<noteq> c" if "parent_of t x = Some q" for x q using that c_root by auto
  have "\<exists>kids. children_listed ?u q kids" for q
  proof -
    from f obtain kids where k: "children_listed t q kids" by (rule children_listedE)
    have same: "next_sibling_of ?u x = next_sibling_of t x" if "x \<in> set kids" for x
      using that k kid_ne by (auto simp: links children_listed_def)
    show ?thesis
    proof (cases "q = p")
      case False
      with k same have "children_listed ?u q kids"
        by (rule_tac children_listed_cong) (auto simp: links c_root)
      then show ?thesis ..
    next
      case True
      have "sibling_chain ?u (first_child_of t p) kids"
        using k same sibling_chain_cong [of kids ?u t] True by (simp add: children_listed_def)
      moreover have "c \<notin> set kids" using k kid_ne by (auto simp: children_listed_def)
      ultimately have "children_listed ?u q (c # kids)"
        using k True c_root by (auto simp: children_listed_def links)
      then show ?thesis ..
    qed
  qed
  moreover have "acyclic (child_rel ?u)"
  proof -
    have "(c, x) \<notin> child_rel t" for x
      using childless_first_child [OF f c_root(2)] by (simp add: child_rel_def)
    then have "(c, p) \<notin> (child_rel t)\<^sup>*" using pc by (metis converse_rtranclE)
    moreover have "child_rel ?u = insert (p, c) (child_rel t)"
      using c_root by (auto simp: child_rel_def links split: if_splits)
    ultimately show ?thesis using f by (simp add: forest_def)
  qed
  ultimately show ?thesis by (simp add: forest_def)
qed

lemma record_at_record_derivation_other:
  "i \<noteq> p \<Longrightarrow> i \<noteq> c \<Longrightarrow> record_at (record_derivation t p c) i = record_at t i"
  by (simp add: record_derivation_def prepend_child_to_sibling_chain_def set_child_parent_link_def
      Let_def)

lemma cap_inv_derive:
  assumes inv: "cap_inv cs t" and d: "derivable cs p c r"
  shows "cap_inv (write_slot cs c (derived_slot cs p c r)) (record_derivation t p c)"
proof -
  from d have pc: "p \<noteq> c" by (rule derivable_neq)
  have "record_at t c = empty_record" using inv d by (auto simp: cap_inv_def derivable_def)
  then have "forest (record_derivation t p c)"
    using inv pc by (auto simp: cap_inv_def intro: forest_record_derivation)
  moreover have "is_null (lookup_slot_ref (write_slot cs c (derived_slot cs p c r)) i) \<longrightarrow>
      record_at (record_derivation t p c) i = empty_record" for i
  proof (cases "i = c \<or> i = p")
    case True
    then show ?thesis using d pc by (auto simp: derived_slot_def is_null_def is_valid_def derivable_def)
  next
    case False
    then show ?thesis
      using inv by (auto simp: cap_inv_def record_at_record_derivation_other)
  qed
  ultimately show ?thesis by (simp add: cap_inv_def)
qed

section \<open>Revocation returns and clears exactly the descendants\<close>

lemma push_children_loop_chain:
  "sibling_chain t n kids \<Longrightarrow> distinct (kids @ stack) \<Longrightarrow>
   push_children_loop t n stack = Some (rev kids @ stack)"
proof (induction kids arbitrary: n stack)
  case Nil
  then show ?case by (simp add: push_children_loop.simps)
next
  case (Cons c kids)
  have "distinct (c # stack)" using Cons.prems by auto
  then have "length stack < 256" using distinct_u8_length [of "c # stack"] by simp
  then have push: "push_onto_stack stack c = c # stack"
    by (simp add: push_onto_stack_def MAXIMUM_CAPABILITY_SLOTS_PER_PROCESS_def)
  have "push_children_loop t (next_sibling_of t c) (c # stack) = Some (rev kids @ c # stack)"
    using Cons.prems by (intro Cons.IH) auto
  with Cons.prems push show ?case by (subst push_children_loop.simps) simp
qed

lemma push_children_listed:
  "children_listed t p kids \<Longrightarrow> distinct stack \<Longrightarrow> set kids \<inter> set stack = {} \<Longrightarrow>
   push_children_onto_stack t p stack = Some (rev kids @ stack)"
  unfolding push_children_onto_stack_def
  by (rule push_children_loop_chain) (auto simp: children_listed_def)

text \<open>
  The loop invariant of the depth-first walk from \<open>r\<close>: \<open>Z\<close> is the set of slots cleared so far,
  \<open>t0\<close> and \<open>cs0\<close> are the tree and the space the walk started from.
\<close>

definition walk_inv ::
  "CapabilityDerivationTree \<Rightarrow> CapabilitySpace \<Rightarrow> u8 \<Rightarrow> u8 set \<Rightarrow>
   CapabilitySpace \<Rightarrow> CapabilityDerivationTree \<Rightarrow> u8 list \<Rightarrow> u32 \<Rightarrow> bool" where
  "walk_inv t0 cs0 r Z cs t stack n \<longleftrightarrow>
     distinct stack \<and> set stack \<inter> Z = {} \<and>
     Z \<union> set stack \<subseteq> descendants t0 r \<and>
     (\<forall>x \<in> Z \<union> set stack. \<exists>q \<in> insert r Z. parent_of t0 x = Some q) \<and>
     (\<forall>z \<in> insert r Z. \<forall>c. parent_of t0 c = Some z \<longrightarrow> c \<in> Z \<union> set stack) \<and>
     (\<forall>i. record_at t i = (if i \<in> Z then empty_record else record_at t0 i)) \<and>
     (\<forall>i. lookup_slot_ref cs i = (if i \<in> Z then null_slot else lookup_slot_ref cs0 i)) \<and>
     n = of_nat (card Z)"

lemma descendants_step:
  "x \<in> insert r (descendants t r) \<Longrightarrow> parent_of t c = Some x \<Longrightarrow> c \<in> descendants t r"
  by (auto simp: descendants_def child_rel_def intro: trancl_into_trancl)

lemma descendants_parent:
  assumes "x \<in> descendants t r"
  obtains q where "parent_of t x = Some q" and "q \<in> insert r (descendants t r)"
proof -
  from assms have "(r, x) \<in> (child_rel t)\<^sup>+" by (simp add: descendants_def)
  then show thesis
    by (rule tranclE) (auto simp: child_rel_def descendants_def intro: that)
qed

lemma descendants_irrefl: "forest t \<Longrightarrow> r \<notin> descendants t r"
  by (simp add: forest_def acyclic_def descendants_def)

lemma descendants_leastI:
  assumes "\<And>z c. z \<in> insert r Z \<Longrightarrow> parent_of t c = Some z \<Longrightarrow> c \<in> Z"
  shows "descendants t r \<subseteq> Z"
proof
  fix x assume "x \<in> descendants t r"
  then have "(r, x) \<in> (child_rel t)\<^sup>+" by (simp add: descendants_def)
  then show "x \<in> Z"
    by (induction rule: trancl_induct) (use assms in \<open>auto simp: child_rel_def\<close>)
qed

lemma walk_inv_init:
  assumes "forest t" and "children_listed t r kids"
  shows "walk_inv t cs r {} cs t (rev kids) 0"
  using assms descendants_step [of r r t]
  by (auto simp: walk_inv_def children_listed_def)

lemma walk_inv_kids_fresh:
  assumes f: "forest t0" and inv: "walk_inv t0 cs0 r Z cs t (y # stack) n"
    and c: "parent_of t0 c = Some y"
  shows "c \<notin> Z" and "c \<notin> set (y # stack)"
proof -
  have y: "y \<in> descendants t0 r" "y \<notin> Z" using inv by (auto simp: walk_inv_def)
  with descendants_irrefl [OF f] have "y \<notin> insert r Z" by auto
  then have "\<forall>x \<in> Z \<union> set (y # stack). parent_of t0 x \<noteq> Some y"
    using inv unfolding walk_inv_def by (metis option.inject)
  with c show "c \<notin> Z" and "c \<notin> set (y # stack)" by auto
qed

lemma walk_inv_step:
  assumes f: "forest t0" and inv: "walk_inv t0 cs0 r Z cs t (y # stack) n"
  shows "\<exists>cs' t' stack' n'. process_one_descendant cs t y stack n = Some (cs', t', stack', n') \<and>
    walk_inv t0 cs0 r (insert y Z) cs' t' stack' n' \<and> y \<notin> Z"
proof -
  from f obtain kids where k0: "children_listed t0 y kids" by (rule children_listedE)
  then have kids: "parent_of t0 c = Some y \<longleftrightarrow> c \<in> set kids" for c by (auto simp: children_listed_def)
  have fresh: "set kids \<inter> Z = {}" "set kids \<inter> set (y # stack) = {}"
    using walk_inv_kids_fresh [OF f inv] kids by blast+
  have yZ: "y \<notin> Z" "y \<in> descendants t0 r" and dist: "distinct (y # stack)"
    using inv by (auto simp: walk_inv_def)
  have rec: "record_at t i = record_at t0 i" if "i \<notin> Z" for i using inv that by (simp add: walk_inv_def)
  have "sibling_chain t (first_child_of t y) kids"
    using k0 fresh rec yZ sibling_chain_cong [of kids t t0] links_cong
    by (metis children_listed_def disjoint_iff)
  then have push: "push_children_onto_stack t y stack = Some (rev kids @ stack)"
    unfolding push_children_onto_stack_def
    using k0 fresh dist by (intro push_children_loop_chain) (auto simp: children_listed_def)
  have desc: "set kids \<subseteq> descendants t0 r"
    using descendants_step [of y r t0] yZ kids by auto
  have "walk_inv t0 cs0 r (insert y Z) (zero_single_slot cs y) (remove_record t y)
      (rev kids @ stack) (n + 1)"
    using inv yZ fresh desc kids k0
    unfolding walk_inv_def
    by (auto simp: children_listed_def zero_single_slot_def zero_capability_slot_via_reference_def)
  with push yZ show ?thesis by (simp add: process_one_descendant_def)
qed

lemma walk_loop_correct:
  assumes f: "forest t0" and inv: "walk_inv t0 cs0 r Z cs t stack n"
  shows "\<exists>cs' t' n'. walk_loop cs t stack n = Some (cs', t', n') \<and>
    walk_inv t0 cs0 r (descendants t0 r) cs' t' [] n'"
  using inv
proof (induction "card (- Z)" arbitrary: Z cs t stack n rule: less_induct)
  case less
  show ?case
  proof (cases stack)
    case Nil
    have "descendants t0 r \<subseteq> Z"
      by (rule descendants_leastI) (use less.prems Nil in \<open>auto simp: walk_inv_def\<close>)
    with less.prems Nil have "Z = descendants t0 r" by (auto simp: walk_inv_def)
    with less.prems Nil show ?thesis by (simp add: walk_loop.simps)
  next
    case (Cons y rest)
    obtain cs' t' stack' n' where
      step: "process_one_descendant cs t y rest n = Some (cs', t', stack', n')"
      and inv': "walk_inv t0 cs0 r (insert y Z) cs' t' stack' n'" and y: "y \<notin> Z"
      using walk_inv_step [OF f] less.prems Cons by blast
    have "card (- insert y Z) < card (- Z)"
      using y by (intro psubset_card_mono) auto
    with less.hyps inv' show ?thesis by (subst walk_loop.simps) (simp add: Cons step)
  qed
qed

theorem revoke_capability_exact:
  assumes f: "forest t" and v: "is_valid (lookup_slot_ref cs r)"
  shows "\<exists>cs' t'. revoke_capability cs t r = Some (Ok (of_nat (card (descendants t r)) + 1), cs', t') \<and>
    (\<forall>i. lookup_slot_ref cs' i =
       (if i \<in> insert r (descendants t r) then null_slot else lookup_slot_ref cs i)) \<and>
    (\<forall>i. record_at t' i =
       (if i \<in> insert r (descendants t r) then empty_record else record_at t i))"
proof -
  let ?cs = "mark_slot_as_revoking cs r"
  from f obtain kids where k: "children_listed t r kids" by (rule children_listedE)
  then have push: "push_children_onto_stack t r [] = Some (rev kids)"
    using push_children_listed [of t r kids "[]"] by simp
  obtain cs' t' n' where walk: "walk_loop ?cs t (rev kids) 0 = Some (cs', t', n')"
    and inv: "walk_inv t ?cs r (descendants t r) cs' t' [] n'"
    using walk_loop_correct [OF f walk_inv_init [OF f k]] by blast
  have "revoke_capability cs t r =
      Some (Ok (n' + 1), zero_single_slot cs' r, remove_record t' r)"
    by (simp add: revoke_capability_def check_target_slot_is_valid_def v
        walk_and_zero_descendants_def push walk)
  with inv show ?thesis
    by (auto simp: walk_inv_def zero_single_slot_def zero_capability_slot_via_reference_def
        mark_slot_as_revoking_def)
qed

end
