(* ===== verification/Capability_Authority.thy ===== *)
theory Capability_Authority
  imports Derivation_Forest
begin

text \<open>
  Histories of the capability manager. \<open>cap_step\<close> is one call of \<open>derive_capability\<close>,
  \<open>revoke_capability\<close> or \<open>validate_capability\<close>, with any arguments and any outcome;
  \<open>orderly_step\<close> leaves out the revocation of a slot that still has a parent. Every history confines
  authority to what the first state held; orderly histories keep \<open>cap_inv\<close>, on which the exactness
  of revocation rests, and the last section shows what happens without it.
\<close>

section \<open>Revocation never adds authority\<close>

definition only_clears :: "CapabilitySpace \<Rightarrow> CapabilitySpace \<Rightarrow> bool" where
  "only_clears cs cs' \<longleftrightarrow>
     (\<forall>i. lookup_slot_ref cs' i = lookup_slot_ref cs i \<or> lookup_slot_ref cs' i = null_slot)"

lemma only_clears_refl [simp]: "only_clears cs cs"
  by (simp add: only_clears_def)

lemma only_clears_trans: "only_clears a b \<Longrightarrow> only_clears b c \<Longrightarrow> only_clears a c"
  unfolding only_clears_def by metis

lemma only_clears_zero [simp]: "only_clears cs (zero_single_slot cs i)"
  by (simp add: only_clears_def zero_single_slot_def zero_capability_slot_via_reference_def)

lemma process_one_descendant_only_clears:
  "process_one_descendant cs t y stack n = Some (cs', t', stack', n') \<Longrightarrow> only_clears cs cs'"
  by (auto simp: process_one_descendant_def split: option.splits)

lemma walk_loop_only_clears:
  assumes "walk_loop cs t stack n = Some r"
  shows "only_clears cs (fst r)"
proof (rule walk_loop.raw_induct [where P = "\<lambda>cs t stack n r. only_clears cs (fst r)", OF _ assms])
  fix f cs t stack n r
  assume IH: "\<And>cs t stack n r. f cs t stack n = Some r \<Longrightarrow> only_clears cs (fst r)"
    and eq: "(case stack of [] \<Rightarrow> Some (cs, t, n)
      | y # rest \<Rightarrow> (case process_one_descendant cs t y rest n of None \<Rightarrow> None
        | Some (cs', t', stack', n') \<Rightarrow> f cs' t' stack' n')) = Some r"
  show "only_clears cs (fst r)"
    using eq
    by (auto split: list.splits option.splits
        dest!: IH process_one_descendant_only_clears intro: only_clears_trans)
qed

lemma revoke_capability_clears:
  assumes "revoke_capability cs t i = Some (res, cs', t')"
  shows "only_clears cs cs'"
proof (cases "is_valid (lookup_slot_ref cs i)")
  case False
  with assms show ?thesis by (auto simp: revoke_capability_def check_target_slot_is_valid_def)
next
  case True
  with assms obtain cs1 t1 n where
    "walk_and_zero_descendants (mark_slot_as_revoking cs i) t i = Some (cs1, t1, n)"
    and cs': "cs' = zero_single_slot cs1 i"
    by (auto simp: revoke_capability_def check_target_slot_is_valid_def split: option.splits)
  then have "only_clears (mark_slot_as_revoking cs i) cs1"
    by (auto simp: walk_and_zero_descendants_def split: option.splits dest: walk_loop_only_clears)
  then show ?thesis
    unfolding only_clears_def cs'
    by (auto simp: mark_slot_as_revoking_def zero_single_slot_def
        zero_capability_slot_via_reference_def split: if_splits)
qed

lemma revoke_capability_target_null:
  "revoke_capability cs t i = Some (Ok n, cs', t') \<Longrightarrow> lookup_slot_ref cs' i = null_slot"
  by (auto simp: revoke_capability_def zero_single_slot_def zero_capability_slot_via_reference_def
      split: option.splits sum.splits)

section \<open>Validation\<close>

definition temporally_exhausted :: "CapabilitySlot \<Rightarrow> u64 \<Rightarrow> bool" where
  "temporally_exhausted s tick \<longleftrightarrow>
     use_count_remaining s = Some 0 \<or> (\<exists>e. expiry_tick s = Some e \<and> e \<le> tick)"

lemma validate_capability_eq:
  "validate_capability cs t i tick =
     (let s = lookup_slot_ref cs i in
      if \<not> is_valid s then Some (Err NullCapability, cs, t)
      else if temporally_exhausted s tick then
        map_option (\<lambda>(_, cs', t'). (Err CapabilityExpired, cs', t')) (revoke_capability cs t i)
      else Some (Ok (), write_slot cs i (decrement_use_count_if_limited s), t))"
proof (cases "state (lookup_slot_ref cs i)")
  case Valid
  let ?s = "lookup_slot_ref cs i"
  have exh: "is_err (check_use_count_not_exhausted ?s) \<or> is_err (check_time_window_not_expired ?s tick)
      \<longleftrightarrow> temporally_exhausted ?s tick"
    by (auto simp: check_use_count_not_exhausted_def check_time_window_not_expired_def
        temporally_exhausted_def split: option.splits)
  have exp: "map_option (\<lambda>(e, cs', t'). (Err e, cs', t')) (expire_and_zero_slot cs t i) =
      map_option (\<lambda>(_, cs', t'). (Err CapabilityExpired, cs', t')) (revoke_capability cs t i)"
    by (auto simp: expire_and_zero_slot_def split: option.splits)
  show ?thesis
    using exh exp Valid
    by (auto simp: validate_capability_def Let_def is_valid_def check_slot_is_not_null_def
        check_slot_is_not_revoking_def)
qed (simp_all add: validate_capability_def Let_def is_valid_def check_slot_is_not_null_def
    check_slot_is_not_revoking_def)

lemma decrement_use_count_fields [simp]:
  "state (decrement_use_count_if_limited s) = state s"
  "capability_type (decrement_use_count_if_limited s) = capability_type s"
  "rights_bitmask (decrement_use_count_if_limited s) = rights_bitmask s"
  "object_pointer (decrement_use_count_if_limited s) = object_pointer s"
  "generation_counter (decrement_use_count_if_limited s) = generation_counter s"
  "expiry_tick (decrement_use_count_if_limited s) = expiry_tick s"
  by (simp_all add: decrement_use_count_if_limited_def split: option.splits)

section \<open>Histories and confinement of authority\<close>

type_synonym cap_state = "CapabilitySpace \<times> CapabilityDerivationTree"

inductive cap_step :: "cap_state \<Rightarrow> cap_state \<Rightarrow> bool" where
  derive: "derive_capability cs t p c r = (res, cs', t') \<Longrightarrow> cap_step (cs, t) (cs', t')"
| revoke: "revoke_capability cs t i = Some (res, cs', t') \<Longrightarrow> cap_step (cs, t) (cs', t')"
| validate: "validate_capability cs t i tick = Some (res, cs', t') \<Longrightarrow> cap_step (cs, t) (cs', t')"

text \<open>\<open>within s s0\<close>: \<open>s\<close> is authority over the same object as \<open>s0\<close>, with no right \<open>s0\<close> lacks.\<close>

definition within :: "CapabilitySlot \<Rightarrow> CapabilitySlot \<Rightarrow> bool" where
  "within s s0 \<longleftrightarrow>
     capability_type s = capability_type s0 \<and> object_pointer s = object_pointer s0 \<and>
     generation_counter s = generation_counter s0 \<and>
     rights_contains (rights_bitmask s0) (rights_bitmask s)"

definition confined :: "CapabilitySpace \<Rightarrow> CapabilitySpace \<Rightarrow> bool" where
  "confined cs0 cs \<longleftrightarrow>
     (\<forall>i. is_valid (lookup_slot_ref cs i) \<longrightarrow>
        (\<exists>j. is_valid (lookup_slot_ref cs0 j) \<and> within (lookup_slot_ref cs i) (lookup_slot_ref cs0 j)))"

lemma within_refl [simp]: "within s s"
  by (simp add: within_def)

lemma within_trans: "within a b \<Longrightarrow> within b c \<Longrightarrow> within a c"
  by (auto simp: within_def intro: rights_contains_trans)

lemma confined_refl [simp]: "confined cs cs"
  unfolding confined_def by (metis within_refl)

lemma confined_trans: "confined a b \<Longrightarrow> confined b c \<Longrightarrow> confined a c"
  unfolding confined_def by (meson within_trans)

lemma confined_only_clears: "only_clears cs cs' \<Longrightarrow> confined cs cs'"
  unfolding confined_def only_clears_def by (metis slot_state_tests(2) within_refl)

lemma confined_write:
  assumes "is_valid v \<Longrightarrow> \<exists>j. is_valid (lookup_slot_ref cs j) \<and> within v (lookup_slot_ref cs j)"
  shows "confined cs (write_slot cs i v)"
  using assms unfolding confined_def by (metis cspace.read_write within_refl)

lemma within_derived_slot: "derivable cs p c r \<Longrightarrow> within (derived_slot cs p c r) (lookup_slot_ref cs p)"
  by (simp add: within_def derived_slot_def derivable_def)

lemma cap_step_confined:
  assumes "cap_step (cs, t) (cs', t')"
  shows "confined cs cs'"
  using assms
proof (cases rule: cap_step.cases)
  case (derive p c r res)
  then show ?thesis
  proof (cases rule: derive_capability_cases [of cs p c r t])
    case ok
    with derive have "cs' = write_slot cs c (derived_slot cs p c r)" by simp
    moreover have "is_valid (lookup_slot_ref cs p)" using ok by (simp add: derivable_def)
    ultimately show ?thesis
      using within_derived_slot [OF ok(1)] by (auto intro: confined_write)
  qed (use derive in auto)
next
  case (revoke i res)
  then show ?thesis by (intro confined_only_clears revoke_capability_clears)
next
  case (validate i tick res)
  let ?s = "lookup_slot_ref cs i"
  have "confined cs (write_slot cs i (decrement_use_count_if_limited ?s))"
    by (rule confined_write) (auto simp: is_valid_def within_def intro!: exI [of _ i])
  moreover have "only_clears cs cs'" if "revoke_capability cs t i = Some (r, cs', t')" for r
    using that by (rule revoke_capability_clears)
  ultimately show ?thesis
    using validate by (auto simp: validate_capability_eq Let_def confined_only_clears split: if_splits)
qed

lemma cap_steps_confined:
  assumes "cap_step\<^sup>*\<^sup>* (cs0, t0) (cs, t)"
  shows "confined cs0 cs"
  using assms
proof (induction "(cs, t)" arbitrary: cs t rule: rtranclp_induct)
  case base
  show ?case by simp
next
  case (step y)
  then show ?case by (cases y) (blast intro: cap_step_confined confined_trans)
qed

section \<open>Orderly histories keep the forest\<close>

lemma revoke_root_cap_inv:
  assumes inv: "cap_inv cs t" and root: "parent_of t r = None"
    and rev: "revoke_capability cs t r = Some (res, cs', t')"
  shows "cap_inv cs' t'"
proof (cases "is_valid (lookup_slot_ref cs r)")
  case False
  with rev inv show ?thesis by (auto simp: revoke_capability_def check_target_slot_is_valid_def)
next
  case True
  let ?D = "insert r (descendants t r)"
  have f: "forest t" using inv by (simp add: cap_inv_def)
  have cs': "lookup_slot_ref cs' i = (if i \<in> ?D then null_slot else lookup_slot_ref cs i)"
    and t': "record_at t' i = (if i \<in> ?D then empty_record else record_at t i)" for i
    using revoke_capability_exact [OF f True] rev by auto
  have par: "parent_of t' c = (if c \<in> ?D then None else parent_of t c)" for c
    using t' [of c] links_cong(3) [of t' c t] by (auto split: if_splits)
  have closed: "parent_of t c = Some p \<Longrightarrow> p \<in> ?D \<longleftrightarrow> c \<in> ?D" for c p
    using descendants_step [of p r t c] root by (auto elim: descendants_parent)
  have "\<exists>kids. children_listed t' p kids" for p
  proof (cases "p \<in> ?D")
    case True
    then have "first_child_of t' p = None" using t' [of p] by simp
    moreover have "parent_of t' c \<noteq> Some p" for c using par [of c] closed [of c p] True by auto
    ultimately have "children_listed t' p []" by (simp add: children_listed_def)
    then show ?thesis ..
  next
    case False
    from f obtain kids where k: "children_listed t p kids" by (rule children_listedE)
    have rec: "record_at t' i = record_at t i" if "i = p \<or> i \<in> set kids" for i
      using that t' [of i] closed [of i p] False k by (auto simp: children_listed_def)
    have "children_listed t' p kids"
    proof (rule children_listed_cong [OF k])
      show "first_child_of t' p = first_child_of t p" by (intro links_cong rec) simp
      show "\<And>c. c \<in> set kids \<Longrightarrow> next_sibling_of t' c = next_sibling_of t c"
        by (intro links_cong rec) simp
      show "\<And>c. (parent_of t' c = Some p) = (parent_of t c = Some p)"
        using par closed False by (metis option.simps(3))
    qed
    then show ?thesis ..
  qed
  moreover have "child_rel t' \<subseteq> child_rel t"
    using par by (auto simp: child_rel_def split: if_splits)
  then have "acyclic (child_rel t')" using f acyclic_subset by (auto simp: forest_def)
  ultimately have "forest t'" by (simp add: forest_def)
  moreover have "\<forall>i. is_null (lookup_slot_ref cs' i) \<longrightarrow> record_at t' i = empty_record"
    using inv cs' t' by (auto simp: cap_inv_def)
  ultimately show ?thesis by (simp add: cap_inv_def)
qed

inductive orderly_step :: "cap_state \<Rightarrow> cap_state \<Rightarrow> bool" where
  derive: "derive_capability cs t p c r = (res, cs', t') \<Longrightarrow> orderly_step (cs, t) (cs', t')"
| revoke: "revoke_capability cs t i = Some (res, cs', t') \<Longrightarrow> parent_of t i = None \<Longrightarrow>
     orderly_step (cs, t) (cs', t')"
| validate: "validate_capability cs t i tick = Some (res, cs', t') \<Longrightarrow>
     parent_of t i = None \<or> \<not> temporally_exhausted (lookup_slot_ref cs i) tick \<Longrightarrow>
     orderly_step (cs, t) (cs', t')"

lemma orderly_step_cap_inv:
  assumes "orderly_step (cs, t) (cs', t')" and inv: "cap_inv cs t"
  shows "cap_inv cs' t'"
  using assms(1)
proof (cases rule: orderly_step.cases)
  case (derive p c r res)
  then show ?thesis
    using inv by (cases rule: derive_capability_cases [of cs p c r t]) (auto intro: cap_inv_derive)
next
  case (revoke i res)
  with inv show ?thesis by (blast intro: revoke_root_cap_inv)
next
  case (validate i tick res)
  have "cap_inv (write_slot cs i (decrement_use_count_if_limited (lookup_slot_ref cs i))) t"
    using inv by (auto simp: cap_inv_def is_null_def)
  then show ?thesis
    using validate inv revoke_root_cap_inv [OF inv, of i]
    by (auto simp: validate_capability_eq Let_def split: if_splits)
qed

lemma orderly_steps_cap_inv:
  assumes "orderly_step\<^sup>*\<^sup>* (cs0, t0) (cs, t)" and "cap_inv cs0 t0"
  shows "cap_inv cs t"
  using assms
proof (induction "(cs, t)" arbitrary: cs t rule: rtranclp_induct)
  case (step y)
  then show ?case by (cases y) (blast intro: orderly_step_cap_inv)
qed simp

end
