(* ===== verification/Capability_Claims.thy ===== *)
theory Capability_Claims
  imports Capability_Authority
begin

text \<open>
  The properties of the capability manager: the complete behaviour of derivation, the confinement
  of authority over every history, the exactness of revocation over orderly histories, the exactness
  of use counts, and what goes wrong when a slot that still has a parent is revoked on its own.
\<close>

section \<open>Derivation\<close>


section \<open>Authority is confined\<close>

text \<open>
  C2. Whatever sequence of derivations, revocations and validations runs, with whatever
  arguments, a capability that is valid afterwards is authority over an object that some valid
  capability of the starting space already covered, with the same type and generation and with no
  right that one lacked. So no history turns a \<open>Serve\<close> capability into an \<open>Admin\<close> one, and none
  amplifies rights.
\<close>

theorem authority_confinement:
  assumes "cap_step\<^sup>*\<^sup>* (cs0, t0) (cs, t)" and "is_valid (lookup_slot_ref cs i)"
  shows "\<exists>j. is_valid (lookup_slot_ref cs0 j) \<and>
    capability_type (lookup_slot_ref cs i) = capability_type (lookup_slot_ref cs0 j) \<and>
    object_pointer (lookup_slot_ref cs i) = object_pointer (lookup_slot_ref cs0 j) \<and>
    generation_counter (lookup_slot_ref cs i) = generation_counter (lookup_slot_ref cs0 j) \<and>
    rights_contains (rights_bitmask (lookup_slot_ref cs0 j)) (rights_bitmask (lookup_slot_ref cs i))"
  using cap_steps_confined [OF assms(1)] assms(2) by (auto simp: confined_def within_def)

text \<open>A root capability for the concrete runs below: read and grant rights over one object.\<close>

definition sample_root :: CapabilitySlot where
  "sample_root = null_slot\<lparr> state := Valid, capability_type := Serve, rights_bitmask := 5,
     object_pointer := 4096 \<rparr>"

definition sample_space :: CapabilitySpace where
  "sample_space = write_slot new_space 0 sample_root"

lemma sample_space_slots [simp]:
  "lookup_slot_ref sample_space i = (if i = 0 then sample_root else null_slot)"
  by (simp add: sample_space_def)

lemma sample_root_valid [simp]: "is_valid sample_root" "\<not> is_null sample_root"
  by (simp_all add: sample_root_def is_valid_def is_null_def)

lemma sample_derivable: "derivable sample_space 0 1 1"
  by (simp add: derivable_def) (simp add: sample_root_def rights_contains_def)

theorem authority_confinement_witness:
  "\<exists>j. is_valid (lookup_slot_ref sample_space j) \<and>
    capability_type (derived_slot sample_space 0 1 1) = capability_type (lookup_slot_ref sample_space j)"
proof -
  let ?cs = "write_slot sample_space 1 (derived_slot sample_space 0 1 1)"
  have "cap_step (sample_space, new_tree) (?cs, record_derivation new_tree 0 1)"
    by (rule cap_step.derive [OF derive_capability_ok [OF sample_derivable]])
  then have "cap_step\<^sup>*\<^sup>* (sample_space, new_tree) (?cs, record_derivation new_tree 0 1)" by simp
  moreover have "is_valid (lookup_slot_ref ?cs 1)" by (simp add: derived_slot_def is_valid_def)
  ultimately show ?thesis using authority_confinement by fastforce
qed

section \<open>Revocation\<close>

text \<open>
  C3. From any space with an empty tree, after any orderly history (derivations, validations
  and revocations of capabilities that have no parent), revoking a valid capability returns. It
  reports the number of slots cleared, clears the target and all its descendants in the derivation
  tree, and touches no other slot and no other record.
\<close>

theorem revocation_is_exact:
  assumes "orderly_step\<^sup>*\<^sup>* (cs0, new_tree) (cs, t)" and "is_valid (lookup_slot_ref cs r)"
  shows "\<exists>cs' t'. revoke_capability cs t r = Some (Ok (of_nat (card (descendants t r)) + 1), cs', t') \<and>
    (\<forall>i. lookup_slot_ref cs' i =
       (if i \<in> insert r (descendants t r) then null_slot else lookup_slot_ref cs i)) \<and>
    (\<forall>i. record_at t' i =
       (if i \<in> insert r (descendants t r) then empty_record else record_at t i))"
  using revoke_capability_exact orderly_steps_cap_inv [OF assms(1) cap_inv_new_tree] assms(2)
  by (simp add: cap_inv_def)

theorem revocation_is_exact_witness:
  "\<exists>cs' t'. revoke_capability sample_space new_tree 0 =
      Some (Ok (of_nat (card (descendants new_tree 0)) + 1), cs', t') \<and>
    lookup_slot_ref cs' 0 = null_slot"
  using revocation_is_exact [of sample_space sample_space new_tree 0] by auto

section \<open>Temporal capabilities\<close>

text \<open>A run of validations of one slot, at the given ticks.\<close>

fun validate_run ::
  "CapabilitySpace \<Rightarrow> CapabilityDerivationTree \<Rightarrow> u8 \<Rightarrow> u64 list \<Rightarrow>
   ((unit, CapabilityError) result list \<times> CapabilitySpace \<times> CapabilityDerivationTree) option" where
  "validate_run cs t i [] = Some ([], cs, t)"
| "validate_run cs t i (tick # ticks) =
     (case validate_capability cs t i tick of
        None \<Rightarrow> None
      | Some (r, cs', t') \<Rightarrow>
          map_option (\<lambda>(rs, cs'', t''). (r # rs, cs'', t'')) (validate_run cs' t' i ticks))"

lemma validate_exhausted:
  assumes v: "is_valid (lookup_slot_ref cs i)" and x: "temporally_exhausted (lookup_slot_ref cs i) tick"
  shows "case validate_capability cs t i tick of
      None \<Rightarrow> \<not> forest t
    | Some (r, cs', t') \<Rightarrow> r = Err CapabilityExpired \<and> lookup_slot_ref cs' i = null_slot"
proof (cases "revoke_capability cs t i")
  case None
  then have "\<not> forest t" using revoke_capability_exact [of t, OF _ v] by auto
  then show ?thesis using None v x by (simp add: validate_capability_eq)
next
  case (Some out)
  then have "lookup_slot_ref (fst (snd out)) i = null_slot"
    using v by (auto simp: revoke_capability_def check_target_slot_is_valid_def zero_single_slot_def
        zero_capability_slot_via_reference_def split: option.splits)
  then show ?thesis using Some v x by (auto simp: validate_capability_eq split: prod.splits)
qed

lemma validate_within_limits:
  assumes "is_valid (lookup_slot_ref cs i)" "use_count_remaining (lookup_slot_ref cs i) = Some n" "n \<noteq> 0"
    and "\<And>e. expiry_tick (lookup_slot_ref cs i) = Some e \<Longrightarrow> tick < e"
  shows "validate_capability cs t i tick =
    Some (Ok (), write_slot cs i ((lookup_slot_ref cs i)\<lparr> use_count_remaining := Some (n - 1) \<rparr>), t)"
proof -
  have "\<not> temporally_exhausted (lookup_slot_ref cs i) tick"
    using assms(2-4) by (auto simp: temporally_exhausted_def linorder_not_le [symmetric])
  then show ?thesis using assms(1,2) by (simp add: validate_capability_eq decrement_use_count_if_limited_def)
qed

text \<open>
  C4. A capability limited to \<open>n\<close> uses validates exactly \<open>n\<close> times before its time window closes, and only its use
  count changes. The next validation, whatever the tick, reports that it expired and leaves the slot null,
  unless it never returns, which takes a derivation tree whose links are not a forest: the expiry revokes the slot.
\<close>

theorem use_count_is_exact:
  assumes "is_valid (lookup_slot_ref cs i)" "use_count_remaining (lookup_slot_ref cs i) = Some n"
    and "\<And>e tick. expiry_tick (lookup_slot_ref cs i) = Some e \<Longrightarrow> tick \<in> set ticks \<Longrightarrow> tick < e"
    and "length ticks = unat n"
  shows "\<exists>cs1. validate_run cs t i ticks = Some (replicate (unat n) (Ok ()), cs1, t) \<and>
    (\<forall>j. lookup_slot_ref cs1 j =
       (if j = i then (lookup_slot_ref cs i)\<lparr> use_count_remaining := Some 0 \<rparr> else lookup_slot_ref cs j)) \<and>
    (case validate_capability cs1 t i last_tick of
       None \<Rightarrow> \<not> forest t
     | Some (r, cs', t') \<Rightarrow> r = Err CapabilityExpired \<and> lookup_slot_ref cs' i = null_slot)"
  using assms
proof (induction ticks arbitrary: cs n)
  case Nil
  then have n: "n = 0" by (simp add: unat_eq_0)
  then have x: "temporally_exhausted (lookup_slot_ref cs i) last_tick" using Nil(2) by (simp add: temporally_exhausted_def)
  have "lookup_slot_ref cs i = (lookup_slot_ref cs i)\<lparr> use_count_remaining := Some 0 \<rparr>" using Nil(2) n by simp
  then show ?case using n validate_exhausted [OF Nil(1) x, of t] by (intro exI [of _ cs]) simp
next
  case (Cons tick ticks)
  let ?s = "lookup_slot_ref cs i"
  let ?cs = "write_slot cs i (?s\<lparr> use_count_remaining := Some (n - 1) \<rparr>)"
  have "n \<noteq> 0" using Cons.prems(4) by auto
  then have n: "n \<noteq> 0" "unat n = Suc (unat (n - 1))"
    by (simp_all add: unat_minus_one unat_gt_0)
  have step: "validate_capability cs t i tick = Some (Ok (), ?cs, t)"
    by (rule validate_within_limits [OF Cons.prems(1,2) n(1)]) (use Cons.prems(3) in simp)
  obtain cs1 where cs1: "validate_run ?cs t i ticks = Some (replicate (unat (n - 1)) (Ok ()), cs1, t)"
    "\<forall>j. lookup_slot_ref cs1 j =
       (if j = i then (lookup_slot_ref ?cs i)\<lparr> use_count_remaining := Some 0 \<rparr> else lookup_slot_ref ?cs j)"
    "case validate_capability cs1 t i last_tick of None \<Rightarrow> \<not> forest t
     | Some (r, cs', t') \<Rightarrow> r = Err CapabilityExpired \<and> lookup_slot_ref cs' i = null_slot"
    using Cons.IH [of ?cs "n - 1"] Cons.prems n by (auto simp: is_valid_def)
  show ?case using step n cs1 by (intro exI [of _ cs1]) simp
qed

theorem use_count_is_exact_witness:
  "\<exists>cs1 cs' t'. validate_run (write_slot new_space 7 (sample_root\<lparr> use_count_remaining := Some 2 \<rparr>)) new_tree 7 [1, 2] =
      Some (replicate (unat (2 :: u32)) (Ok ()), cs1, new_tree) \<and>
    validate_capability cs1 new_tree 7 3 = Some (Err CapabilityExpired, cs', t') \<and> lookup_slot_ref cs' 7 = null_slot"
proof -
  let ?cs = "write_slot new_space 7 (sample_root\<lparr> use_count_remaining := Some 2 \<rparr>)"
  have "\<exists>cs1. validate_run ?cs new_tree 7 [1, 2] = Some (replicate (unat (2 :: u32)) (Ok ()), cs1, new_tree) \<and>
    (\<forall>j. lookup_slot_ref cs1 j =
       (if j = 7 then (lookup_slot_ref ?cs 7)\<lparr> use_count_remaining := Some 0 \<rparr> else lookup_slot_ref ?cs j)) \<and>
    (case validate_capability cs1 new_tree 7 3 of
       None \<Rightarrow> \<not> forest new_tree
     | Some (r, cs', t') \<Rightarrow> r = Err CapabilityExpired \<and> lookup_slot_ref cs' 7 = null_slot)"
    by (rule use_count_is_exact) (simp_all add: sample_root_def is_valid_def null_slot_def)
  then show ?thesis using forest_new_tree by (auto split: option.splits prod.splits)
qed

section \<open>Limits of revocation\<close>

text \<open>Slots 1 and 2 derived from slot 0.\<close>

definition two_children :: cap_state where
  "two_children = snd (case derive_capability sample_space new_tree 0 1 1 of
     (_, cs, t) \<Rightarrow> derive_capability cs t 0 2 1)"

lemmas revoke_eval =
  revoke_capability_def check_target_slot_is_valid_def walk_and_zero_descendants_def
  push_children_onto_stack_def push_children_loop.simps walk_loop.simps process_one_descendant_def
  push_onto_stack_def MAXIMUM_CAPABILITY_SLOTS_PER_PROCESS_def zero_single_slot_def
  zero_capability_slot_via_reference_def mark_slot_as_revoking_def

lemma two_children_eq:
  "two_children =
     (write_slot (write_slot sample_space 1 (derived_slot sample_space 0 1 1)) 2
        (derived_slot (write_slot sample_space 1 (derived_slot sample_space 0 1 1)) 0 2 1),
      record_derivation (record_derivation new_tree 0 1) 0 2)"
proof -
  have "derivable (write_slot sample_space 1 (derived_slot sample_space 0 1 1)) 0 2 1"
    by (simp add: derivable_def) (simp add: sample_root_def rights_contains_def)
  then show ?thesis by (simp add: two_children_def derive_capability_ok [OF sample_derivable]
    derive_capability_ok)
qed

text \<open>
  C5. Revoking a child does not unlink it from its parent's sibling chain. Whenever the newest child of a capability
  has no children of its own, revoking that child and then the parent clears these two slots only: the second
  revocation reports two cleared slots, and every other slot, those of the parent's other descendants included,
  keeps its capability, because the chain that starts at the cleared record leads nowhere.
\<close>

theorem revoking_a_child_orphans_its_siblings:
  assumes "is_valid (lookup_slot_ref cs p)" "is_valid (lookup_slot_ref cs c)" "p \<noteq> c"
    and "first_child_of t p = Some c" "first_child_of t c = None"
  shows "\<exists>cs1 t1 cs2 t2.
     revoke_capability cs t c = Some (Ok 1, cs1, t1) \<and> revoke_capability cs1 t1 p = Some (Ok 2, cs2, t2) \<and>
     (\<forall>j. lookup_slot_ref cs2 j = (if j = p \<or> j = c then null_slot else lookup_slot_ref cs j))"
  using assms by (simp add: revoke_eval is_valid_def)

theorem revoking_a_child_orphans_its_siblings_witness:
  "\<exists>cs1 t1 cs2 t2.
     revoke_capability (fst two_children) (snd two_children) 2 = Some (Ok 1, cs1, t1) \<and>
     revoke_capability cs1 t1 0 = Some (Ok 2, cs2, t2) \<and>
     1 \<in> descendants (snd two_children) 0 \<and> is_valid (lookup_slot_ref cs2 1)"
proof -
  have d: "1 \<in> descendants (snd two_children) 0"
    by (auto simp: two_children_eq descendants_def child_rel_def record_derivation_links)
  have "\<exists>cs1 t1 cs2 t2.
     revoke_capability (fst two_children) (snd two_children) 2 = Some (Ok 1, cs1, t1) \<and>
     revoke_capability cs1 t1 0 = Some (Ok 2, cs2, t2) \<and>
     (\<forall>j. lookup_slot_ref cs2 j = (if j = 0 \<or> j = 2 then null_slot else lookup_slot_ref (fst two_children) j))"
    by (rule revoking_a_child_orphans_its_siblings)
      (use sample_root_valid(1) in \<open>simp_all add: two_children_eq record_derivation_links is_valid_def derived_slot_def\<close>)
  moreover have "is_valid (lookup_slot_ref (fst two_children) 1)"
    by (simp add: two_children_eq is_valid_def derived_slot_def)
  ultimately show ?thesis using d by fastforce
qed

lemma push_children_loop_self_cycle:
  assumes "next_sibling_of t c = Some c"
  shows "push_children_loop t (Some c) stack = None"
proof (rule ccontr)
  assume "push_children_loop t (Some c) stack \<noteq> None"
  then obtain r where r: "push_children_loop t (Some c) stack = Some r" by blast
  have "\<not> (next_sibling_of t c = Some c \<and> Some c = Some c)"
    by (rule push_children_loop.raw_induct
        [where P = "\<lambda>t n stack r. \<not> (next_sibling_of t c = Some c \<and> n = Some c)", OF _ r])
      (auto split: option.splits)
  with assms show False by simp
qed

text \<open>Slot 1 derived from slot 0, revoked, and derived again.\<close>

definition rederived :: "cap_state option" where
  "rederived = (case derive_capability sample_space new_tree 0 1 1 of
     (_, cs, t) \<Rightarrow> map_option (\<lambda>(_, cs', t'). snd (derive_capability cs' t' 0 1 1))
       (revoke_capability cs t 1))"

text \<open>
  C6. Revoking the only child 1 of slot 0 and deriving slot 1 again makes record 1 its own next
  sibling, because slot 0 still names 1 as its first child. Revoking slot 0 then never returns: the
  loop over the sibling chain does not end.
\<close>

theorem revocation_after_rederivation_diverges:
  "\<exists>cs t. rederived = Some (cs, t) \<and> is_valid (lookup_slot_ref cs 0) \<and> revoke_capability cs t 0 = None"
proof -
  let ?cs = "write_slot sample_space 1 (derived_slot sample_space 0 1 1)"
  let ?t = "record_derivation new_tree 0 1"
  obtain cs1 where rev: "revoke_capability ?cs ?t 1 = Some (Ok 1, cs1, remove_record ?t 1)"
    and cs1: "lookup_slot_ref cs1 0 = sample_root" "lookup_slot_ref cs1 1 = null_slot"
    by (simp add: revoke_eval record_derivation_links is_valid_def derived_slot_def)
  have d: "derivable cs1 0 1 1"
    using cs1 by (simp add: derivable_def) (simp add: sample_root_def rights_contains_def)
  let ?cs2 = "write_slot cs1 1 (derived_slot cs1 0 1 1)"
  let ?t2 = "record_derivation (remove_record ?t 1) 0 1"
  have "rederived = Some (?cs2, ?t2)"
    by (simp add: rederived_def derive_capability_ok [OF sample_derivable] rev derive_capability_ok [OF d])
  moreover have "is_valid (lookup_slot_ref ?cs2 0)" by (simp add: cs1)
  moreover have "first_child_of ?t2 0 = Some 1" "next_sibling_of ?t2 1 = Some 1"
    by (simp_all add: record_derivation_links)
  then have "revoke_capability ?cs2 ?t2 0 = None"
    by (simp add: revoke_capability_def check_target_slot_is_valid_def cs1 walk_and_zero_descendants_def
        push_children_onto_stack_def push_children_loop_self_cycle)
  ultimately show ?thesis by blast
qed

text \<open>
  Derivation writes neither temporal field of the child slot: a capability derived into an empty
  slot has no use count and no expiry, whatever limits its parent has.
\<close>

lemma derivation_drops_temporal_limits:
  assumes "derivable cs p c r" and "lookup_slot_ref cs c = null_slot"
  shows "let child = lookup_slot_ref (fst (snd (derive_capability cs t p c r))) c
    in is_valid child \<and> use_count_remaining child = None \<and> expiry_tick child = None"
  using assms by (simp add: derive_capability_ok derived_slot_def null_slot_def is_valid_def)

end
