(* ===== verification/Audit_Log.thy ===== *)
theory Audit_Log
  imports Capability_Space
begin

text \<open>
  The audit ring buffer (\<open>audit_event_type.rs\<close>, \<open>audit_log.rs\<close>, \<open>audit_log_protection.rs\<close>) and the
  capability check of the audit-read system call (\<open>syscall/audit_read.rs\<close>). The abstract view is the
  list of every event appended since boot; \<open>ring_of\<close> says what the 4096-entry ring keeps of it.
\<close>

section \<open>The ring buffer\<close>

datatype AuditEventType =
    CapabilityDerivedEvent
  | CapabilityRevokedEvent
  | CapabilityExpiredEvent
  | CapabilitySlotDeleted
  | BootSequenceEvent
  | MemoryAllocationEvent
  | PageFaultEvent

record AuditLogEntry =
  sequence_number :: u64
  timestamp :: u64
  event_type :: AuditEventType
  capability_slot_index :: u8
  entry_padding :: "u8 list"

definition empty_entry :: AuditLogEntry where
  "empty_entry = \<lparr> sequence_number = 0, timestamp = 0, event_type = BootSequenceEvent,
     capability_slot_index = 0, entry_padding = replicate 6 0 \<rparr>"

definition AUDIT_LOG_CAPACITY :: usize where
  "AUDIT_LOG_CAPACITY = 4096"

record AuditRingBuffer =
  entries :: "AuditLogEntry list"
  write_head :: usize
  sequence_counter :: u64
  write_protected_flag :: bool

definition new_ring :: AuditRingBuffer where
  "new_ring = \<lparr> entries = replicate AUDIT_LOG_CAPACITY empty_entry, write_head = 0,
     sequence_counter = 0, write_protected_flag = False \<rparr>"

definition create_audit_log_entry ::
  "AuditRingBuffer \<Rightarrow> AuditEventType \<Rightarrow> u8 \<Rightarrow> u64 \<Rightarrow> AuditLogEntry" where
  "create_audit_log_entry b ev slot ts =
     \<lparr> sequence_number = sequence_counter b, timestamp = ts, event_type = ev,
       capability_slot_index = slot, entry_padding = replicate 6 0 \<rparr>"

definition write_entry_at_head :: "AuditRingBuffer \<Rightarrow> AuditLogEntry \<Rightarrow> AuditRingBuffer" where
  "write_entry_at_head b entry =
     (let was_protected = write_protected_flag b;
          b1 = b\<lparr> write_protected_flag := False \<rparr>;
          b2 = b1\<lparr> entries := (entries b1)[write_head b1 := entry] \<rparr>
      in b2\<lparr> write_protected_flag := was_protected \<rparr>)"

definition advance_write_head :: "AuditRingBuffer \<Rightarrow> AuditRingBuffer" where
  "advance_write_head b = b\<lparr> write_head := (write_head b + 1) mod AUDIT_LOG_CAPACITY \<rparr>"

text \<open>The counter is a \<open>u64\<close> and wraps in the release profile, which has no overflow checks.\<close>

definition increment_sequence_counter :: "AuditRingBuffer \<Rightarrow> AuditRingBuffer" where
  "increment_sequence_counter b = b\<lparr> sequence_counter := sequence_counter b + 1 \<rparr>"

definition append_entry :: "AuditRingBuffer \<Rightarrow> AuditEventType \<Rightarrow> u8 \<Rightarrow> u64 \<Rightarrow> AuditRingBuffer" where
  "append_entry b ev slot ts =
     increment_sequence_counter (advance_write_head
       (write_entry_at_head b (create_audit_log_entry b ev slot ts)))"

definition read_entry :: "AuditRingBuffer \<Rightarrow> usize \<Rightarrow> AuditLogEntry option" where
  "read_entry b index = (if index < AUDIT_LOG_CAPACITY then Some (entries b ! index) else None)"

definition read_entry_at_sequence :: "AuditRingBuffer \<Rightarrow> u64 \<Rightarrow> AuditLogEntry option" where
  "read_entry_at_sequence b target =
     (let slot_index = unat target mod AUDIT_LOG_CAPACITY;
          stored_entry = entries b ! slot_index
      in if sequence_number stored_entry = target then Some stored_entry else None)"

definition current_sequence_counter :: "AuditRingBuffer \<Rightarrow> u64" where
  "current_sequence_counter b = sequence_counter b"

definition set_write_protected :: "AuditRingBuffer \<Rightarrow> bool \<Rightarrow> AuditRingBuffer" where
  "set_write_protected b protected = b\<lparr> write_protected_flag := protected \<rparr>"

text \<open>
  The page-table half of the protection is an empty function in the sources
  (\<open>apply_hardware_write_protection_if_x86\<close>), so the three operations set the flag only.
\<close>

definition protect_audit_log_pages :: "AuditRingBuffer \<Rightarrow> AuditRingBuffer" where
  "protect_audit_log_pages b = set_write_protected b True"

definition unprotect_audit_log_page :: "AuditRingBuffer \<Rightarrow> AuditRingBuffer" where
  "unprotect_audit_log_page b = set_write_protected b False"

definition reprotect_audit_log_page :: "AuditRingBuffer \<Rightarrow> AuditRingBuffer" where
  "reprotect_audit_log_page b = set_write_protected b True"

section \<open>The audit-read capability check\<close>

datatype AuditReadError =
    InvalidCapabilityType
  | WriteRightNotGranted
  | ReadRightNotGranted
  | InvalidSequenceRange

definition build_validation_result :: "bool \<Rightarrow> bool \<Rightarrow> bool \<Rightarrow> (unit, AuditReadError) result" where
  "build_validation_result type_is_valid write_right_is_absent read_right_is_present =
     (if \<not> type_is_valid then Err InvalidCapabilityType
      else if \<not> write_right_is_absent then Err WriteRightNotGranted
      else if \<not> read_right_is_present then Err ReadRightNotGranted
      else Ok ())"

definition validate_audit_read_capability ::
  "CapabilityType \<Rightarrow> CapabilityRights \<Rightarrow> (unit, AuditReadError) result" where
  "validate_audit_read_capability ty rights =
     build_validation_result (ty = AuditRead) (\<not> rights_contains rights WRITE)
       (rights_contains rights READ)"

definition handle_audit_read_syscall :: int where
  "handle_audit_read_syscall = 0"

section \<open>The abstract log\<close>

type_synonym audit_event = "AuditEventType \<times> u8 \<times> u64"

definition entry_of :: "nat \<Rightarrow> audit_event \<Rightarrow> AuditLogEntry" where
  "entry_of k = (\<lambda>(ev, slot, ts). \<lparr> sequence_number = of_nat k, timestamp = ts, event_type = ev,
     capability_slot_index = slot, entry_padding = replicate 6 0 \<rparr>)"

text \<open>\<open>ring_of h b\<close>: after the events \<open>h\<close> the ring is \<open>b\<close>, holding the newest 4096 of them.\<close>

definition ring_of :: "audit_event list \<Rightarrow> AuditRingBuffer \<Rightarrow> bool" where
  "ring_of h b \<longleftrightarrow>
     length (entries b) = AUDIT_LOG_CAPACITY \<and> write_head b = length h mod AUDIT_LOG_CAPACITY \<and>
     sequence_counter b = of_nat (length h) \<and>
     (\<forall>k < length h. length h \<le> k + AUDIT_LOG_CAPACITY \<longrightarrow> entries b ! (k mod AUDIT_LOG_CAPACITY) = entry_of k (h ! k)) \<and>
     (\<forall>j < AUDIT_LOG_CAPACITY. length h \<le> j \<longrightarrow> entries b ! j = empty_entry)"

definition append_event :: "AuditRingBuffer \<Rightarrow> audit_event \<Rightarrow> AuditRingBuffer" where
  "append_event b = (\<lambda>(ev, slot, ts). append_entry b ev slot ts)"

lemma AUDIT_LOG_CAPACITY_pos [simp]: "0 < AUDIT_LOG_CAPACITY"
  by (simp add: AUDIT_LOG_CAPACITY_def)

lemma ring_of_new: "ring_of [] new_ring"
  by (simp add: ring_of_def new_ring_def)

lemma append_event_fields:
  "entries (append_event b x) = (entries b)[write_head b := entry_of (unat (sequence_counter b)) x]"
  "write_head (append_event b x) = (write_head b + 1) mod AUDIT_LOG_CAPACITY"
  "sequence_counter (append_event b x) = sequence_counter b + 1"
  "write_protected_flag (append_event b x) = write_protected_flag b"
  by (simp_all add: append_event_def append_entry_def increment_sequence_counter_def
      advance_write_head_def write_entry_at_head_def create_audit_log_entry_def entry_of_def Let_def
      split: prod.splits)

lemma mod_window:
  "k < n \<Longrightarrow> n < k + AUDIT_LOG_CAPACITY \<Longrightarrow> k mod AUDIT_LOG_CAPACITY \<noteq> n mod AUDIT_LOG_CAPACITY"
proof
  assume *: "k < n" "n < k + AUDIT_LOG_CAPACITY" "k mod AUDIT_LOG_CAPACITY = n mod AUDIT_LOG_CAPACITY"
  then have "(n - k) mod AUDIT_LOG_CAPACITY = 0" by (metis mod_eq_dvd_iff_nat order_less_imp_le dvd_imp_mod_0)
  moreover have "n - k < AUDIT_LOG_CAPACITY" "0 < n - k" using * by auto
  ultimately show False by simp
qed

text \<open>The newest index of the window below \<open>n\<close> that shares a ring slot with \<open>q\<close>.\<close>

lemma window_top:
  assumes "q < n"
  defines "k \<equiv> q + AUDIT_LOG_CAPACITY * ((n - 1 - q) div AUDIT_LOG_CAPACITY)"
  shows "k < n \<and> n \<le> k + AUDIT_LOG_CAPACITY"
proof -
  let ?m = "n - 1 - q"
  have "AUDIT_LOG_CAPACITY * (?m div AUDIT_LOG_CAPACITY) + ?m mod AUDIT_LOG_CAPACITY = ?m"
    by (rule mult_div_mod_eq)
  moreover have "?m mod AUDIT_LOG_CAPACITY < AUDIT_LOG_CAPACITY" by simp
  ultimately show ?thesis using assms by linarith
qed

lemma entry_of_mod: "entry_of (unat (of_nat n :: u64)) x = entry_of n x"
  by (simp add: entry_of_def split: prod.splits)

lemma ring_of_append:
  assumes r: "ring_of h b"
  shows "ring_of (h @ [x]) (append_event b x)"
proof -
  let ?n = "length h" let ?b = "append_event b x"
  have es: "entries ?b = (entries b)[?n mod AUDIT_LOG_CAPACITY := entry_of ?n x]"
    using r by (simp add: append_event_fields ring_of_def entry_of_mod)
  have len: "length (entries b) = AUDIT_LOG_CAPACITY" using r by (simp add: ring_of_def)
  have new: "entries ?b ! (k mod AUDIT_LOG_CAPACITY) = entry_of k ((h @ [x]) ! k)"
    if k: "k < Suc ?n" "Suc ?n \<le> k + AUDIT_LOG_CAPACITY" for k
  proof (cases "k = ?n")
    case True
    then show ?thesis using len by (simp add: es)
  next
    case False
    then have "k mod AUDIT_LOG_CAPACITY \<noteq> ?n mod AUDIT_LOG_CAPACITY" using k by (intro mod_window) auto
    moreover have "entries b ! (k mod AUDIT_LOG_CAPACITY) = entry_of k (h ! k)"
      using r k False by (auto simp: ring_of_def)
    ultimately show ?thesis using k False by (simp add: es nth_append)
  qed
  have old: "entries ?b ! j = empty_entry" if "j < AUDIT_LOG_CAPACITY" "Suc ?n \<le> j" for j
    using that r by (simp add: es ring_of_def)
  have "write_head ?b = Suc ?n mod AUDIT_LOG_CAPACITY"
    using r by (simp add: append_event_fields ring_of_def mod_Suc_eq)
  moreover have "sequence_counter ?b = of_nat (Suc ?n)"
    using r by (simp add: append_event_fields ring_of_def)
  moreover have "length (entries ?b) = AUDIT_LOG_CAPACITY" using len by (simp add: es)
  ultimately show ?thesis
    unfolding ring_of_def length_append list.size using new old by auto
qed

definition append_all :: "AuditRingBuffer \<Rightarrow> audit_event list \<Rightarrow> AuditRingBuffer" where
  "append_all b h = fold (\<lambda>x b. append_event b x) h b"

lemma ring_of_append_all: "ring_of h0 b \<Longrightarrow> ring_of (h0 @ h) (append_all b h)"
proof (induction h arbitrary: h0 b)
  case (Cons x h)
  then have "ring_of ((h0 @ [x]) @ h) (append_all (append_event b x) h)"
    by (intro Cons.IH ring_of_append)
  then show ?case by (simp add: append_all_def)
qed (simp add: append_all_def)

text \<open>What a ring slot holds: an event of the window or the initial entry.\<close>

lemma ring_slot_cases:
  assumes r: "ring_of h b"
  obtains (event) k where "k < length h" "length h \<le> k + AUDIT_LOG_CAPACITY"
      "k mod AUDIT_LOG_CAPACITY = q mod AUDIT_LOG_CAPACITY"
      "entries b ! (q mod AUDIT_LOG_CAPACITY) = entry_of k (h ! k)"
      "q < length h \<Longrightarrow> q \<le> k"
    | (initial) "length h \<le> q mod AUDIT_LOG_CAPACITY"
      "entries b ! (q mod AUDIT_LOG_CAPACITY) = empty_entry"
proof (cases "length h \<le> q mod AUDIT_LOG_CAPACITY")
  case True
  then show thesis using r by (intro initial) (auto simp: ring_of_def)
next
  case False
  define j where "j = q mod AUDIT_LOG_CAPACITY"
  define k where "k = j + AUDIT_LOG_CAPACITY * ((length h - 1 - j) div AUDIT_LOG_CAPACITY)"
  have k: "k < length h" "length h \<le> k + AUDIT_LOG_CAPACITY"
    using window_top [of j "length h"] False by (simp_all add: j_def k_def)
  have m: "k mod AUDIT_LOG_CAPACITY = q mod AUDIT_LOG_CAPACITY" by (simp add: k_def j_def)
  have "entries b ! (k mod AUDIT_LOG_CAPACITY) = entry_of k (h ! k)"
    using r k by (simp add: ring_of_def)
  moreover have "q \<le> k" if "q < length h"
    using mod_window [of k q] m k that by linarith
  ultimately show thesis using k m by (intro event) simp_all
qed

lemma read_ring_of:
  assumes r: "ring_of h b" and n: "length h < 2 ^ 64"
  shows "read_entry_at_sequence b q =
    (if h = [] \<and> q = 0 then Some empty_entry
     else if unat q < length h \<and> length h \<le> unat q + AUDIT_LOG_CAPACITY
       then Some (entry_of (unat q) (h ! unat q)) else None)"
  using r
proof (cases rule: ring_slot_cases [where q = "unat q"])
  case (event k)
  have "unat (of_nat k :: u64) = k" using event(1) n by (intro unat_of_nat_small) simp
  then have "(of_nat k :: u64) = q \<longleftrightarrow> k = unat q" by (metis unsigned_word_eqI)
  moreover have "k = unat q" if "unat q < length h" "length h \<le> unat q + AUDIT_LOG_CAPACITY"
    using mod_window [of "unat q" k] event that by linarith
  ultimately show ?thesis
    using event by (auto simp: read_entry_at_sequence_def Let_def entry_of_def split: prod.splits)
next
  case initial
  have "unat q mod AUDIT_LOG_CAPACITY \<le> unat q" by simp
  then have "\<not> unat q < length h" using initial by linarith
  moreover have "h = []" if "q = 0" using initial that by simp
  ultimately show ?thesis
    using initial by (auto simp: read_entry_at_sequence_def Let_def empty_entry_def)
qed

lemma append_all_protected: "write_protected_flag (append_all b h) = write_protected_flag b"
  by (induction h arbitrary: b) (simp_all add: append_all_def append_event_fields)

section \<open>Properties\<close>

text \<open>
  C7. The audit log keeps exactly the newest 4096 events. After any run of appends on a fresh log,
  looking up a sequence number returns the event appended under it when it is among the last 4096,
  and nothing when it was overwritten or not yet written. The one exception is the empty log, whose
  sequence number 0 already answers with the initial entry. The write-protection flag survives.
\<close>

theorem audit_log_keeps_newest:
  assumes "length h < 2 ^ 64"
  shows "read_entry_at_sequence (append_all (set_write_protected new_ring p) h) q =
     (if h = [] \<and> q = 0 then Some empty_entry
      else if unat q < length h \<and> length h \<le> unat q + 4096
        then Some (entry_of (unat q) (h ! unat q)) else None) \<and>
   write_protected_flag (append_all (set_write_protected new_ring p) h) = p"
proof -
  have "ring_of [] (set_write_protected new_ring p)"
    using ring_of_new by (simp add: ring_of_def set_write_protected_def)
  then have "ring_of h (append_all (set_write_protected new_ring p) h)"
    using ring_of_append_all [of "[]"] by simp
  then show ?thesis
    using read_ring_of [OF _ assms] append_all_protected
    by (simp add: AUDIT_LOG_CAPACITY_def set_write_protected_def)
qed

theorem audit_log_keeps_newest_witness:
  "read_entry_at_sequence
     (append_all (set_write_protected new_ring True)
       [(CapabilityDerivedEvent, 3, 10), (CapabilityRevokedEvent, 3, 20)]) 1 =
   Some \<lparr> sequence_number = 1, timestamp = 20, event_type = CapabilityRevokedEvent,
     capability_slot_index = 3, entry_padding = replicate 6 0 \<rparr>"
  using audit_log_keeps_newest
    [of "[(CapabilityDerivedEvent, 3, 10), (CapabilityRevokedEvent, 3, 20)]" True 1]
  by (simp add: entry_of_def)

text \<open>
  Only a read-only audit capability may read the log: the check passes exactly for a capability
  of type AuditRead that has the READ right and lacks the WRITE right.
\<close>

lemma audit_read_needs_read_only_capability:
  "validate_audit_read_capability ty rights = Ok () \<longleftrightarrow>
   ty = AuditRead \<and> bit rights 0 \<and> \<not> bit rights 1"
proof -
  have "rights_contains rights READ \<longleftrightarrow> bit rights 0"
    by (simp add: rights_contains_def READ_def and_one_eq bit_0 odd_iff_mod_2_eq_one)
  moreover have "rights_contains rights WRITE \<longleftrightarrow> bit rights 1"
    using and_exp_eq_exp_iff [of 1 rights] by (simp add: rights_contains_def WRITE_def)
  ultimately show ?thesis
    by (auto simp: validate_audit_read_capability_def build_validation_result_def)
qed

end
