(* ===== verification/Ipc_Queue.thy ===== *)
theory Ipc_Queue
  imports Kernel_Prelude
begin

text \<open>
  The bounded circular queue and the endpoints of the IPC layer (\<open>ipc/mod.rs\<close>,
  \<open>ipc/bounded_queue.rs\<close>, \<open>ipc/endpoint.rs\<close>). The locale \<open>bounded_fifo\<close> is the contract the
  blocking operations rely on: a first-in first-out list with a capacity. The circular buffer
  implements it.
\<close>

section \<open>Messages, errors and constants\<close>

definition MAXIMUM_THREADS :: usize where "MAXIMUM_THREADS = 32"
definition MAXIMUM_ENDPOINTS :: usize where "MAXIMUM_ENDPOINTS = 16"
definition MAXIMUM_THREADS_PER_ENDPOINT :: usize where "MAXIMUM_THREADS_PER_ENDPOINT = 8"
definition CAPABILITY_REPLY_DESIGNATED_SLOT :: u8 where "CAPABILITY_REPLY_DESIGNATED_SLOT = 255"
definition CAPABILITY_TRANSFER_NONE_SENTINEL :: u8 where "CAPABILITY_TRANSFER_NONE_SENTINEL = 0xFF"

datatype IpcError =
    Timeout
  | WouldDeadlock
  | EndpointRevoked
  | IpcSlotOccupied
  | GrantRightNotHeld
  | RightsExceedSender
  | ReplyCapabilityAlreadyUsed
  | ReplySlotOccupied
  | ReplyRevoked
  | InvalidTimeout
  | QueueFull

record IpcMessage =
  register_zero :: u64
  register_one :: u64
  register_two :: u64
  register_three :: u64
  badge :: u64

definition default_message :: IpcMessage where
  "default_message = \<lparr> register_zero = 0, register_one = 0, register_two = 0, register_three = 0,
     badge = 0 \<rparr>"

section \<open>The circular buffer\<close>

text \<open>The const parameter \<open>CAPACITY\<close> is the length of the storage array.\<close>

record 'a BoundedQueue =
  storage :: "'a list"
  head_index :: usize
  tail_index :: usize
  current_count :: usize

definition new_queue :: "usize \<Rightarrow> 'a \<Rightarrow> 'a BoundedQueue" where
  "new_queue capacity default_value =
     \<lparr> storage = replicate capacity default_value, head_index = 0, tail_index = 0, current_count = 0 \<rparr>"

definition queue_capacity :: "'a BoundedQueue \<Rightarrow> usize" where
  "queue_capacity q = length (storage q)"

definition queue_is_empty :: "'a BoundedQueue \<Rightarrow> bool" where
  "queue_is_empty q \<longleftrightarrow> current_count q = 0"

definition queue_is_full :: "'a BoundedQueue \<Rightarrow> bool" where
  "queue_is_full q \<longleftrightarrow> current_count q = queue_capacity q"

definition next_circular_index :: "'a BoundedQueue \<Rightarrow> usize \<Rightarrow> usize" where
  "next_circular_index q index =
     (let nxt = usize_saturating_add index 1 in if nxt \<ge> queue_capacity q then 0 else nxt)"

definition write_value_at_tail :: "'a BoundedQueue \<Rightarrow> 'a \<Rightarrow> 'a BoundedQueue" where
  "write_value_at_tail q value =
     q\<lparr> storage := (storage q)[tail_index q := value],
        tail_index := next_circular_index q (tail_index q),
        current_count := usize_saturating_add (current_count q) 1 \<rparr>"

definition read_value_from_head :: "'a BoundedQueue \<Rightarrow> 'a \<times> 'a BoundedQueue" where
  "read_value_from_head q =
     (storage q ! head_index q,
      q\<lparr> head_index := next_circular_index q (head_index q),
         current_count := current_count q - 1 \<rparr>)"

definition enqueue :: "'a BoundedQueue \<Rightarrow> 'a \<Rightarrow> (unit, IpcError) result \<times> 'a BoundedQueue" where
  "enqueue q value =
     (if queue_is_full q then (Err QueueFull, q) else (Ok (), write_value_at_tail q value))"

definition dequeue :: "'a BoundedQueue \<Rightarrow> 'a option \<times> 'a BoundedQueue" where
  "dequeue q =
     (if queue_is_empty q then (None, q)
      else (let (value, q') = read_value_from_head q in (Some value, q')))"

section \<open>Endpoints\<close>

type_synonym ThreadIdentifier = u32

record Endpoint =
  sender_queue :: "ThreadIdentifier BoundedQueue"
  receiver_queue :: "ThreadIdentifier BoundedQueue"
  endpoint_badge :: u64

definition new_endpoint :: Endpoint where
  "new_endpoint = \<lparr> sender_queue = new_queue MAXIMUM_THREADS_PER_ENDPOINT 0,
     receiver_queue = new_queue MAXIMUM_THREADS_PER_ENDPOINT 0, endpoint_badge = 0 \<rparr>"

definition has_no_waiting_sender :: "Endpoint \<Rightarrow> bool" where
  "has_no_waiting_sender ep = queue_is_empty (sender_queue ep)"

definition has_no_waiting_receiver :: "Endpoint \<Rightarrow> bool" where
  "has_no_waiting_receiver ep = queue_is_empty (receiver_queue ep)"

definition enqueue_sender :: "Endpoint \<Rightarrow> ThreadIdentifier \<Rightarrow> (unit, IpcError) result \<times> Endpoint" where
  "enqueue_sender ep t = (let (r, q) = enqueue (sender_queue ep) t in (r, ep\<lparr> sender_queue := q \<rparr>))"

definition enqueue_receiver :: "Endpoint \<Rightarrow> ThreadIdentifier \<Rightarrow> (unit, IpcError) result \<times> Endpoint" where
  "enqueue_receiver ep t = (let (r, q) = enqueue (receiver_queue ep) t in (r, ep\<lparr> receiver_queue := q \<rparr>))"

definition dequeue_sender :: "Endpoint \<Rightarrow> ThreadIdentifier option \<times> Endpoint" where
  "dequeue_sender ep = (let (v, q) = dequeue (sender_queue ep) in (v, ep\<lparr> sender_queue := q \<rparr>))"

definition dequeue_receiver :: "Endpoint \<Rightarrow> ThreadIdentifier option \<times> Endpoint" where
  "dequeue_receiver ep = (let (v, q) = dequeue (receiver_queue ep) in (v, ep\<lparr> receiver_queue := q \<rparr>))"

type_synonym EndpointPool = "Endpoint list"

definition new_endpoint_pool :: EndpointPool where
  "new_endpoint_pool = replicate MAXIMUM_ENDPOINTS new_endpoint"

text \<open>\<open>endpoints.get_mut(index)\<close>: a reference into the pool; writing through it is a list update.\<close>

definition endpoint_at :: "EndpointPool \<Rightarrow> usize \<Rightarrow> Endpoint option" where
  "endpoint_at pool index = (if index < length pool then Some (pool ! index) else None)"

section \<open>The queue contract\<close>

datatype 'a queue_op = Enq 'a | Deq

datatype 'a queue_out = Accepted | Refused | Served "'a option"

text \<open>A client's run of operations and what it observes.\<close>

fun run_ops ::
  "('q \<Rightarrow> 'a \<Rightarrow> (unit, IpcError) result \<times> 'q) \<Rightarrow> ('q \<Rightarrow> 'a option \<times> 'q) \<Rightarrow> 'q \<Rightarrow>
   'a queue_op list \<Rightarrow> 'a queue_out list \<times> 'q" where
  "run_ops enq deq q [] = ([], q)"
| "run_ops enq deq q (Enq x # ops) =
     (case enq q x of (r, q') \<Rightarrow>
       (let (outs, q'') = run_ops enq deq q' ops
        in ((if r = Ok () then Accepted else Refused) # outs, q'')))"
| "run_ops enq deq q (Deq # ops) =
     (case deq q of (v, q') \<Rightarrow>
       (let (outs, q'') = run_ops enq deq q' ops in (Served v # outs, q'')))"

text \<open>The specification the contract describes: a list with a length limit.\<close>

fun fifo_run :: "nat \<Rightarrow> 'a list \<Rightarrow> 'a queue_op list \<Rightarrow> 'a queue_out list \<times> 'a list" where
  "fifo_run n xs [] = ([], xs)"
| "fifo_run n xs (Enq x # ops) =
     (if length xs < n then (let (outs, ys) = fifo_run n (xs @ [x]) ops in (Accepted # outs, ys))
      else (let (outs, ys) = fifo_run n xs ops in (Refused # outs, ys)))"
| "fifo_run n [] (Deq # ops) = (let (outs, ys) = fifo_run n [] ops in (Served None # outs, ys))"
| "fifo_run n (x # xs) (Deq # ops) = (let (outs, ys) = fifo_run n xs ops in (Served (Some x) # outs, ys))"

locale bounded_fifo =
  fixes contents :: "'q \<Rightarrow> 'a list"
    and invar :: "'q \<Rightarrow> bool"
    and cap :: "'q \<Rightarrow> nat"
    and enq :: "'q \<Rightarrow> 'a \<Rightarrow> (unit, IpcError) result \<times> 'q"
    and deq :: "'q \<Rightarrow> 'a option \<times> 'q"
  assumes enq_full: "invar q \<Longrightarrow> length (contents q) = cap q \<Longrightarrow> enq q x = (Err QueueFull, q)"
    and enq_ok: "invar q \<Longrightarrow> length (contents q) < cap q \<Longrightarrow>
      \<exists>q'. enq q x = (Ok (), q') \<and> invar q' \<and> contents q' = contents q @ [x] \<and> cap q' = cap q"
    and deq_empty: "invar q \<Longrightarrow> contents q = [] \<Longrightarrow> deq q = (None, q)"
    and deq_ok: "invar q \<Longrightarrow> contents q = x # xs \<Longrightarrow>
      \<exists>q'. deq q = (Some x, q') \<and> invar q' \<and> contents q' = xs \<and> cap q' = cap q"
    and bounded: "invar q \<Longrightarrow> length (contents q) \<le> cap q"

begin

lemma run_ops_simulates:
  "invar q \<Longrightarrow>
   fst (run_ops enq deq q ops) = fst (fifo_run (cap q) (contents q) ops) \<and>
   invar (snd (run_ops enq deq q ops)) \<and> contents (snd (run_ops enq deq q ops)) = snd (fifo_run (cap q) (contents q) ops)"
proof (induction ops arbitrary: q)
  case (Cons op ops)
  show ?case
  proof (cases op)
    case (Enq x)
    show ?thesis
    proof (cases "length (contents q) < cap q")
      case True
      from enq_ok [OF Cons.prems this] obtain q' where
        "enq q x = (Ok (), q')" "invar q'" "contents q' = contents q @ [x]" "cap q' = cap q" by blast
      then show ?thesis using Cons.IH [of q'] True Enq by (simp add: split_beta Let_def)
    next
      case False
      then have "enq q x = (Err QueueFull, q)"
        using bounded [OF Cons.prems] by (intro enq_full Cons.prems) simp
      then show ?thesis using Cons.IH [of q] Cons.prems False Enq by (simp add: split_beta Let_def)
    qed
  next
    case Deq
    show ?thesis
    proof (cases "contents q")
      case Nil
      then show ?thesis using deq_empty [OF Cons.prems Nil] Cons Deq by (simp add: split_beta Let_def)
    next
      case (Cons x xs)
      from deq_ok [OF Cons.prems(1) Cons] obtain q' where
        "deq q = (Some x, q')" "invar q'" "contents q' = xs" "cap q' = cap q" by blast
      then show ?thesis using Cons.IH [of q'] Cons Deq by (simp add: split_beta Let_def)
    qed
  qed
qed simp

end

section \<open>The circular buffer meets the contract\<close>

definition queue_contents :: "'a BoundedQueue \<Rightarrow> 'a list" where
  "queue_contents q =
     map (\<lambda>i. storage q ! ((head_index q + i) mod queue_capacity q)) [0..<current_count q]"

definition queue_inv :: "'a BoundedQueue \<Rightarrow> bool" where
  "queue_inv q \<longleftrightarrow>
     0 < queue_capacity q \<and> queue_capacity q < usize_max \<and> head_index q < queue_capacity q \<and>
     current_count q \<le> queue_capacity q \<and>
     tail_index q = (head_index q + current_count q) mod queue_capacity q"

lemma queue_new [simp]:
  "0 < n \<Longrightarrow> n < usize_max \<Longrightarrow> queue_inv (new_queue n d)"
  "queue_contents (new_queue n d) = []"
  "queue_capacity (new_queue n d) = n"
  by (simp_all add: queue_inv_def new_queue_def queue_capacity_def queue_contents_def)

lemma length_queue_contents [simp]: "length (queue_contents q) = current_count q"
  by (simp add: queue_contents_def)

lemma queue_is_empty_iff: "queue_is_empty q \<longleftrightarrow> queue_contents q = []"
  by (simp add: queue_is_empty_def queue_contents_def)

lemma next_circular_index_mod:
  "queue_inv q \<Longrightarrow> i < queue_capacity q \<Longrightarrow> next_circular_index q i = (i + 1) mod queue_capacity q"
  by (cases "Suc i = queue_capacity q") (auto simp: next_circular_index_def queue_inv_def Let_def)

lemma mod_add_inj:
  "i < n \<Longrightarrow> k < n \<Longrightarrow> (h + i) mod n = (h + k) mod n \<Longrightarrow> i = (k::nat)"
proof -
  have le: "a = b" if "a \<le> b" "b < n" "(h + a) mod n = (h + b) mod n" for a b
  proof -
    have "n dvd (h + b) - (h + a)" using that by (subst mod_eq_dvd_iff_nat [symmetric]) auto
    then have "n dvd b - a" by simp
    then show ?thesis using that by (auto dest: dvd_imp_le)
  qed
  show "i < n \<Longrightarrow> k < n \<Longrightarrow> (h + i) mod n = (h + k) mod n \<Longrightarrow> i = k"
    using le [of i k] le [of k i] by linarith
qed

lemma enqueue_contents:
  fixes x :: 'a
  assumes "queue_inv q" "\<not> queue_is_full q"
  defines "q' \<equiv> write_value_at_tail q x"
  shows "queue_inv q' \<and> queue_contents q' = queue_contents q @ [x] \<and> queue_capacity q' = queue_capacity q"
proof -
  let ?n = "queue_capacity q" let ?c = "current_count q" let ?h = "head_index q"
  have c: "?c < ?n" using assms by (auto simp: queue_inv_def queue_is_full_def)
  have cap: "queue_capacity q' = ?n" by (simp add: q'_def write_value_at_tail_def queue_capacity_def)
  have t: "tail_index q = (?h + ?c) mod ?n" "tail_index q < ?n"
    using assms(1) by (simp_all add: queue_inv_def)
  have f: "head_index q' = ?h" "current_count q' = Suc ?c"
    "tail_index q' = (tail_index q + 1) mod ?n" "storage q' = (storage q)[tail_index q := x]"
    using assms(1) c t by (simp_all add: q'_def write_value_at_tail_def next_circular_index_mod queue_inv_def)
  have "storage q' ! ((?h + i) mod ?n) = storage q ! ((?h + i) mod ?n)" if "i < ?c" for i
  proof -
    have "(?h + i) mod ?n \<noteq> (?h + ?c) mod ?n" using mod_add_inj [of i ?n ?c ?h] that c by auto
    then show ?thesis by (simp add: f t(1))
  qed
  moreover have "storage q' ! ((?h + ?c) mod ?n) = x"
    using t by (simp add: f queue_capacity_def)
  ultimately have "queue_contents q' = queue_contents q @ [x]"
    by (simp add: queue_contents_def f cap)
  then show ?thesis using assms(1) c t cap by (simp add: queue_inv_def f mod_Suc_eq)
qed

lemma dequeue_contents:
  assumes "queue_inv q" "queue_contents q = x # xs"
  defines "q' \<equiv> snd (read_value_from_head q)"
  shows "fst (read_value_from_head q) = x \<and> queue_inv q' \<and> queue_contents q' = xs \<and>
    queue_capacity q' = queue_capacity q"
proof -
  let ?n = "queue_capacity q" let ?h = "head_index q"
  from assms(2) obtain c where c: "current_count q = Suc c"
    by (metis length_queue_contents length_Cons)
  have h: "?h < ?n" using assms(1) by (simp add: queue_inv_def)
  have f: "head_index q' = (?h + 1) mod ?n" "current_count q' = c" "tail_index q' = tail_index q"
    "storage q' = storage q" "queue_capacity q' = ?n"
    using assms(1) h c by (simp_all add: q'_def read_value_from_head_def next_circular_index_mod queue_capacity_def)
  have "queue_contents q = map (\<lambda>i. storage q ! ((?h + i) mod ?n)) (0 # [Suc 0..<Suc c])"
    by (simp add: queue_contents_def c upt_conv_Cons del: upt_Suc)
  also have "\<dots> = (storage q ! ?h) # map (\<lambda>i. storage q ! ((Suc ?h + i) mod ?n)) [0..<c]"
    using h by (simp add: map_Suc_upt [symmetric] del: upt_Suc)
  also have "map (\<lambda>i. storage q ! ((Suc ?h + i) mod ?n)) [0..<c] = queue_contents q'"
    by (simp add: queue_contents_def f mod_add_left_eq)
  finally have "storage q ! ?h = x" "queue_contents q' = xs" using assms(2) by auto
  moreover have "queue_inv q'"
    using assms(1) h c by (simp add: queue_inv_def f mod_add_left_eq)
  ultimately show ?thesis by (simp add: f read_value_from_head_def)
qed

interpretation bq: bounded_fifo queue_contents queue_inv queue_capacity enqueue dequeue
proof unfold_locales
  fix q :: "'a BoundedQueue" and x xs
  assume i: "queue_inv q"
  show "enqueue q x = (Err QueueFull, q)" if "length (queue_contents q) = queue_capacity q"
    using that by (simp add: enqueue_def queue_is_full_def)
  show "\<exists>q'. enqueue q x = (Ok (), q') \<and> queue_inv q' \<and> queue_contents q' = queue_contents q @ [x] \<and>
      queue_capacity q' = queue_capacity q" if "length (queue_contents q) < queue_capacity q"
    using that enqueue_contents [OF i] by (simp add: enqueue_def queue_is_full_def)
  show "dequeue q = (None, q)" if "queue_contents q = []"
    using that by (simp add: dequeue_def queue_is_empty_iff)
  show "\<exists>q'. dequeue q = (Some x, q') \<and> queue_inv q' \<and> queue_contents q' = xs \<and>
      queue_capacity q' = queue_capacity q" if "queue_contents q = x # xs"
    using that dequeue_contents [OF i that]
    by (auto simp: dequeue_def queue_is_empty_iff split_beta Let_def)
  show "length (queue_contents q) \<le> queue_capacity q" using i by (simp add: queue_inv_def)
qed

end
