(* ===== verification/Kernel_Thread.thy ===== *)
theory Kernel_Thread
  imports Kernel_Prelude
begin

text \<open>The thread control block (\<open>thread/mod.rs\<close>), shared by the IPC layer and the scheduler.\<close>

datatype ThreadState = Ready | Running | Blocked

record RegisterSaveArea =
  register_rax :: u64
  register_rbx :: u64
  register_rcx :: u64
  register_rdx :: u64
  register_rdi :: u64
  register_rsi :: u64
  register_r8 :: u64
  register_r9 :: u64
  register_r10 :: u64
  register_r11 :: u64
  register_r12 :: u64
  register_r13 :: u64
  register_r14 :: u64
  register_r15 :: u64
  register_rbp :: u64
  register_rsp :: u64

record Thread =
  register_save_area :: RegisterSaveArea
  timeout_deadline_tick :: u64
  thread_state :: ThreadState
  priority :: u8
  cpu_budget_ticks :: u64
  domain_slot :: u8
  user_page_table_physical_address :: u64

definition zeroed_register_save_area :: RegisterSaveArea where
  "zeroed_register_save_area = \<lparr> register_rax = 0, register_rbx = 0, register_rcx = 0,
     register_rdx = 0, register_rdi = 0, register_rsi = 0, register_r8 = 0, register_r9 = 0,
     register_r10 = 0, register_r11 = 0, register_r12 = 0, register_r13 = 0, register_r14 = 0,
     register_r15 = 0, register_rbp = 0, register_rsp = 0 \<rparr>"

definition new_thread :: Thread where
  "new_thread = \<lparr> register_save_area = zeroed_register_save_area, timeout_deadline_tick = 0,
     thread_state = Ready, priority = 0, cpu_budget_ticks = 0, domain_slot = 0,
     user_page_table_physical_address = 0 \<rparr>"

end
