(* ===== verification/Ipc_Operations.thy ===== *)
theory Ipc_Operations
  imports Ipc_Queue Kernel_Thread Capability_Space
begin

text \<open>
  The blocking IPC operations: rendezvous and capability transfer (\<open>ipc/rendezvous.rs\<close>), reply
  capabilities (\<open>ipc/cap_reply.rs\<close>), deadlines (\<open>ipc/timeout.rs\<close>), send (\<open>ipc/send.rs\<close>), receive
  (\<open>ipc/receive.rs\<close>) and notifications (\<open>ipc/notification.rs\<close>, \<open>ipc/notify_operations.rs\<close>). The
  sender's capability space is borrowed mutably by the sources but never written, so it is an
  argument only; everything the code writes is returned.
\<close>

section \<open>Rendezvous\<close>

definition stamp_badge_on_message :: "IpcMessage \<Rightarrow> u64 \<Rightarrow> IpcMessage" where
  "stamp_badge_on_message m b =
     \<lparr> register_zero = register_zero m, register_one = register_one m, register_two = register_two m,
       register_three = register_three m, badge = b \<rparr>"

definition validate_source_slot_has_grant_right :: "u8 \<Rightarrow> CapabilitySpace \<Rightarrow> (unit, IpcError) result" where
  "validate_source_slot_has_grant_right source_slot_index sender_cspace =
     (let source_slot = lookup_slot_ref sender_cspace source_slot_index in
      if is_null source_slot then Err GrantRightNotHeld
      else if rights_contains (rights_bitmask source_slot) GRANT then Ok ()
      else Err GrantRightNotHeld)"

definition validate_destination_slot_is_null :: "u8 \<Rightarrow> CapabilitySpace \<Rightarrow> (unit, IpcError) result" where
  "validate_destination_slot_is_null destination_slot_index receiver_cspace =
     (if is_null (lookup_slot_ref receiver_cspace destination_slot_index) then Ok ()
      else Err IpcSlotOccupied)"

definition copy_capability_slot :: "u8 \<Rightarrow> u8 \<Rightarrow> CapabilitySpace \<Rightarrow> CapabilitySpace \<Rightarrow> CapabilitySpace" where
  "copy_capability_slot source_slot_index destination_slot_index sender_cspace receiver_cspace =
     write_slot receiver_cspace destination_slot_index (lookup_slot_ref sender_cspace source_slot_index)"

definition transfer_capability_between_cspaces ::
  "u8 \<Rightarrow> u8 \<Rightarrow> CapabilitySpace \<Rightarrow> CapabilitySpace \<Rightarrow> (unit, IpcError) result \<times> CapabilitySpace" where
  "transfer_capability_between_cspaces src dst sender_cspace receiver_cspace =
     (case validate_source_slot_has_grant_right src sender_cspace of
        Err e \<Rightarrow> (Err e, receiver_cspace)
      | Ok _ \<Rightarrow>
        (case validate_destination_slot_is_null dst receiver_cspace of
           Err e \<Rightarrow> (Err e, receiver_cspace)
         | Ok _ \<Rightarrow> (Ok (), copy_capability_slot src dst sender_cspace receiver_cspace)))"

definition perform_rendezvous ::
  "IpcMessage \<Rightarrow> u8 \<Rightarrow> u8 \<Rightarrow> CapabilitySpace \<Rightarrow> CapabilitySpace \<Rightarrow> u64 \<Rightarrow>
   (IpcMessage, IpcError) result \<times> CapabilitySpace" where
  "perform_rendezvous sender_message src dst sender_cspace receiver_cspace ep_badge =
     (let delivered_message = stamp_badge_on_message sender_message ep_badge in
      if src = CAPABILITY_TRANSFER_NONE_SENTINEL then (Ok delivered_message, receiver_cspace)
      else
        (case transfer_capability_between_cspaces src dst sender_cspace receiver_cspace of
           (Err e, rc) \<Rightarrow> (Err e, rc)
         | (Ok _, rc) \<Rightarrow> (Ok delivered_message, rc)))"

section \<open>Reply capabilities\<close>

definition validate_reply_slot_is_empty :: "CapabilitySpace \<Rightarrow> (unit, IpcError) result" where
  "validate_reply_slot_is_empty server_cspace =
     (if is_null (lookup_slot_ref server_cspace CAPABILITY_REPLY_DESIGNATED_SLOT) then Ok ()
      else Err ReplySlotOccupied)"

definition write_cap_reply_slot :: "CapabilitySpace \<Rightarrow> u32 \<Rightarrow> CapabilitySpace" where
  "write_cap_reply_slot server_cspace caller =
     write_slot server_cspace CAPABILITY_REPLY_DESIGNATED_SLOT (new_cap_reply caller)"

definition install_cap_reply_in_server_cspace ::
  "CapabilitySpace \<Rightarrow> u32 \<Rightarrow> (unit, IpcError) result \<times> CapabilitySpace" where
  "install_cap_reply_in_server_cspace server_cspace caller =
     (case validate_reply_slot_is_empty server_cspace of
        Err e \<Rightarrow> (Err e, server_cspace)
      | Ok _ \<Rightarrow> (Ok (), write_cap_reply_slot server_cspace caller))"

definition validate_reply_slot_has_cap_reply :: "CapabilitySpace \<Rightarrow> (unit, IpcError) result" where
  "validate_reply_slot_has_cap_reply server_cspace =
     (let reply_slot = lookup_slot_ref server_cspace CAPABILITY_REPLY_DESIGNATED_SLOT in
      if is_null reply_slot then Err ReplyCapabilityAlreadyUsed
      else if capability_type reply_slot = Reply then Ok ()
      else Err ReplyCapabilityAlreadyUsed)"

definition perform_volatile_zero_of_reply_slot :: "CapabilitySpace \<Rightarrow> CapabilitySpace" where
  "perform_volatile_zero_of_reply_slot server_cspace =
     write_slot server_cspace CAPABILITY_REPLY_DESIGNATED_SLOT
       (zero_capability_slot_via_reference (lookup_slot_ref server_cspace CAPABILITY_REPLY_DESIGNATED_SLOT))"

definition consume_cap_reply_and_zero_slot ::
  "CapabilitySpace \<Rightarrow> (unit, IpcError) result \<times> CapabilitySpace" where
  "consume_cap_reply_and_zero_slot server_cspace =
     (case validate_reply_slot_has_cap_reply server_cspace of
        Err e \<Rightarrow> (Err e, server_cspace)
      | Ok _ \<Rightarrow> (Ok (), perform_volatile_zero_of_reply_slot server_cspace))"

section \<open>Deadlines\<close>

definition RESERVED_INVALID_TIMEOUT :: u64 where
  "RESERVED_INVALID_TIMEOUT = -1"

definition compute_timeout_deadline :: "u64 \<Rightarrow> u64 \<Rightarrow> (u64, IpcError) result" where
  "compute_timeout_deadline current_tick timeout_ticks =
     (if timeout_ticks = RESERVED_INVALID_TIMEOUT then Err InvalidTimeout
      else ok_or (checked_add current_tick timeout_ticks) InvalidTimeout)"

definition has_thread_timed_out :: "u64 \<Rightarrow> u64 \<Rightarrow> bool" where
  "has_thread_timed_out deadline_tick current_tick \<longleftrightarrow> current_tick \<ge> deadline_tick"

section \<open>Send\<close>

definition read_endpoint_badge :: "usize \<Rightarrow> EndpointPool \<Rightarrow> u64" where
  "read_endpoint_badge index pool =
     (case endpoint_at pool index of Some ep \<Rightarrow> endpoint_badge ep | None \<Rightarrow> 0)"

definition deliver_message_to_receiver ::
  "IpcMessage \<Rightarrow> u8 \<Rightarrow> u8 \<Rightarrow> u64 \<Rightarrow> CapabilitySpace \<Rightarrow> (unit, IpcError) result" where
  "deliver_message_to_receiver m src dst b sender_cspace =
     (case perform_rendezvous m src dst sender_cspace new_space b of
        (Err e, _) \<Rightarrow> Err e
      | (Ok _, _) \<Rightarrow> Ok ())"

definition execute_send_rendezvous ::
  "IpcMessage \<Rightarrow> u8 \<Rightarrow> u8 \<Rightarrow> usize \<Rightarrow> EndpointPool \<Rightarrow> CapabilitySpace \<Rightarrow> ThreadIdentifier \<Rightarrow>
   (unit, IpcError) result" where
  "execute_send_rendezvous m src dst index pool sender_cspace receiver_thread_index =
     deliver_message_to_receiver m src dst (read_endpoint_badge index pool) sender_cspace"

definition handle_no_receiver_present ::
  "ThreadIdentifier \<Rightarrow> u64 \<Rightarrow> u64 \<Rightarrow> Endpoint \<Rightarrow> Thread \<Rightarrow>
   (unit, IpcError) result \<times> Endpoint \<times> Thread" where
  "handle_no_receiver_present sender_thread_index timeout_ticks current_tick ep sender_thread =
     (if timeout_ticks = 0 then (Ok (), ep, sender_thread)
      else
        (case compute_timeout_deadline current_tick timeout_ticks of
           Err e \<Rightarrow> (Err e, ep, sender_thread)
         | Ok deadline_tick \<Rightarrow>
           (let th = sender_thread\<lparr> timeout_deadline_tick := deadline_tick \<rparr>;
                th = th\<lparr> thread_state := Blocked \<rparr>;
                (r, ep') = enqueue_sender ep sender_thread_index
            in (r, ep', th))))"

definition ipc_send ::
  "u32 \<Rightarrow> IpcMessage \<Rightarrow> u8 \<Rightarrow> u8 \<Rightarrow> usize \<Rightarrow> u64 \<Rightarrow> u64 \<Rightarrow> EndpointPool \<Rightarrow> Thread \<Rightarrow> CapabilitySpace \<Rightarrow>
   (unit, IpcError) result \<times> EndpointPool \<times> Thread" where
  "ipc_send sender_thread_index m src dst index timeout_ticks current_tick pool sender_thread sender_cspace =
     (case endpoint_at pool index of
        None \<Rightarrow> (Err EndpointRevoked, pool, sender_thread)
      | Some ep \<Rightarrow>
        if has_no_waiting_receiver ep then
          (let (r, ep', th') = handle_no_receiver_present sender_thread_index timeout_ticks
             current_tick ep sender_thread
           in (r, pool[index := ep'], th'))
        else
          (case dequeue_receiver ep of
             (None, ep') \<Rightarrow> (Err EndpointRevoked, pool[index := ep'], sender_thread)
           | (Some receiver_thread_index, ep') \<Rightarrow>
             (let pool' = pool[index := ep']
              in (execute_send_rendezvous m src dst index pool' sender_cspace receiver_thread_index,
                  pool', sender_thread))))"

definition is_sender_timed_out :: "Thread \<Rightarrow> u64 \<Rightarrow> bool" where
  "is_sender_timed_out sender_thread current_tick \<longleftrightarrow>
     thread_state sender_thread = Blocked \<and>
     has_thread_timed_out (timeout_deadline_tick sender_thread) current_tick"

function drain_sender_queue_until_index_removed :: "Endpoint \<Rightarrow> ThreadIdentifier \<Rightarrow> Endpoint" where
  "drain_sender_queue_until_index_removed ep target =
     (case dequeue_sender ep of
        (None, ep') \<Rightarrow> ep'
      | (Some dequeued_index, ep') \<Rightarrow>
        if dequeued_index = target then ep'
        else drain_sender_queue_until_index_removed ep' target)"
  by pat_completeness auto

termination
  by (relation "measure (\<lambda>(ep, _). current_count (sender_queue ep))")
    (auto simp: dequeue_sender_def dequeue_def queue_is_empty_def read_value_from_head_def Let_def
      split: if_splits)

definition remove_sender_from_endpoint :: "usize \<Rightarrow> EndpointPool \<Rightarrow> ThreadIdentifier \<Rightarrow> EndpointPool" where
  "remove_sender_from_endpoint index pool sender_thread_index =
     (case endpoint_at pool index of
        None \<Rightarrow> pool
      | Some ep \<Rightarrow> pool[index := drain_sender_queue_until_index_removed ep sender_thread_index])"

definition unblock_timed_out_sender ::
  "Thread \<Rightarrow> usize \<Rightarrow> EndpointPool \<Rightarrow> ThreadIdentifier \<Rightarrow> Thread \<times> EndpointPool" where
  "unblock_timed_out_sender sender_thread index pool sender_thread_index =
     (sender_thread\<lparr> thread_state := Ready, timeout_deadline_tick := 0 \<rparr>,
      remove_sender_from_endpoint index pool sender_thread_index)"

definition check_and_apply_send_timeout ::
  "Thread \<Rightarrow> usize \<Rightarrow> EndpointPool \<Rightarrow> ThreadIdentifier \<Rightarrow> u64 \<Rightarrow>
   IpcError option \<times> Thread \<times> EndpointPool" where
  "check_and_apply_send_timeout sender_thread index pool sender_thread_index current_tick =
     (if \<not> is_sender_timed_out sender_thread current_tick then (None, sender_thread, pool)
      else
        (let (th, pool') = unblock_timed_out_sender sender_thread index pool sender_thread_index
         in (Some Timeout, th, pool')))"

section \<open>Receive\<close>

definition handle_no_sender_present ::
  "ThreadIdentifier \<Rightarrow> Thread \<Rightarrow> Endpoint \<Rightarrow> (IpcMessage, IpcError) result \<times> Thread \<times> Endpoint" where
  "handle_no_sender_present receiver_thread_index receiver_thread ep =
     (let th = receiver_thread\<lparr> thread_state := Blocked \<rparr> in
      case enqueue_receiver ep receiver_thread_index of
        (Err e, ep') \<Rightarrow> (Err e, th, ep')
      | (Ok _, ep') \<Rightarrow> (Ok default_message, th, ep'))"

definition perform_rendezvous_with_optional_sender ::
  "IpcMessage option \<Rightarrow> u8 \<Rightarrow> u8 \<Rightarrow> CapabilitySpace option \<Rightarrow> CapabilitySpace \<Rightarrow> u64 \<Rightarrow>
   (IpcMessage, IpcError) result \<times> CapabilitySpace" where
  "perform_rendezvous_with_optional_sender sender_message src dst sender_cspace receiver_cspace b =
     (let m = (case sender_message of Some m \<Rightarrow> m | None \<Rightarrow> default_message) in
      case sender_cspace of
        Some cspace \<Rightarrow> perform_rendezvous m src dst cspace receiver_cspace b
      | None \<Rightarrow> perform_rendezvous m src dst new_space receiver_cspace b)"

definition execute_receive_rendezvous ::
  "u8 \<Rightarrow> usize \<Rightarrow> EndpointPool \<Rightarrow> CapabilitySpace \<Rightarrow> IpcMessage option \<Rightarrow> u8 \<Rightarrow>
   CapabilitySpace option \<Rightarrow> bool \<Rightarrow> u32 \<Rightarrow> (IpcMessage, IpcError) result \<times> CapabilitySpace" where
  "execute_receive_rendezvous dst index pool receiver_cspace sender_message src sender_cspace
     is_call_sender caller =
     (let b = read_endpoint_badge index pool in
      case perform_rendezvous_with_optional_sender sender_message src dst sender_cspace receiver_cspace b of
        (Err e, rc) \<Rightarrow> (Err e, rc)
      | (Ok delivered, rc) \<Rightarrow>
        if is_call_sender then
          (case install_cap_reply_in_server_cspace rc caller of
             (Err e, rc') \<Rightarrow> (Err e, rc')
           | (Ok _, rc') \<Rightarrow> (Ok delivered, rc'))
        else (Ok delivered, rc))"

definition ipc_receive ::
  "u32 \<Rightarrow> u8 \<Rightarrow> usize \<Rightarrow> EndpointPool \<Rightarrow> Thread \<Rightarrow> CapabilitySpace \<Rightarrow> IpcMessage option \<Rightarrow> u8 \<Rightarrow>
   CapabilitySpace option \<Rightarrow> bool \<Rightarrow> u32 \<Rightarrow>
   (IpcMessage, IpcError) result \<times> EndpointPool \<times> Thread \<times> CapabilitySpace" where
  "ipc_receive receiver_thread_index dst index pool receiver_thread receiver_cspace sender_message src
     sender_cspace is_call_sender caller =
     (case endpoint_at pool index of
        None \<Rightarrow> (Err EndpointRevoked, pool, receiver_thread, receiver_cspace)
      | Some ep \<Rightarrow>
        if has_no_waiting_sender ep then
          (let (r, th, ep') = handle_no_sender_present receiver_thread_index receiver_thread ep
           in (r, pool[index := ep'], th, receiver_cspace))
        else
          (case dequeue_sender ep of
             (None, ep') \<Rightarrow> (Err EndpointRevoked, pool[index := ep'], receiver_thread, receiver_cspace)
           | (Some _, ep') \<Rightarrow>
             (let pool' = pool[index := ep'];
                  (r, rc) = execute_receive_rendezvous dst index pool' receiver_cspace sender_message
                    src sender_cspace is_call_sender caller
              in (r, pool', receiver_thread, rc))))"

section \<open>Notifications\<close>

text \<open>
  The signal word is atomic; each operation is one atomic read-modify-write, so a run of operations
  by several threads is some sequence of these steps.
\<close>

record Notification =
  signal_word :: u64

definition new_notification :: Notification where
  "new_notification = \<lparr> signal_word = 0 \<rparr>"

definition signal :: "Notification \<Rightarrow> u64 \<Rightarrow> Notification" where
  "signal n signal_mask = n\<lparr> signal_word := signal_word n OR signal_mask \<rparr>"

definition poll_and_clear :: "Notification \<Rightarrow> u64 \<times> Notification" where
  "poll_and_clear n = (signal_word n, n\<lparr> signal_word := 0 \<rparr>)"

definition has_pending_signals :: "Notification \<Rightarrow> bool" where
  "has_pending_signals n \<longleftrightarrow> signal_word n \<noteq> 0"

type_synonym NotificationPool = "Notification list"

definition new_notification_pool :: NotificationPool where
  "new_notification_pool = replicate MAXIMUM_ENDPOINTS new_notification"

definition notification_at :: "NotificationPool \<Rightarrow> usize \<Rightarrow> Notification option" where
  "notification_at pool index = (if index < length pool then Some (pool ! index) else None)"

definition notify_signal :: "Notification \<Rightarrow> u64 \<Rightarrow> Notification" where
  "notify_signal n signal_mask = signal n signal_mask"

definition notify_poll :: "Notification \<Rightarrow> u64 \<times> Notification" where
  "notify_poll n = poll_and_clear n"

definition set_thread_to_blocked_with_deadline :: "Thread \<Rightarrow> u64 \<Rightarrow> Thread" where
  "set_thread_to_blocked_with_deadline th deadline_tick =
     th\<lparr> timeout_deadline_tick := deadline_tick, thread_state := Blocked \<rparr>"

definition check_if_immediately_timed_out :: "Thread \<Rightarrow> u64 \<Rightarrow> (u64, IpcError) result \<times> Thread" where
  "check_if_immediately_timed_out th current_tick =
     (if has_thread_timed_out (timeout_deadline_tick th) current_tick
      then (Err Timeout, th\<lparr> thread_state := Ready \<rparr>) else (Err Timeout, th))"

definition block_thread_for_notification_wait ::
  "Thread \<Rightarrow> u64 \<Rightarrow> u64 \<Rightarrow> (u64, IpcError) result \<times> Thread" where
  "block_thread_for_notification_wait th timeout_ticks current_tick =
     (case compute_timeout_deadline current_tick timeout_ticks of
        Err e \<Rightarrow> (Err e, th)
      | Ok deadline \<Rightarrow>
        check_if_immediately_timed_out (set_thread_to_blocked_with_deadline th deadline) current_tick)"

definition notify_wait ::
  "Notification \<Rightarrow> Thread \<Rightarrow> u64 \<Rightarrow> u64 \<Rightarrow> (u64, IpcError) result \<times> Notification \<times> Thread" where
  "notify_wait n th timeout_ticks current_tick =
     (if has_pending_signals n then (let (w, n') = poll_and_clear n in (Ok w, n', th))
      else (let (r, th') = block_thread_for_notification_wait th timeout_ticks current_tick in (r, n, th')))"

end
