(* ===== verification/Ipc_Call.thy ===== *)
theory Ipc_Call
  imports Ipc_Operations
begin

text \<open>
  The wait-for graph (\<open>ipc/wait_for_graph.rs\<close>) and the call operation (\<open>ipc/call.rs\<close>). The search
  loop of the deadlock check has no syntactic bound, so it is a partial function; that it always
  returns is part of \<open>check_would_form_cycle_eq\<close>.
\<close>

section \<open>The wait-for graph\<close>

definition NO_WAIT_TARGET :: u32 where
  "NO_WAIT_TARGET = -1"

record WaitForGraph =
  waiting_on_endpoint :: "u32 list"

definition new_wait_for_graph :: WaitForGraph where
  "new_wait_for_graph = \<lparr> waiting_on_endpoint = replicate MAXIMUM_THREADS NO_WAIT_TARGET \<rparr>"

definition record_wait_edge :: "WaitForGraph \<Rightarrow> u32 \<Rightarrow> u32 \<Rightarrow> WaitForGraph" where
  "record_wait_edge g thread_index endpoint_index =
     (let slot_index = unat thread_index in
      if slot_index < MAXIMUM_THREADS
      then g\<lparr> waiting_on_endpoint := (waiting_on_endpoint g)[slot_index := endpoint_index] \<rparr>
      else g)"

definition remove_wait_edge :: "WaitForGraph \<Rightarrow> u32 \<Rightarrow> WaitForGraph" where
  "remove_wait_edge g thread_index =
     (let slot_index = unat thread_index in
      if slot_index < MAXIMUM_THREADS
      then g\<lparr> waiting_on_endpoint := (waiting_on_endpoint g)[slot_index := NO_WAIT_TARGET] \<rparr>
      else g)"

definition find_thread_waiting_on_endpoint :: "WaitForGraph \<Rightarrow> u32 \<Rightarrow> u32 option" where
  "find_thread_waiting_on_endpoint g endpoint_index =
     map_option of_nat (position (\<lambda>e. e = endpoint_index) (waiting_on_endpoint g))"

definition check_for_cycle_or_visited :: "u32 \<Rightarrow> u32 \<Rightarrow> bool list \<Rightarrow> bool option \<times> bool list" where
  "check_for_cycle_or_visited thread_index start_thread visited =
     (if thread_index = start_thread then (Some True, visited)
      else if visited ! unat thread_index then (Some False, visited)
      else (None, visited[unat thread_index := True]))"

definition advance_endpoint_to_next :: "u32 \<Rightarrow> u32 \<Rightarrow> u32 list \<Rightarrow> bool option \<times> u32" where
  "advance_endpoint_to_next thread_index current_endpoint waiting =
     (let next_endpoint = waiting ! unat thread_index in
      if next_endpoint = NO_WAIT_TARGET then (Some False, current_endpoint) else (None, next_endpoint))"

definition advance_search_step ::
  "WaitForGraph \<Rightarrow> u32 option \<Rightarrow> u32 \<Rightarrow> u32 \<Rightarrow> bool list \<Rightarrow> bool option \<times> u32 \<times> bool list" where
  "advance_search_step g waiter start_thread current_endpoint visited =
     (case waiter of
        None \<Rightarrow> (Some False, current_endpoint, visited)
      | Some thread_index \<Rightarrow>
        (case check_for_cycle_or_visited thread_index start_thread visited of
           (Some found, visited') \<Rightarrow> (Some found, current_endpoint, visited')
         | (None, visited') \<Rightarrow>
           (let (found, next_endpoint) =
              advance_endpoint_to_next thread_index current_endpoint (waiting_on_endpoint g)
            in (found, next_endpoint, visited'))))"

definition execute_one_dfs_step ::
  "WaitForGraph \<Rightarrow> u32 \<Rightarrow> u32 \<Rightarrow> bool list \<Rightarrow> bool option \<times> u32 \<times> bool list" where
  "execute_one_dfs_step g start_thread current_endpoint visited =
     advance_search_step g (find_thread_waiting_on_endpoint g current_endpoint) start_thread
       current_endpoint visited"

partial_function (option) run_iterative_depth_first_search ::
  "WaitForGraph \<Rightarrow> u32 \<Rightarrow> u32 \<Rightarrow> bool list \<Rightarrow> bool option" where
  "run_iterative_depth_first_search g start_thread current_endpoint visited =
     (case execute_one_dfs_step g start_thread current_endpoint visited of
        (Some cycle_found, _, _) \<Rightarrow> Some cycle_found
      | (None, next_endpoint, visited') \<Rightarrow>
        run_iterative_depth_first_search g start_thread next_endpoint visited')"

definition check_would_form_cycle :: "WaitForGraph \<Rightarrow> u32 \<Rightarrow> u32 \<Rightarrow> bool option" where
  "check_would_form_cycle g calling_thread_index target_endpoint_index =
     run_iterative_depth_first_search g calling_thread_index target_endpoint_index
       (replicate MAXIMUM_THREADS False)"

section \<open>Call\<close>

text \<open>\<open>None\<close> stands for a deadlock check that never returns.\<close>

definition check_for_deadlock_before_blocking ::
  "u32 \<Rightarrow> usize \<Rightarrow> WaitForGraph \<Rightarrow> (unit, IpcError) result option" where
  "check_for_deadlock_before_blocking caller index g =
     (case check_would_form_cycle g caller (of_nat index) of
        None \<Rightarrow> None
      | Some would_form_cycle \<Rightarrow> Some (if would_form_cycle then Err WouldDeadlock else Ok ()))"

definition ipc_call ::
  "u32 \<Rightarrow> IpcMessage \<Rightarrow> u8 \<Rightarrow> u8 \<Rightarrow> usize \<Rightarrow> u64 \<Rightarrow> u64 \<Rightarrow> EndpointPool \<Rightarrow> Thread \<Rightarrow> CapabilitySpace \<Rightarrow>
   WaitForGraph \<Rightarrow> ((unit, IpcError) result \<times> EndpointPool \<times> Thread \<times> WaitForGraph) option" where
  "ipc_call caller m src dst index timeout_ticks current_tick pool caller_thread caller_cspace g =
     (case check_for_deadlock_before_blocking caller index g of
        None \<Rightarrow> None
      | Some (Err e) \<Rightarrow> Some (Err e, pool, caller_thread, g)
      | Some (Ok _) \<Rightarrow>
        (let g1 = record_wait_edge g caller (of_nat index);
             (send_result, pool', th') = ipc_send caller m src dst index timeout_ticks current_tick pool
               caller_thread caller_cspace;
             g2 = remove_wait_edge g1 caller
         in Some (send_result, pool', th', g2)))"

section \<open>What the deadlock check computes\<close>

definition graph_wf :: "WaitForGraph \<Rightarrow> bool" where
  "graph_wf g \<longleftrightarrow> length (waiting_on_endpoint g) = MAXIMUM_THREADS"

lemma graph_wf_ops [simp]:
  "graph_wf new_wait_for_graph"
  "graph_wf (record_wait_edge g t e) = graph_wf g"
  "graph_wf (remove_wait_edge g t) = graph_wf g"
  by (simp_all add: graph_wf_def new_wait_for_graph_def record_wait_edge_def remove_wait_edge_def Let_def)

lemma find_thread_SomeD:
  assumes "graph_wf g" "find_thread_waiting_on_endpoint g e = Some t"
  shows "unat t < MAXIMUM_THREADS \<and> waiting_on_endpoint g ! unat t = e"
proof -
  from assms obtain i where i: "position (\<lambda>x. x = e) (waiting_on_endpoint g) = Some i" "t = of_nat i"
    by (auto simp: find_thread_waiting_on_endpoint_def)
  then have "i < MAXIMUM_THREADS" "waiting_on_endpoint g ! i = e"
    using assms(1) by (auto simp: graph_wf_def dest: position_Some)
  moreover from this have "unat t = i"
    by (simp add: i(2) MAXIMUM_THREADS_def unat_of_nat_small)
  ultimately show ?thesis by simp
qed

lemma dfs_second_step:
  assumes "graph_wf g" "find_thread_waiting_on_endpoint g e = Some t" "t \<noteq> start" "visited ! unat t"
  shows "run_iterative_depth_first_search g start e visited = Some False"
  using assms
  by (subst run_iterative_depth_first_search.simps)
    (simp add: execute_one_dfs_step_def advance_search_step_def check_for_cycle_or_visited_def)

text \<open>
  The search stops after at most two steps: a waiter that is not the caller leads back to the same
  endpoint, hence to the same, now visited, waiter.
\<close>

lemma check_would_form_cycle_eq:
  assumes "graph_wf g"
  shows "check_would_form_cycle g caller e = Some (find_thread_waiting_on_endpoint g e = Some caller)"
proof (cases "find_thread_waiting_on_endpoint g e")
  case None
  then show ?thesis
    by (simp add: check_would_form_cycle_def run_iterative_depth_first_search.simps
        execute_one_dfs_step_def advance_search_step_def)
next
  case (Some t)
  note t = find_thread_SomeD [OF assms Some]
  show ?thesis
  proof (cases "t = caller")
    case True
    then show ?thesis
      using Some by (simp add: check_would_form_cycle_def run_iterative_depth_first_search.simps
          execute_one_dfs_step_def advance_search_step_def check_for_cycle_or_visited_def)
  next
    case False
    let ?v = "(replicate MAXIMUM_THREADS False)[unat t := True]"
    have "run_iterative_depth_first_search g caller e ?v = Some False"
      using t by (intro dfs_second_step [OF assms Some False]) simp
    moreover have "check_for_cycle_or_visited t caller (replicate MAXIMUM_THREADS False) = (None, ?v)"
      using False t by (simp add: check_for_cycle_or_visited_def)
    ultimately show ?thesis
      using Some False t
      by (simp add: check_would_form_cycle_def run_iterative_depth_first_search.simps [of g caller e "replicate MAXIMUM_THREADS False"]
          execute_one_dfs_step_def advance_search_step_def advance_endpoint_to_next_def Let_def)
  qed
qed

text \<open>Calls leave no edge behind, so a graph without edges stays without edges.\<close>

definition no_edges :: "WaitForGraph \<Rightarrow> bool" where
  "no_edges g \<longleftrightarrow> waiting_on_endpoint g = replicate MAXIMUM_THREADS NO_WAIT_TARGET"

lemma no_edges_wf: "no_edges g \<Longrightarrow> graph_wf g"
  by (simp add: no_edges_def graph_wf_def)

lemma no_edges_new: "no_edges new_wait_for_graph"
  by (simp add: no_edges_def new_wait_for_graph_def)

lemma replicate_update_same: "(replicate n x)[i := x] = replicate n x"
  by (metis list_update_beyond list_update_id nth_replicate length_replicate not_le)

lemma remove_record_no_edges:
  "no_edges g \<Longrightarrow> no_edges (remove_wait_edge (record_wait_edge g t e) t)"
  by (auto simp: no_edges_def remove_wait_edge_def record_wait_edge_def Let_def replicate_update_same)

lemma no_edges_find:
  "no_edges g \<Longrightarrow> e \<noteq> NO_WAIT_TARGET \<Longrightarrow> find_thread_waiting_on_endpoint g e = None"
  by (auto simp: no_edges_def find_thread_waiting_on_endpoint_def position_None)

lemma endpoint_index_is_target: "i < MAXIMUM_ENDPOINTS \<Longrightarrow> (of_nat i :: u32) \<noteq> NO_WAIT_TARGET"
proof
  assume "i < MAXIMUM_ENDPOINTS" "(of_nat i :: u32) = NO_WAIT_TARGET"
  then have "unat (of_nat i :: u32) = unat NO_WAIT_TARGET" "i < 16" by (simp_all add: MAXIMUM_ENDPOINTS_def)
  then show False
    by (simp add: unat_of_nat_small NO_WAIT_TARGET_def unsigned_minus_1_eq_mask mask_eq_exp_minus_1)
qed

lemma ipc_call_no_edges:
  assumes "no_edges g" "index < MAXIMUM_ENDPOINTS"
  shows "\<exists>g'. no_edges g' \<and> ipc_call caller m src dst index tm tick pool th cs g =
    (let (r, pool', th') = ipc_send caller m src dst index tm tick pool th cs in Some (r, pool', th', g'))"
  using check_would_form_cycle_eq [OF no_edges_wf [OF assms(1)], of caller "of_nat index"]
    no_edges_find [OF assms(1) endpoint_index_is_target [OF assms(2)]]
    remove_record_no_edges [OF assms(1), of caller "of_nat index"]
  by (auto simp: ipc_call_def check_for_deadlock_before_blocking_def Let_def split: prod.splits)

text \<open>On any graph of the right size a call returns.\<close>

lemma ipc_call_returns:
  "graph_wf g \<Longrightarrow> \<exists>r pool' th' g'.
     ipc_call caller m src dst index tm tick pool th cs g = Some (r, pool', th', g') \<and> graph_wf g'"
  by (simp add: ipc_call_def check_for_deadlock_before_blocking_def check_would_form_cycle_eq Let_def
      split: prod.splits)

end
