(* ===== verification/Ipc_Claims.thy ===== *)
theory Ipc_Claims
  imports Ipc_Call
begin

text \<open>
  The invariant of the endpoint pool, its preservation by every IPC operation, and the properties of
  the IPC layer. The queues are seen through \<open>senders\<close> and \<open>receivers\<close>, the lists of waiting threads.
\<close>

section \<open>The endpoint invariant\<close>

definition senders :: "Endpoint \<Rightarrow> ThreadIdentifier list" where
  "senders ep = queue_contents (sender_queue ep)"

definition receivers :: "Endpoint \<Rightarrow> ThreadIdentifier list" where
  "receivers ep = queue_contents (receiver_queue ep)"

text \<open>No endpoint ever has a sender and a receiver waiting at the same time.\<close>

definition endpoint_inv :: "Endpoint \<Rightarrow> bool" where
  "endpoint_inv ep \<longleftrightarrow>
     queue_inv (sender_queue ep) \<and> queue_capacity (sender_queue ep) = MAXIMUM_THREADS_PER_ENDPOINT \<and>
     queue_inv (receiver_queue ep) \<and> queue_capacity (receiver_queue ep) = MAXIMUM_THREADS_PER_ENDPOINT \<and>
     (senders ep = [] \<or> receivers ep = [])"

definition pool_inv :: "EndpointPool \<Rightarrow> bool" where
  "pool_inv pool \<longleftrightarrow> length pool = MAXIMUM_ENDPOINTS \<and> list_all endpoint_inv pool"

lemma endpoint_inv_new: "endpoint_inv new_endpoint"
  by (simp add: endpoint_inv_def new_endpoint_def senders_def MAXIMUM_THREADS_PER_ENDPOINT_def usize_max_def)

lemma pool_inv_new: "pool_inv new_endpoint_pool"
  by (simp add: pool_inv_def new_endpoint_pool_def list_all_iff endpoint_inv_new)

lemma pool_inv_nth: "pool_inv pool \<Longrightarrow> i < MAXIMUM_ENDPOINTS \<Longrightarrow> endpoint_inv (pool ! i)"
  by (simp add: pool_inv_def list_all_length)

lemma pool_inv_update: "pool_inv pool \<Longrightarrow> endpoint_inv ep \<Longrightarrow> pool_inv (pool[i := ep])"
  by (auto simp: pool_inv_def list_all_iff dest: set_update_subset_insert [THEN subsetD])

lemma endpoint_at_Some: "pool_inv pool \<Longrightarrow> i < MAXIMUM_ENDPOINTS \<Longrightarrow> endpoint_at pool i = Some (pool ! i)"
  by (simp add: endpoint_at_def pool_inv_def)

lemma endpoint_at_None: "pool_inv pool \<Longrightarrow> \<not> i < MAXIMUM_ENDPOINTS \<Longrightarrow> endpoint_at pool i = None"
  by (simp add: endpoint_at_def pool_inv_def)

lemma has_no_waiting_iff:
  "has_no_waiting_sender ep \<longleftrightarrow> senders ep = []"
  "has_no_waiting_receiver ep \<longleftrightarrow> receivers ep = []"
  by (simp_all add: has_no_waiting_sender_def has_no_waiting_receiver_def queue_is_empty_iff
      senders_def receivers_def)

text \<open>The queue operations seen through the contract of the circular buffer.\<close>

lemma enqueue_sender_ok:
  assumes "endpoint_inv ep" "receivers ep = []" "length (senders ep) < 8"
  obtains ep' where "enqueue_sender ep t = (Ok (), ep')" "endpoint_inv ep'"
    "senders ep' = senders ep @ [t]" "receivers ep' = []" "endpoint_badge ep' = endpoint_badge ep"
proof -
  from assms bq.enq_ok [of "sender_queue ep" t] obtain q' where q':
    "enqueue (sender_queue ep) t = (Ok (), q')" "queue_inv q'"
    "queue_contents q' = senders ep @ [t]" "queue_capacity q' = queue_capacity (sender_queue ep)"
    by (auto simp: endpoint_inv_def senders_def MAXIMUM_THREADS_PER_ENDPOINT_def)
  then show thesis
    using assms by (intro that [of "ep\<lparr> sender_queue := q' \<rparr>"])
      (auto simp: enqueue_sender_def endpoint_inv_def senders_def receivers_def)
qed

lemma enqueue_sender_full:
  "endpoint_inv ep \<Longrightarrow> length (senders ep) = 8 \<Longrightarrow> enqueue_sender ep t = (Err QueueFull, ep)"
  using bq.enq_full [of "sender_queue ep" t]
  by (simp add: endpoint_inv_def enqueue_sender_def senders_def MAXIMUM_THREADS_PER_ENDPOINT_def)

lemma enqueue_receiver_ok:
  assumes "endpoint_inv ep" "senders ep = []" "length (receivers ep) < 8"
  obtains ep' where "enqueue_receiver ep t = (Ok (), ep')" "endpoint_inv ep'"
    "receivers ep' = receivers ep @ [t]" "senders ep' = []" "endpoint_badge ep' = endpoint_badge ep"
proof -
  from assms bq.enq_ok [of "receiver_queue ep" t] obtain q' where q':
    "enqueue (receiver_queue ep) t = (Ok (), q')" "queue_inv q'"
    "queue_contents q' = receivers ep @ [t]" "queue_capacity q' = queue_capacity (receiver_queue ep)"
    by (auto simp: endpoint_inv_def receivers_def MAXIMUM_THREADS_PER_ENDPOINT_def)
  then show thesis
    using assms by (intro that [of "ep\<lparr> receiver_queue := q' \<rparr>"])
      (auto simp: enqueue_receiver_def endpoint_inv_def senders_def receivers_def)
qed

lemma enqueue_receiver_full:
  "endpoint_inv ep \<Longrightarrow> length (receivers ep) = 8 \<Longrightarrow> enqueue_receiver ep t = (Err QueueFull, ep)"
  using bq.enq_full [of "receiver_queue ep" t]
  by (simp add: endpoint_inv_def enqueue_receiver_def receivers_def MAXIMUM_THREADS_PER_ENDPOINT_def)

lemma waiting_bounded:
  assumes "endpoint_inv ep"
  shows "length (senders ep) \<le> 8" "length (receivers ep) \<le> 8"
  using assms bq.bounded [of "sender_queue ep"] bq.bounded [of "receiver_queue ep"]
  by (simp_all add: endpoint_inv_def senders_def receivers_def MAXIMUM_THREADS_PER_ENDPOINT_def)

lemma dequeue_sender_ok:
  assumes "endpoint_inv ep" "senders ep = t # ts"
  obtains ep' where "dequeue_sender ep = (Some t, ep')" "endpoint_inv ep'"
    "senders ep' = ts" "receivers ep' = receivers ep" "endpoint_badge ep' = endpoint_badge ep"
proof -
  from assms bq.deq_ok [of "sender_queue ep" t ts] obtain q' where
    "dequeue (sender_queue ep) = (Some t, q')" "queue_inv q'" "queue_contents q' = ts"
    "queue_capacity q' = queue_capacity (sender_queue ep)"
    by (auto simp: endpoint_inv_def senders_def)
  then show thesis
    using assms by (intro that [of "ep\<lparr> sender_queue := q' \<rparr>"])
      (auto simp: dequeue_sender_def endpoint_inv_def senders_def receivers_def)
qed

lemma dequeue_receiver_ok:
  assumes "endpoint_inv ep" "receivers ep = t # ts"
  obtains ep' where "dequeue_receiver ep = (Some t, ep')" "endpoint_inv ep'"
    "receivers ep' = ts" "senders ep' = senders ep" "endpoint_badge ep' = endpoint_badge ep"
proof -
  from assms bq.deq_ok [of "receiver_queue ep" t ts] obtain q' where
    "dequeue (receiver_queue ep) = (Some t, q')" "queue_inv q'" "queue_contents q' = ts"
    "queue_capacity q' = queue_capacity (receiver_queue ep)"
    by (auto simp: endpoint_inv_def receivers_def)
  then show thesis
    using assms by (intro that [of "ep\<lparr> receiver_queue := q' \<rparr>"])
      (auto simp: dequeue_receiver_def endpoint_inv_def senders_def receivers_def)
qed

lemma dequeue_sender_empty:
  "endpoint_inv ep \<Longrightarrow> senders ep = [] \<Longrightarrow> dequeue_sender ep = (None, ep)"
  using bq.deq_empty [of "sender_queue ep"] by (simp add: endpoint_inv_def dequeue_sender_def senders_def)

text \<open>Draining removes the target and every sender in front of it.\<close>

lemma drain_contents:
  fixes t :: ThreadIdentifier
  assumes "endpoint_inv ep"
  defines "ep' \<equiv> drain_sender_queue_until_index_removed ep t"
  shows "endpoint_inv ep' \<and> senders ep' = tl (dropWhile (\<lambda>s. s \<noteq> t) (senders ep)) \<and>
    receivers ep' = receivers ep \<and> endpoint_badge ep' = endpoint_badge ep"
  using assms(1) unfolding ep'_def
proof (induction "senders ep" arbitrary: ep)
  case Nil
  then show ?case
    by (simp add: drain_sender_queue_until_index_removed.simps dequeue_sender_empty)
next
  case (Cons s ss)
  from Cons.hyps(2) [symmetric] obtain ep1 where ep1:
    "dequeue_sender ep = (Some s, ep1)" "endpoint_inv ep1" "senders ep1 = ss"
    "receivers ep1 = receivers ep" "endpoint_badge ep1 = endpoint_badge ep"
    using dequeue_sender_ok [OF Cons.prems] by metis
  then show ?case
    using Cons.hyps(1) [of ep1] Cons.hyps(2) [symmetric]
    by (simp add: drain_sender_queue_until_index_removed.simps [of ep])
qed

section \<open>Send and receive on every branch\<close>

text \<open>The deadline arithmetic: no wrap, and the reserved value is refused.\<close>

definition deadline_ok :: "u64 \<Rightarrow> u64 \<Rightarrow> bool" where
  "deadline_ok tick ticks \<longleftrightarrow> ticks \<noteq> -1 \<and> unat tick + unat ticks < 2 ^ 64"

lemma compute_timeout_deadline_eq:
  "compute_timeout_deadline tick ticks =
     (if deadline_ok tick ticks then Ok (tick + ticks) else Err InvalidTimeout)"
  by (auto simp: compute_timeout_deadline_def deadline_ok_def RESERVED_INVALID_TIMEOUT_def
      checked_add_def ok_or_def)

text \<open>What a send into the throw-away receiver space checks: the sender holds GRANT.\<close>

definition grantable :: "CapabilitySpace \<Rightarrow> u8 \<Rightarrow> bool" where
  "grantable cs i \<longleftrightarrow> \<not> is_null (lookup_slot_ref cs i) \<and>
     rights_contains (rights_bitmask (lookup_slot_ref cs i)) GRANT"

lemma perform_rendezvous_eq:
  "perform_rendezvous m src dst scs rcs b =
     (if src = 255 then (Ok (m\<lparr> badge := b \<rparr>), rcs)
      else if \<not> grantable scs src then (Err GrantRightNotHeld, rcs)
      else if \<not> is_null (lookup_slot_ref rcs dst) then (Err IpcSlotOccupied, rcs)
      else (Ok (m\<lparr> badge := b \<rparr>), write_slot rcs dst (lookup_slot_ref scs src)))"
  by (simp add: perform_rendezvous_def transfer_capability_between_cspaces_def
      validate_source_slot_has_grant_right_def validate_destination_slot_is_null_def
      copy_capability_slot_def stamp_badge_on_message_def grantable_def Let_def
      CAPABILITY_TRANSFER_NONE_SENTINEL_def)

lemma deliver_message_eq:
  "deliver_message_to_receiver m src dst b scs =
     (if src = 255 \<or> grantable scs src then Ok () else Err GrantRightNotHeld)"
  by (simp add: deliver_message_to_receiver_def perform_rendezvous_eq new_space_def is_null_def
      lookup_slot_ref_def read_slot_at_index_def)

text \<open>An endpoint pool in which only endpoint \<open>i\<close> may differ, with the given waiting lists.\<close>

definition endpoint_becomes ::
  "EndpointPool \<Rightarrow> usize \<Rightarrow> ThreadIdentifier list \<Rightarrow> ThreadIdentifier list \<Rightarrow> EndpointPool \<Rightarrow> bool" where
  "endpoint_becomes pool i ss rs pool' \<longleftrightarrow>
     pool_inv pool' \<and> (\<forall>j. j \<noteq> i \<longrightarrow> pool' ! j = pool ! j) \<and>
     senders (pool' ! i) = ss \<and> receivers (pool' ! i) = rs \<and>
     endpoint_badge (pool' ! i) = endpoint_badge (pool ! i)"

lemma endpoint_becomes_update:
  "pool_inv pool \<Longrightarrow> i < MAXIMUM_ENDPOINTS \<Longrightarrow> endpoint_inv ep \<Longrightarrow> endpoint_badge ep = endpoint_badge (pool ! i) \<Longrightarrow>
   endpoint_becomes pool i (senders ep) (receivers ep) (pool[i := ep])"
  using pool_inv_update [of pool ep i] by (simp add: endpoint_becomes_def pool_inv_def)

lemma endpoint_becomes_refl:
  "pool_inv pool \<Longrightarrow> endpoint_becomes pool i (senders (pool ! i)) (receivers (pool ! i)) pool"
  by (simp add: endpoint_becomes_def)

lemma ipc_send_receiver_waiting:
  assumes p: "pool_inv pool" "i < MAXIMUM_ENDPOINTS" and r: "receivers (pool ! i) = r # rs"
  obtains pool' where
    "ipc_send t m src dst i tm tick pool th cs =
       (if src = 255 \<or> grantable cs src then Ok () else Err GrantRightNotHeld, pool', th)"
    "endpoint_becomes pool i [] rs pool'"
proof -
  from dequeue_receiver_ok [OF pool_inv_nth [OF p] r] obtain ep where ep:
    "dequeue_receiver (pool ! i) = (Some r, ep)" "endpoint_inv ep" "receivers ep = rs"
    "senders ep = senders (pool ! i)" "endpoint_badge ep = endpoint_badge (pool ! i)" .
  have "senders (pool ! i) = []" using pool_inv_nth [OF p] r by (simp add: endpoint_inv_def)
  then have "endpoint_becomes pool i [] rs (pool[i := ep])"
    using endpoint_becomes_update [OF p ep(2) ep(5)] ep by simp
  then show thesis
    using p r ep by (intro that [of "pool[i := ep]"])
      (simp_all add: ipc_send_def endpoint_at_Some has_no_waiting_iff execute_send_rendezvous_def
        deliver_message_eq Let_def)
qed

lemma ipc_send_no_receiver:
  assumes p: "pool_inv pool" "i < MAXIMUM_ENDPOINTS" and r: "receivers (pool ! i) = []"
  obtains pool' where
    "ipc_send t m src dst i tm tick pool th cs =
       (if tm = 0 then (Ok (), pool', th)
        else if \<not> deadline_ok tick tm then (Err InvalidTimeout, pool', th)
        else (if length (senders (pool ! i)) < 8 then Ok () else Err QueueFull, pool',
              th\<lparr> timeout_deadline_tick := tick + tm, thread_state := Blocked \<rparr>))"
    "endpoint_becomes pool i
       (senders (pool ! i) @
         (if tm \<noteq> 0 \<and> deadline_ok tick tm \<and> length (senders (pool ! i)) < 8 then [t] else [])) [] pool'"
proof (cases "tm \<noteq> 0 \<and> deadline_ok tick tm \<and> length (senders (pool ! i)) < 8")
  case True
  then obtain ep where ep: "enqueue_sender (pool ! i) t = (Ok (), ep)" "endpoint_inv ep"
    "senders ep = senders (pool ! i) @ [t]" "receivers ep = []" "endpoint_badge ep = endpoint_badge (pool ! i)"
    using enqueue_sender_ok [OF pool_inv_nth [OF p] r] by metis
  then show thesis
    using True p r endpoint_becomes_update [OF p ep(2) ep(5)] by (intro that [of "pool[i := ep]"])
      (simp_all add: ipc_send_def endpoint_at_Some has_no_waiting_iff handle_no_receiver_present_def
        compute_timeout_deadline_eq Let_def)
next
  case False
  moreover have "enqueue_sender (pool ! i) t = (Err QueueFull, pool ! i)"
    if "\<not> length (senders (pool ! i)) < 8"
    using that enqueue_sender_full [OF pool_inv_nth [OF p]] waiting_bounded(1) [OF pool_inv_nth [OF p]]
    by (simp add: le_less)
  ultimately show thesis
    using p r endpoint_becomes_refl [OF p(1), of i] by (intro that [of pool])
      (auto simp: ipc_send_def endpoint_at_Some has_no_waiting_iff handle_no_receiver_present_def
        compute_timeout_deadline_eq Let_def)
qed

lemma ipc_receive_sender_waiting:
  assumes p: "pool_inv pool" "i < MAXIMUM_ENDPOINTS" and q: "senders (pool ! i) = s # ss"
  obtains pool' where
    "ipc_receive t dst i pool th rcs m src scs call caller =
       (let (r, rc) = execute_receive_rendezvous dst i pool' rcs m src scs call caller
        in (r, pool', th, rc))"
    "endpoint_becomes pool i ss [] pool'"
proof -
  from dequeue_sender_ok [OF pool_inv_nth [OF p] q] obtain ep where ep:
    "dequeue_sender (pool ! i) = (Some s, ep)" "endpoint_inv ep" "senders ep = ss"
    "receivers ep = receivers (pool ! i)" "endpoint_badge ep = endpoint_badge (pool ! i)" .
  have "receivers (pool ! i) = []" using pool_inv_nth [OF p] q by (simp add: endpoint_inv_def)
  then have "endpoint_becomes pool i ss [] (pool[i := ep])"
    using endpoint_becomes_update [OF p ep(2) ep(5)] ep by simp
  then show thesis
    using p q ep by (intro that [of "pool[i := ep]"])
      (simp_all add: ipc_receive_def endpoint_at_Some has_no_waiting_iff Let_def)
qed

lemma ipc_receive_no_sender:
  assumes p: "pool_inv pool" "i < MAXIMUM_ENDPOINTS" and q: "senders (pool ! i) = []"
  obtains pool' where
    "ipc_receive t dst i pool th rcs m src scs call caller =
       (if length (receivers (pool ! i)) < 8 then Ok default_message else Err QueueFull, pool',
        th\<lparr> thread_state := Blocked \<rparr>, rcs)"
    "endpoint_becomes pool i []
       (receivers (pool ! i) @ (if length (receivers (pool ! i)) < 8 then [t] else [])) pool'"
proof (cases "length (receivers (pool ! i)) < 8")
  case True
  then obtain ep where ep: "enqueue_receiver (pool ! i) t = (Ok (), ep)" "endpoint_inv ep"
    "receivers ep = receivers (pool ! i) @ [t]" "senders ep = []" "endpoint_badge ep = endpoint_badge (pool ! i)"
    using enqueue_receiver_ok [OF pool_inv_nth [OF p] q] by metis
  then show thesis
    using True p q endpoint_becomes_update [OF p ep(2) ep(5)] by (intro that [of "pool[i := ep]"])
      (simp_all add: ipc_receive_def endpoint_at_Some has_no_waiting_iff handle_no_sender_present_def Let_def)
next
  case False
  then have "enqueue_receiver (pool ! i) t = (Err QueueFull, pool ! i)"
    using enqueue_receiver_full [OF pool_inv_nth [OF p]] waiting_bounded(2) [OF pool_inv_nth [OF p]]
    by (simp add: le_less)
  then show thesis
    using False p q endpoint_becomes_refl [OF p(1), of i] by (intro that [of pool])
      (auto simp: ipc_receive_def endpoint_at_Some has_no_waiting_iff handle_no_sender_present_def Let_def)
qed

text \<open>Every operation keeps the pool invariant.\<close>

lemma ipc_send_pool_inv:
  assumes p: "pool_inv pool" and s: "ipc_send t m src dst i tm tick pool th cs = (r, pool', th')"
  shows "pool_inv pool'"
proof (cases "i < MAXIMUM_ENDPOINTS")
  case True
  show ?thesis
  proof (cases "receivers (pool ! i)")
    case Nil
    obtain pool1 where "fst (snd (ipc_send t m src dst i tm tick pool th cs)) = pool1" "pool_inv pool1"
      by (rule ipc_send_no_receiver [OF p True Nil, of t m src dst tm tick th cs])
        (simp add: endpoint_becomes_def)
    then show ?thesis using s by simp
  next
    case (Cons x xs)
    obtain pool1 where "fst (snd (ipc_send t m src dst i tm tick pool th cs)) = pool1" "pool_inv pool1"
      by (rule ipc_send_receiver_waiting [OF p True Cons, of t m src dst tm tick th cs])
        (simp add: endpoint_becomes_def)
    then show ?thesis using s by simp
  qed
next
  case False
  then show ?thesis using p s by (simp add: ipc_send_def endpoint_at_None)
qed

lemma ipc_receive_pool_inv:
  assumes p: "pool_inv pool"
    and s: "ipc_receive t dst i pool th rcs m src scs call caller = (r, pool', th', rc)"
  shows "pool_inv pool'"
proof (cases "i < MAXIMUM_ENDPOINTS")
  case True
  show ?thesis
  proof (cases "senders (pool ! i)")
    case Nil
    obtain pool1 where
      "fst (snd (ipc_receive t dst i pool th rcs m src scs call caller)) = pool1" "pool_inv pool1"
      by (rule ipc_receive_no_sender [OF p True Nil, of t dst th rcs m src scs call caller])
        (simp add: endpoint_becomes_def)
    then show ?thesis using s by simp
  next
    case (Cons x xs)
    obtain pool1 where
      "fst (snd (ipc_receive t dst i pool th rcs m src scs call caller)) = pool1" "pool_inv pool1"
      by (rule ipc_receive_sender_waiting [OF p True Cons, of t dst th rcs m src scs call caller])
        (simp add: endpoint_becomes_def split_beta Let_def)
    then show ?thesis using s by simp
  qed
next
  case False
  then show ?thesis using p s by (simp add: ipc_receive_def endpoint_at_None)
qed

lemma ipc_call_pool_inv:
  "pool_inv pool \<Longrightarrow>
   ipc_call t m src dst i tm tick pool th cs g = Some (r, pool', th', g') \<Longrightarrow> pool_inv pool'"
  by (auto simp: ipc_call_def Let_def split: option.splits sum.splits prod.splits
      dest: ipc_send_pool_inv)

lemma remove_sender_pool_inv:
  assumes "pool_inv pool"
  shows "pool_inv (remove_sender_from_endpoint i pool t)"
proof (cases "i < MAXIMUM_ENDPOINTS")
  case True
  then show ?thesis
    using assms drain_contents [OF pool_inv_nth [OF assms True], of t]
    by (simp add: remove_sender_from_endpoint_def endpoint_at_Some pool_inv_update)
qed (use assms in \<open>simp add: remove_sender_from_endpoint_def endpoint_at_None\<close>)

section \<open>Runs of the IPC layer\<close>

text \<open>
  One IPC operation of some thread on the pool, with any arguments, thread block, capability spaces
  and wait-for graph.
\<close>

inductive ipc_step :: "EndpointPool \<Rightarrow> EndpointPool \<Rightarrow> bool" where
  send: "ipc_send t m src dst i tm tick pool th cs = (r, pool', th') \<Longrightarrow> ipc_step pool pool'"
| receive: "ipc_receive t dst i pool th rcs m src scs call caller = (rm, pool', th', rc) \<Longrightarrow>
    ipc_step pool pool'"
| call: "ipc_call t m src dst i tm tick pool th cs g = Some (r, pool', th', g') \<Longrightarrow> ipc_step pool pool'"
| timeout: "check_and_apply_send_timeout th i pool t tick = (e, th', pool') \<Longrightarrow> ipc_step pool pool'"

lemma ipc_step_pool_inv: "ipc_step pool pool' \<Longrightarrow> pool_inv pool \<Longrightarrow> pool_inv pool'"
  by (induction rule: ipc_step.induct)
    (auto intro: ipc_send_pool_inv ipc_receive_pool_inv ipc_call_pool_inv remove_sender_pool_inv
      simp: check_and_apply_send_timeout_def unblock_timed_out_sender_def split: if_splits)

lemma ipc_steps_pool_inv: "ipc_step\<^sup>*\<^sup>* pool pool' \<Longrightarrow> pool_inv pool \<Longrightarrow> pool_inv pool'"
  by (induction rule: rtranclp_induct) (auto intro: ipc_step_pool_inv)

text \<open>A run of calls of any threads, threading the pool and the wait-for graph.\<close>

record call_args =
  arg_caller :: u32
  arg_message :: IpcMessage
  arg_source :: u8
  arg_destination :: u8
  arg_endpoint :: usize
  arg_timeout :: u64
  arg_tick :: u64
  arg_thread :: Thread
  arg_space :: CapabilitySpace

fun run_calls ::
  "EndpointPool \<Rightarrow> WaitForGraph \<Rightarrow> call_args list \<Rightarrow> (unit, IpcError) result list option" where
  "run_calls pool g [] = Some []"
| "run_calls pool g (a # as) =
     (case ipc_call (arg_caller a) (arg_message a) (arg_source a) (arg_destination a) (arg_endpoint a)
        (arg_timeout a) (arg_tick a) pool (arg_thread a) (arg_space a) g of
        None \<Rightarrow> None
      | Some (r, pool', _, g') \<Rightarrow> map_option ((#) r) (run_calls pool' g' as))"

lemma ipc_send_not_deadlock: "fst (ipc_send t m src dst i tm tick pool th cs) \<noteq> Err WouldDeadlock"
  by (auto simp: ipc_send_def handle_no_receiver_present_def compute_timeout_deadline_eq
      execute_send_rendezvous_def deliver_message_eq enqueue_sender_def enqueue_def Let_def
      split: option.splits prod.splits)

lemma run_calls_no_edges:
  "no_edges g \<Longrightarrow> list_all (\<lambda>a. arg_endpoint a < MAXIMUM_ENDPOINTS) as \<Longrightarrow>
   \<exists>rs. run_calls pool g as = Some rs \<and> length rs = length as \<and> Err WouldDeadlock \<notin> set rs"
proof (induction as arbitrary: pool g)
  case (Cons a as)
  let ?send = "ipc_send (arg_caller a) (arg_message a) (arg_source a) (arg_destination a)
    (arg_endpoint a) (arg_timeout a) (arg_tick a) pool (arg_thread a) (arg_space a)"
  obtain r pool' th' where s: "?send = (r, pool', th')" by (cases ?send)
  obtain g' where g': "no_edges g'"
    "ipc_call (arg_caller a) (arg_message a) (arg_source a) (arg_destination a) (arg_endpoint a)
      (arg_timeout a) (arg_tick a) pool (arg_thread a) (arg_space a) g = Some (r, pool', th', g')"
    using ipc_call_no_edges [OF Cons.prems(1), of "arg_endpoint a" "arg_caller a" "arg_message a"
        "arg_source a" "arg_destination a" "arg_timeout a" "arg_tick a" pool "arg_thread a" "arg_space a"]
      Cons.prems(2) s
    by auto
  have "r \<noteq> Err WouldDeadlock"
    using ipc_send_not_deadlock [of "arg_caller a" "arg_message a"] s by (metis fst_conv)
  then show ?case using Cons.IH [OF g'(1), of pool'] Cons.prems(2) g'(2) by auto
qed simp

lemma fold_notify_signal:
  "fold (\<lambda>m n. notify_signal n m) masks n = n\<lparr> signal_word := fold (OR) masks (signal_word n) \<rparr>"
proof (induction masks arbitrary: n)
  case (Cons m masks)
  have "signal_word n OR m = m OR signal_word n" by (rule or.commute)
  with Cons show ?case by (simp add: notify_signal_def signal_def)
qed simp

lemma fold_or_mono: "bit w k \<Longrightarrow> bit (fold (OR) masks (w::u64)) k"
  by (induction masks arbitrary: w) (simp_all add: bit_or_iff)

lemma fold_or_bit: "m \<in> set masks \<Longrightarrow> bit m k \<Longrightarrow> bit (fold (OR) masks (w::u64)) k"
  by (induction masks arbitrary: w) (auto simp: bit_or_iff intro: fold_or_mono)

lemma fold_or_nonzero:
  assumes "\<exists>m \<in> set masks. m \<noteq> (0::u64)"
  shows "fold (OR) masks w \<noteq> 0"
proof -
  from assms obtain m k where "m \<in> set masks" "bit m k" by (metis bit_eq_iff bit_0_eq bot_apply bot_bool_def)
  then have "bit (fold (OR) masks w) k" by (rule fold_or_bit)
  then show ?thesis by auto
qed

text \<open>Sample values for the properties below.\<close>

definition crowded_endpoint :: Endpoint where
  "crowded_endpoint = \<lparr> sender_queue = \<lparr> storage = [1, 2, 3, 0, 0, 0, 0, 0], head_index = 0,
     tail_index = 3, current_count = 3 \<rparr>, receiver_queue = new_queue 8 0, endpoint_badge = 0 \<rparr>"

definition crowded_pool :: EndpointPool where
  "crowded_pool = new_endpoint_pool[3 := crowded_endpoint]"

definition sample_call :: "u32 \<Rightarrow> usize \<Rightarrow> call_args" where
  "sample_call caller index = \<lparr> arg_caller = caller, arg_message = default_message, arg_source = 255,
     arg_destination = 0, arg_endpoint = index, arg_timeout = 10, arg_tick = 0, arg_thread = new_thread,
     arg_space = new_space \<rparr>"

section \<open>Properties\<close>

text \<open>
  C8. The circular queue is a bounded first-in first-out queue: a client of the array with its head
  and tail indices observes, in any run of enqueues and dequeues, exactly what a list with a length
  limit would answer, refusals and empty reads included.
\<close>

theorem bounded_queue_refines_fifo:
  assumes "0 < capacity" "capacity < usize_max"
  shows "fst (run_ops enqueue dequeue (new_queue capacity d) ops) = fst (fifo_run capacity [] ops)"
  using bq.run_ops_simulates [of "new_queue capacity d" ops] assms by simp

theorem bounded_queue_refines_fifo_witness:
  "fst (run_ops enqueue dequeue (new_queue 2 (0::nat)) [Enq 5, Enq 6, Enq 7, Deq, Enq 8, Deq, Deq, Deq]) =
   [Accepted, Accepted, Refused, Served (Some 5), Accepted, Served (Some 6), Served (Some 8), Served None]"
  using bounded_queue_refines_fifo
    [of 2 "0::nat" "[Enq 5, Enq 6, Enq 7, Deq, Enq 8, Deq, Deq, Deq]"]
  by (simp add: usize_max_def)

text \<open>
  C9. A capability transfer is guarded and atomic. A rendezvous delivers the sender's registers under
  the endpoint's badge; it moves a capability only from a non-null slot holding the GRANT right into
  an empty slot, where it appears unchanged, so no right is amplified; no other slot of the receiver
  changes; and an error leaves the receiver's space as it was.
\<close>

theorem rendezvous_is_guarded_and_atomic:
  "case perform_rendezvous m src dst scs rcs b of
     (Ok delivered, rcs') \<Rightarrow>
       delivered = m\<lparr> badge := b \<rparr> \<and>
       (if src = 255 then rcs' = rcs
        else state (lookup_slot_ref scs src) \<noteq> Null \<and>
          bit (rights_bitmask (lookup_slot_ref scs src)) 2 \<and>
          state (lookup_slot_ref rcs dst) = Null \<and>
          (\<forall>j. lookup_slot_ref rcs' j =
            (if j = dst then lookup_slot_ref scs src else lookup_slot_ref rcs j)))
   | (Err e, rcs') \<Rightarrow>
       rcs' = rcs \<and> src \<noteq> 255 \<and>
       (if state (lookup_slot_ref scs src) \<noteq> Null \<and> bit (rights_bitmask (lookup_slot_ref scs src)) 2
        then e = IpcSlotOccupied \<and> state (lookup_slot_ref rcs dst) \<noteq> Null
        else e = GrantRightNotHeld)"
proof -
  have "grantable scs src \<longleftrightarrow>
      state (lookup_slot_ref scs src) \<noteq> Null \<and> bit (rights_bitmask (lookup_slot_ref scs src)) 2"
    using and_exp_eq_exp_iff [of 2 "rights_bitmask (lookup_slot_ref scs src)"]
    by (simp add: grantable_def is_null_def rights_contains_def GRANT_def)
  then show ?thesis
    by (auto simp: perform_rendezvous_eq is_null_def cspace.read_write)
qed

text \<open>
  C10. Send, on every branch, over a pool whose queues are consistent, as every run of IPC operations leaves it. An
  index outside the pool is refused as EndpointRevoked and nothing changes. With a receiver queued, the first one is
  taken and the sender goes on, with an error when the capability it names may not be granted. With none, a zero
  timeout returns at once, an overflowing or reserved timeout is refused, and otherwise the sender is marked Blocked
  until tick plus timeout and joins the end of the queue. When that queue already holds eight senders the result
  is QueueFull and the queue is unchanged, but the thread has been marked Blocked all the same. No other
  endpoint changes.
\<close>

theorem ipc_send_outcomes:
  assumes "pool_inv pool"
  shows "if MAXIMUM_ENDPOINTS \<le> i
    then ipc_send t m src dst i tm tick pool th cs = (Err EndpointRevoked, pool, th)
    else \<exists>pool' ss rs r th'.
    ipc_send t m src dst i tm tick pool th cs = (r, pool', th') \<and> endpoint_becomes pool i ss rs pool' \<and>
    (case receivers (pool ! i) of
       _ # rest \<Rightarrow> ss = [] \<and> rs = rest \<and> th' = th \<and>
         r = (if src = 255 \<or> grantable cs src then Ok () else Err GrantRightNotHeld)
     | [] \<Rightarrow> rs = [] \<and>
         (if tm = 0 then r = Ok () \<and> ss = senders (pool ! i) \<and> th' = th
          else if tm = -1 \<or> unat tick + unat tm \<ge> 2 ^ 64
            then r = Err InvalidTimeout \<and> ss = senders (pool ! i) \<and> th' = th
          else th' = th\<lparr> timeout_deadline_tick := tick + tm, thread_state := Blocked \<rparr> \<and>
            (if length (senders (pool ! i)) < 8 then r = Ok () \<and> ss = senders (pool ! i) @ [t]
             else r = Err QueueFull \<and> ss = senders (pool ! i))))"
proof (cases "i < MAXIMUM_ENDPOINTS")
  case False
  then show ?thesis using assms by (simp add: ipc_send_def endpoint_at_def pool_inv_def)
next
  case True
  show ?thesis
  proof (cases "receivers (pool ! i)")
    case Nil
    show ?thesis
      by (rule ipc_send_no_receiver [OF assms True Nil, of t m src dst tm tick th cs])
        (use True in \<open>auto simp: Nil deadline_ok_def split: if_splits\<close>)
  next
    case (Cons x xs)
    show ?thesis
      by (rule ipc_send_receiver_waiting [OF assms True Cons, of t m src dst tm tick th cs])
        (use True in \<open>auto simp: Cons\<close>)
  qed
qed

theorem ipc_send_outcomes_witness:
  "\<exists>pool' th'. ipc_send 7 default_message 255 0 3 10 100 new_endpoint_pool new_thread new_space =
     (Ok (), pool', th') \<and> endpoint_becomes new_endpoint_pool 3 [7] [] pool' \<and>
   thread_state th' = Blocked \<and> timeout_deadline_tick th' = 110"
proof -
  have "senders (new_endpoint_pool ! 3) = []" "receivers (new_endpoint_pool ! 3) = []"
    by (simp_all add: new_endpoint_pool_def MAXIMUM_ENDPOINTS_def new_endpoint_def senders_def receivers_def)
  then show ?thesis
    using ipc_send_outcomes [OF pool_inv_new, of 3 7 default_message 255 0 10 100 new_thread new_space]
    by (auto simp: MAXIMUM_ENDPOINTS_def)
qed

text \<open>
  C11. Endpoints stay consistent over any run of IPC operations from boot: an endpoint never has
  senders and receivers waiting at once, and neither queue ever exceeds its eight places.
\<close>

theorem endpoint_never_holds_both_queues:
  assumes "ipc_step\<^sup>*\<^sup>* new_endpoint_pool pool" "i < 16"
  shows "(senders (pool ! i) = [] \<or> receivers (pool ! i) = []) \<and>
    length (senders (pool ! i)) \<le> 8 \<and> length (receivers (pool ! i)) \<le> 8"
proof -
  have "endpoint_inv (pool ! i)"
    using ipc_steps_pool_inv [OF assms(1) pool_inv_new] assms(2)
    by (intro pool_inv_nth) (simp_all add: MAXIMUM_ENDPOINTS_def)
  then show ?thesis using waiting_bounded by (simp add: endpoint_inv_def)
qed

theorem endpoint_never_holds_both_queues_witness:
  "\<exists>pool. ipc_step\<^sup>*\<^sup>* new_endpoint_pool pool \<and> length (senders (pool ! 3)) \<le> 8 \<and>
   (senders (pool ! 3) = [] \<or> receivers (pool ! 3) = [])"
proof -
  obtain r pool th' where s:
    "ipc_send 7 default_message 255 0 3 10 100 new_endpoint_pool new_thread new_space = (r, pool, th')"
    by (metis prod_cases3)
  then have "ipc_step\<^sup>*\<^sup>* new_endpoint_pool pool" by (intro r_into_rtranclp ipc_step.send)
  then show ?thesis using endpoint_never_holds_both_queues [of pool 3] by auto
qed

text \<open>
  C12. A reply capability is single use: installing it into a server whose reply slot is empty succeeds
  and names the caller, a second install before the reply is refused, replying consumes it, and a
  second reply is refused with ReplyCapabilityAlreadyUsed and the space unchanged. No other slot is touched.
\<close>

theorem reply_capability_is_single_use:
  assumes "state (lookup_slot_ref cs 255) = Null"
  shows "\<exists>cs1 cs2.
    install_cap_reply_in_server_cspace cs caller = (Ok (), cs1) \<and>
    lookup_slot_ref cs1 255 = new_cap_reply caller \<and>
    install_cap_reply_in_server_cspace cs1 other = (Err ReplySlotOccupied, cs1) \<and>
    consume_cap_reply_and_zero_slot cs1 = (Ok (), cs2) \<and>
    consume_cap_reply_and_zero_slot cs2 = (Err ReplyCapabilityAlreadyUsed, cs2) \<and>
    lookup_slot_ref cs2 255 = null_slot \<and>
    (\<forall>j. j \<noteq> 255 \<longrightarrow> lookup_slot_ref cs1 j = lookup_slot_ref cs j \<and>
      lookup_slot_ref cs2 j = lookup_slot_ref cs j)"
  using assms
  by (simp add: install_cap_reply_in_server_cspace_def validate_reply_slot_is_empty_def
      write_cap_reply_slot_def consume_cap_reply_and_zero_slot_def validate_reply_slot_has_cap_reply_def
      perform_volatile_zero_of_reply_slot_def zero_capability_slot_via_reference_def
      CAPABILITY_REPLY_DESIGNATED_SLOT_def is_null_def cspace.read_write Let_def)
    (simp add: new_cap_reply_def)

theorem reply_capability_is_single_use_witness:
  "\<exists>cs1 cs2. install_cap_reply_in_server_cspace new_space 9 = (Ok (), cs1) \<and>
    consume_cap_reply_and_zero_slot cs1 = (Ok (), cs2) \<and>
    consume_cap_reply_and_zero_slot cs2 = (Err ReplyCapabilityAlreadyUsed, cs2)"
proof -
  have "state (lookup_slot_ref new_space 255) = Null"
    by (simp add: new_space_def lookup_slot_ref_def read_slot_at_index_def)
  from reply_capability_is_single_use [OF this, of 9 0] show ?thesis by blast
qed

text \<open>
  A send timeout removes more than the sender that timed out: it dequeues from the front until it
  meets that sender, so every thread queued ahead of it is dropped from the endpoint as well.
\<close>

lemma send_timeout_drops_earlier_senders:
  assumes "pool_inv pool" "i < MAXIMUM_ENDPOINTS" "thread_state th = Blocked"
    "timeout_deadline_tick th \<le> tick" "senders (pool ! i) = ahead @ t # behind" "t \<notin> set ahead"
  shows "\<exists>pool'. check_and_apply_send_timeout th i pool t tick =
      (Some Timeout, th\<lparr> thread_state := Ready, timeout_deadline_tick := 0 \<rparr>, pool') \<and>
    endpoint_becomes pool i behind (receivers (pool ! i)) pool'"
proof -
  let ?ep = "drain_sender_queue_until_index_removed (pool ! i) t"
  note drain = drain_contents [OF pool_inv_nth [OF assms(1,2)], of t]
  have "dropWhile (\<lambda>s. s \<noteq> t) (senders (pool ! i)) = t # behind"
    using assms(5,6) by (auto simp: dropWhile_append)
  then have "senders ?ep = behind" using drain by simp
  then have "endpoint_becomes pool i behind (receivers (pool ! i)) (pool[i := ?ep])"
    using endpoint_becomes_update [OF assms(1,2), of ?ep] drain by simp
  then show ?thesis
    using assms(1-4) by (simp add: check_and_apply_send_timeout_def is_sender_timed_out_def
        has_thread_timed_out_def unblock_timed_out_sender_def remove_sender_from_endpoint_def endpoint_at_Some)
qed

text \<open>
  The deadlock check always returns, and answers that a cycle would form exactly when the
  lowest-numbered thread recorded as waiting on the target endpoint is the caller itself. It never
  follows a chain of waits through a second thread.
\<close>

lemma deadlock_check_sees_only_first_waiter:
  assumes "length (waiting_on_endpoint g) = MAXIMUM_THREADS"
  shows "check_would_form_cycle g caller e =
    Some (position (\<lambda>x. x = e) (waiting_on_endpoint g) = Some (unat caller))"
proof -
  let ?p = "position (\<lambda>x. x = e) (waiting_on_endpoint g)"
  have "unat (of_nat i :: u32) = i" if "?p = Some i" for i
    using position_Some [OF that] assms by (intro unat_of_nat_small) (simp add: MAXIMUM_THREADS_def)
  then have "find_thread_waiting_on_endpoint g e = Some caller \<longleftrightarrow> ?p = Some (unat caller)"
    by (auto simp: find_thread_waiting_on_endpoint_def)
  then show ?thesis using assms by (simp add: check_would_form_cycle_eq graph_wf_def)
qed

text \<open>
  Over any run of calls to existing endpoints, starting from the empty graph of boot, every call
  returns and none is ever refused with WouldDeadlock: each call removes its own wait edge before it
  returns, also when the caller stays blocked, so the graph the next call consults has no edges.
\<close>

lemma calls_never_report_deadlock:
  assumes "list_all (\<lambda>a. arg_endpoint a < 16) as"
  shows "\<exists>rs. run_calls pool new_wait_for_graph as = Some rs \<and> length rs = length as \<and>
    Err WouldDeadlock \<notin> set rs"
  using run_calls_no_edges [OF no_edges_new, of as pool] assms by (simp add: MAXIMUM_ENDPOINTS_def)

text \<open>
  C13. Signals are never lost and delivered once: after any signals, a poll returns their union with
  what was pending and clears the word, so a second poll returns 0; a wait with signals pending
  returns them at once and leaves the thread as it is, and with none pending never succeeds.
\<close>

theorem notifications_are_delivered_once:
  assumes "\<exists>m \<in> set masks. m \<noteq> 0"
  shows "let n' = fold (\<lambda>m n. notify_signal n m) masks n; w = fold (OR) masks (signal_word n) in
    notify_poll n' = (w, n\<lparr> signal_word := 0 \<rparr>) \<and> notify_poll (snd (notify_poll n')) = (0, n\<lparr> signal_word := 0 \<rparr>) \<and>
    notify_wait n' th tm tick = (Ok w, n\<lparr> signal_word := 0 \<rparr>, th) \<and>
    is_err (fst (notify_wait (snd (notify_poll n')) th tm tick))"
proof -
  define n' where "n' = fold (\<lambda>m n. notify_signal n m) masks n"
  define w where "w = fold (OR) masks (signal_word n)"
  have "n' = n\<lparr> signal_word := w \<rparr>"
    unfolding n'_def w_def by (rule fold_notify_signal)
  moreover have "w \<noteq> 0" using assms unfolding w_def by (rule fold_or_nonzero)
  ultimately show ?thesis
    unfolding Let_def n'_def [symmetric] w_def [symmetric]
    by (auto simp: notify_poll_def poll_and_clear_def notify_wait_def has_pending_signals_def
        block_thread_for_notification_wait_def check_if_immediately_timed_out_def is_err_def
        split: sum.splits)
qed

theorem notifications_are_delivered_once_witness:
  "notify_poll (fold (\<lambda>m n. notify_signal n m) [1, 4] new_notification) = (5, new_notification)"
  using notifications_are_delivered_once [of "[1, 4]" new_notification new_thread 0 0]
  by (simp add: new_notification_def Let_def)

end
