(* ===== verification/Process_Table.thy ===== *)
theory Process_Table
  imports Ipc_Queue Capability_Space
begin

text \<open>
  The process table (\<open>process/process_table.rs\<close>) and the teardown of a process's authority
  (\<open>syscall/process_exit.rs\<close>). The table is a \<open>keyed_table\<close> of the prelude.
\<close>

section \<open>The table\<close>

datatype ProcessTableError = ThreadIdentifierOutOfBounds

record ProcessTable =
  process_entries :: "CapabilitySpace option list"

definition new_process_table :: ProcessTable where
  "new_process_table = \<lparr> process_entries = replicate MAXIMUM_THREADS None \<rparr>"

definition validate_thread_identifier_bounds :: "ThreadIdentifier \<Rightarrow> (usize, ProcessTableError) result" where
  "validate_thread_identifier_bounds t =
     (let slot_index = unat t in
      if slot_index \<ge> MAXIMUM_THREADS then Err ThreadIdentifierOutOfBounds else Ok slot_index)"

definition convert_identifier_to_slot_index :: "ThreadIdentifier \<Rightarrow> usize option" where
  "convert_identifier_to_slot_index t =
     (case validate_thread_identifier_bounds t of Ok i \<Rightarrow> Some i | Err _ \<Rightarrow> None)"

definition insert_entry ::
  "ProcessTable \<Rightarrow> ThreadIdentifier \<Rightarrow> CapabilitySpace \<Rightarrow> (unit, ProcessTableError) result \<times> ProcessTable" where
  "insert_entry pt t cs =
     (case validate_thread_identifier_bounds t of
        Err e \<Rightarrow> (Err e, pt)
      | Ok i \<Rightarrow> (Ok (), pt\<lparr> process_entries := (process_entries pt)[i := Some cs] \<rparr>))"

definition lookup_entry :: "ProcessTable \<Rightarrow> ThreadIdentifier \<Rightarrow> CapabilitySpace option" where
  "lookup_entry pt t =
     (case convert_identifier_to_slot_index t of None \<Rightarrow> None | Some i \<Rightarrow> process_entries pt ! i)"

text \<open>Writing through the reference \<open>lookup_entry_mut\<close> returned.\<close>

definition write_entry :: "ProcessTable \<Rightarrow> ThreadIdentifier \<Rightarrow> CapabilitySpace \<Rightarrow> ProcessTable" where
  "write_entry pt t cs =
     (case convert_identifier_to_slot_index t of
        None \<Rightarrow> pt
      | Some i \<Rightarrow>
        (case process_entries pt ! i of
           None \<Rightarrow> pt
         | Some _ \<Rightarrow> pt\<lparr> process_entries := (process_entries pt)[i := Some cs] \<rparr>))"

definition remove_entry :: "ProcessTable \<Rightarrow> ThreadIdentifier \<Rightarrow> (unit, ProcessTableError) result \<times> ProcessTable" where
  "remove_entry pt t =
     (case validate_thread_identifier_bounds t of
        Err e \<Rightarrow> (Err e, pt)
      | Ok i \<Rightarrow> (Ok (), pt\<lparr> process_entries := (process_entries pt)[i := None] \<rparr>))"

section \<open>Process exit\<close>

definition zero_slot_if_not_null :: "CapabilitySpace \<Rightarrow> u8 \<Rightarrow> CapabilitySpace" where
  "zero_slot_if_not_null cs slot_index =
     (let slot = lookup_slot_ref cs slot_index in
      if state slot = Valid \<or> state slot = Revoking
      then write_slot cs slot_index (zero_capability_slot_via_reference slot) else cs)"

definition zero_all_capability_space_slots :: "CapabilitySpace \<Rightarrow> CapabilitySpace" where
  "zero_all_capability_space_slots cs =
     fold (\<lambda>slot_index cs. zero_slot_if_not_null cs (of_nat slot_index))
       [0..<MAXIMUM_CAPABILITY_SLOTS_PER_PROCESS] cs"

definition revoke_and_remove_cspace_from_table :: "ProcessTable \<Rightarrow> ThreadIdentifier \<Rightarrow> bool \<times> ProcessTable" where
  "revoke_and_remove_cspace_from_table pt t =
     (let pt1 = (case lookup_entry pt t of
                   Some cs \<Rightarrow> write_entry pt t (zero_all_capability_space_slots cs)
                 | None \<Rightarrow> pt);
          (r, pt2) = remove_entry pt1 t
      in (\<not> is_err r, pt2))"

record ProcessExitRecord =
  capability_space_revoked :: bool
  pages_deallocated :: bool
  thread_deallocated :: bool
  removed_from_scheduler :: bool

definition build_exit_record :: "bool \<Rightarrow> bool \<Rightarrow> bool \<Rightarrow> bool \<Rightarrow> ProcessExitRecord" where
  "build_exit_record a b c d = \<lparr> capability_space_revoked = a, pages_deallocated = b,
     thread_deallocated = c, removed_from_scheduler = d \<rparr>"

text \<open>The page, thread and scheduler steps are empty in the sources and report success.\<close>

definition execute_process_exit_sequence :: "ProcessTable \<Rightarrow> ThreadIdentifier \<Rightarrow> ProcessExitRecord \<times> ProcessTable" where
  "execute_process_exit_sequence pt t =
     (let (revoked, pt') = revoke_and_remove_cspace_from_table pt t
      in (build_exit_record revoked True True True, pt'))"

section \<open>The table meets the keyed-table contract\<close>

definition table_wf :: "ProcessTable \<Rightarrow> bool" where
  "table_wf pt \<longleftrightarrow> length (process_entries pt) = MAXIMUM_THREADS"

lemma table_wf_new: "table_wf new_process_table"
  by (simp add: table_wf_def new_process_table_def)

lemma lookup_entry_eq:
  "lookup_entry pt t = (if unat t < MAXIMUM_THREADS then process_entries pt ! unat t else None)"
  by (simp add: lookup_entry_def convert_identifier_to_slot_index_def validate_thread_identifier_bounds_def Let_def)

lemma lookup_write_entry:
  "table_wf pt \<Longrightarrow> lookup_entry (write_entry pt t cs) t' =
     (if t' = t \<and> lookup_entry pt t \<noteq> None then Some cs else lookup_entry pt t')"
  by (auto simp: lookup_entry_eq write_entry_def convert_identifier_to_slot_index_def table_wf_def
      validate_thread_identifier_bounds_def Let_def nth_list_update split: option.splits)

lemma write_entry_wf: "table_wf (write_entry pt t cs) = table_wf pt"
  by (auto simp: write_entry_def table_wf_def split: option.splits)

lemma lookup_remove_entry:
  "table_wf pt \<Longrightarrow> lookup_entry (snd (remove_entry pt t)) t' = (if t' = t then None else lookup_entry pt t')"
  by (auto simp: lookup_entry_eq remove_entry_def table_wf_def validate_thread_identifier_bounds_def
      Let_def nth_list_update)

definition insert_entry_opt :: "ProcessTable \<Rightarrow> ThreadIdentifier \<Rightarrow> CapabilitySpace \<Rightarrow> ProcessTable option" where
  "insert_entry_opt pt t cs = (case insert_entry pt t cs of (Ok _, pt') \<Rightarrow> Some pt' | (Err _, _) \<Rightarrow> None)"

interpretation ptable: keyed_table lookup_entry insert_entry_opt table_wf
  by unfold_locales
    (auto simp: insert_entry_opt_def insert_entry_def lookup_entry_eq table_wf_def
      validate_thread_identifier_bounds_def Let_def nth_list_update split: if_splits)

text \<open>Several insertions in a row, stopping at the first refusal.\<close>

fun insert_entries ::
  "ProcessTable \<Rightarrow> (ThreadIdentifier \<times> CapabilitySpace) list \<Rightarrow> (ProcessTable, ProcessTableError) result" where
  "insert_entries pt [] = Ok pt"
| "insert_entries pt ((t, cs) # kvs) =
     (case insert_entry pt t cs of (Err e, _) \<Rightarrow> Err e | (Ok _, pt') \<Rightarrow> insert_entries pt' kvs)"

lemma insert_entries_put_all:
  "list_all (\<lambda>(t, _). unat t < 32) kvs \<Longrightarrow>
   \<exists>pt'. ptable.put_all pt kvs = Some pt' \<and> insert_entries pt kvs = Ok pt'"
proof (induction kvs arbitrary: pt)
  case (Cons kv kvs)
  obtain t cs where kv: "kv = (t, cs)" by (cases kv)
  then obtain pt1 where "insert_entry pt t cs = (Ok (), pt1)" "insert_entry_opt pt t cs = Some pt1"
    using Cons.prems by (auto simp: insert_entry_opt_def insert_entry_def
        validate_thread_identifier_bounds_def Let_def MAXIMUM_THREADS_def)
  then show ?case using Cons.IH [of pt1] Cons.prems kv by auto
qed simp

section \<open>Zeroing a space\<close>

lemma zero_slot_read:
  "lookup_slot_ref (zero_slot_if_not_null cs i) j =
     (if j = i \<and> state (lookup_slot_ref cs i) \<noteq> Null then null_slot else lookup_slot_ref cs j)"
  by (cases "state (lookup_slot_ref cs i)")
    (auto simp: zero_slot_if_not_null_def zero_capability_slot_via_reference_def Let_def cspace.read_write)

lemma zero_slots_read:
  "state (lookup_slot_ref (fold (\<lambda>i cs. zero_slot_if_not_null cs (of_nat i)) is cs) j) =
     (if j \<in> of_nat ` set is then Null else state (lookup_slot_ref cs j))"
  by (induction "is" arbitrary: cs) (auto simp: zero_slot_read)

lemma u8_is_of_nat: "(j::u8) \<in> of_nat ` {0..<256}"
  by (rule image_eqI [of _ _ "unat j"]) (use unat_u8_less [of j] in auto)

lemma zero_all_state: "state (lookup_slot_ref (zero_all_capability_space_slots cs) j) = Null"
  using u8_is_of_nat [of j]
  by (simp add: zero_all_capability_space_slots_def zero_slots_read MAXIMUM_CAPABILITY_SLOTS_PER_PROCESS_def
      atLeastLessThanSuc_atLeastAtMost)

section \<open>Properties\<close>

text \<open>
  The process table is a map from thread identifiers below 32 to capability spaces: a run of
  insertions with identifiers in bounds succeeds, an identifier then finds the last
  space inserted for it, and every other identifier what it found before.
\<close>

lemma process_table_is_a_map:
  assumes "table_wf pt" "list_all (\<lambda>(t, _). unat t < 32) kvs"
  shows "\<exists>pt'. insert_entries pt kvs = Ok pt' \<and>
    (\<forall>t. lookup_entry pt' t = (case map_of (rev kvs) t of None \<Rightarrow> lookup_entry pt t | Some cs \<Rightarrow> Some cs))"
  using insert_entries_put_all [OF assms(2), of pt] ptable.put_all_get [OF assms(1)] by blast

text \<open>
  The exit sequence takes the thread's capability space out of the table: the record reports success exactly for
  identifiers in bounds, the exited thread has no capability space afterwards, and the spaces of all
  other threads are unchanged. The space it had is zeroed first; once its entry is gone nothing can observe that.
\<close>

lemma exit_sequence_removes_space:
  assumes "table_wf pt" "execute_process_exit_sequence pt t = (record, pt')"
  shows "capability_space_revoked record = (unat t < 32)" "table_wf pt'"
    "lookup_entry pt' t' = (if t' = t then None else lookup_entry pt t')"
proof -
  define pt1 where "pt1 = (case lookup_entry pt t of
    Some cs \<Rightarrow> write_entry pt t (zero_all_capability_space_slots cs) | None \<Rightarrow> pt)"
  have wf: "table_wf pt1" using assms(1) by (simp add: pt1_def write_entry_wf split: option.splits)
  have other: "lookup_entry pt1 t' = lookup_entry pt t'" if "t' \<noteq> t" for t'
    using that assms(1) by (simp add: pt1_def lookup_write_entry split: option.splits)
  have "table_wf (snd (remove_entry pt1 t))"
    using wf by (auto simp: remove_entry_def table_wf_def split: sum.splits)
  moreover have "is_err (fst (remove_entry pt1 t)) = (\<not> unat t < 32)"
    by (simp add: remove_entry_def validate_thread_identifier_bounds_def Let_def is_err_def MAXIMUM_THREADS_def)
  ultimately show "capability_space_revoked record = (unat t < 32)" "table_wf pt'"
    "lookup_entry pt' t' = (if t' = t then None else lookup_entry pt t')"
    using wf other lookup_remove_entry [OF wf] assms(2)
    by (auto simp: execute_process_exit_sequence_def revoke_and_remove_cspace_from_table_def
        pt1_def [symmetric] build_exit_record_def split_beta Let_def)
qed

end
