(* ===== verification/Device_Irq.thy ===== *)
theory Device_Irq
  imports Process_Table
begin

text \<open>
  Device, frame and interrupt authority: \<open>capability/device_capability.rs\<close>,
  \<open>capability/frame_capability.rs\<close>, \<open>capability/irq_capability.rs\<close> and the system calls
  \<open>syscall/irq_bind.rs\<close> and \<open>syscall/frame_map.rs\<close>. Kernel objects live at the addresses the
  capability slots hold; a function from addresses to objects stands for that memory.
\<close>

section \<open>Device capabilities\<close>

datatype DeviceType =
    NetworkInterface | BlockStorage | SerialPort | Timer | DisplayAdapter | InputDevice | TpmDevice

definition IRQ_NONE :: u8 where "IRQ_NONE = 0xFF"

record DeviceCapabilityData =
  device_type :: DeviceType
  mmio_base_address :: u64
  mmio_size :: u32
  irq_set :: "u8 list"

definition empty_device :: DeviceCapabilityData where
  "empty_device = \<lparr> device_type = NetworkInterface, mmio_base_address = 0, mmio_size = 0,
     irq_set = replicate 4 IRQ_NONE \<rparr>"

datatype DeviceMappingError = OutOfBounds | NotADeviceCapability | DeviceWriteRightNotGranted

definition is_mmio_address_within_device_bounds :: "u64 \<Rightarrow> u32 \<Rightarrow> DeviceCapabilityData \<Rightarrow> bool" where
  "is_mmio_address_within_device_bounds requested_address requested_size d =
     (let device_end = saturating_add (mmio_base_address d) (ucast (mmio_size d));
          request_end = saturating_add requested_address (ucast requested_size);
          start_within_bounds = requested_address \<ge> mmio_base_address d;
          end_within_bounds = request_end \<le> device_end
      in start_within_bounds \<and> end_within_bounds)"

definition convert_bounds_check_to_result :: "bool \<Rightarrow> (unit, DeviceMappingError) result" where
  "convert_bounds_check_to_result within = (if within then Ok () else Err OutOfBounds)"

definition validate_mmio_mapping_request :: "u64 \<Rightarrow> u32 \<Rightarrow> DeviceCapabilityData \<Rightarrow> (unit, DeviceMappingError) result" where
  "validate_mmio_mapping_request requested_address requested_size d =
     convert_bounds_check_to_result (is_mmio_address_within_device_bounds requested_address requested_size d)"

section \<open>Frame capabilities\<close>

record FrameCapabilityData =
  frame_physical_address :: u64
  frame_rights :: CapabilityRights

definition new_frame :: "u64 \<Rightarrow> CapabilityRights \<Rightarrow> FrameCapabilityData" where
  "new_frame a r = \<lparr> frame_physical_address = a, frame_rights = r \<rparr>"

definition validate_frame_alignment :: "u64 \<Rightarrow> bool" where
  "validate_frame_alignment physical_address \<longleftrightarrow> physical_address mod 4096 = 0"

section \<open>The interrupt binding table\<close>

definition IRQ_BINDING_EMPTY_SENTINEL :: u8 where "IRQ_BINDING_EMPTY_SENTINEL = 0xFF"
definition MAXIMUM_IRQ_BINDINGS :: usize where "MAXIMUM_IRQ_BINDINGS = 16"

record IrqBindingRecord =
  irq_number :: u8
  bound_endpoint_slot_index :: u8
  owning_process_index :: u8
  is_active :: bool

definition empty_binding :: IrqBindingRecord where
  "empty_binding = \<lparr> irq_number = IRQ_BINDING_EMPTY_SENTINEL, bound_endpoint_slot_index = 0,
     owning_process_index = 0, is_active = False \<rparr>"

datatype IrqBindingError = IrqNotInDeviceSet | EndpointSlotInvalid | BindingTableFull | IrqAlreadyBound

record IrqBindingTable =
  bindings :: "IrqBindingRecord list"

definition new_irq_table :: IrqBindingTable where
  "new_irq_table = \<lparr> bindings = replicate MAXIMUM_IRQ_BINDINGS empty_binding \<rparr>"

definition check_irq_slot_matches :: "u8 \<Rightarrow> u8 \<Rightarrow> bool" where
  "check_irq_slot_matches irq slot_value \<longleftrightarrow> slot_value \<noteq> IRQ_NONE \<and> slot_value = irq"

definition is_irq_in_device_set :: "u8 \<Rightarrow> DeviceCapabilityData \<Rightarrow> bool" where
  "is_irq_in_device_set irq d \<longleftrightarrow>
     check_irq_slot_matches irq (irq_set d ! 0) \<or> check_irq_slot_matches irq (irq_set d ! 1) \<or>
     check_irq_slot_matches irq (irq_set d ! 2) \<or> check_irq_slot_matches irq (irq_set d ! 3)"

definition find_active_binding_index :: "IrqBindingTable \<Rightarrow> u8 \<Rightarrow> usize option" where
  "find_active_binding_index table irq =
     first_match_loop (\<lambda>b. is_active b \<and> irq_number b = irq) (bindings table) MAXIMUM_IRQ_BINDINGS"

definition find_inactive_slot_index :: "IrqBindingTable \<Rightarrow> usize option" where
  "find_inactive_slot_index table =
     first_match_loop (\<lambda>b. \<not> is_active b) (bindings table) MAXIMUM_IRQ_BINDINGS"

definition write_binding_record :: "IrqBindingTable \<Rightarrow> usize \<Rightarrow> u8 \<Rightarrow> u8 \<Rightarrow> u8 \<Rightarrow> IrqBindingTable" where
  "write_binding_record table slot_index irq endpoint_slot_index process_index =
     table\<lparr> bindings := (bindings table)[slot_index := \<lparr> irq_number = irq,
       bound_endpoint_slot_index = endpoint_slot_index, owning_process_index = process_index,
       is_active = True \<rparr>] \<rparr>"

definition bind_irq_to_endpoint ::
  "IrqBindingTable \<Rightarrow> u8 \<Rightarrow> u8 \<Rightarrow> u8 \<Rightarrow> (unit, IrqBindingError) result \<times> IrqBindingTable" where
  "bind_irq_to_endpoint table irq endpoint_slot_index process_index =
     (if find_active_binding_index table irq \<noteq> None then (Err IrqAlreadyBound, table)
      else
        (case ok_or (find_inactive_slot_index table) BindingTableFull of
           Err e \<Rightarrow> (Err e, table)
         | Ok slot_index \<Rightarrow>
           (Ok (), write_binding_record table slot_index irq endpoint_slot_index process_index)))"

definition lookup_binding_for_irq :: "IrqBindingTable \<Rightarrow> u8 \<Rightarrow> IrqBindingRecord option" where
  "lookup_binding_for_irq table irq =
     map_option (\<lambda>index. bindings table ! index) (find_active_binding_index table irq)"

section \<open>The interrupt-bind system call\<close>

record IrqBindArguments =
  arg_irq_number :: u8
  device_capability_slot_index :: u8
  endpoint_capability_slot_index :: u8

definition build_irq_bind_arguments :: "u64 \<Rightarrow> u64 \<Rightarrow> u64 \<Rightarrow> IrqBindArguments" where
  "build_irq_bind_arguments irq_value device_value endpoint_value =
     \<lparr> arg_irq_number = ucast irq_value, device_capability_slot_index = ucast device_value,
       endpoint_capability_slot_index = ucast endpoint_value \<rparr>"

definition dereference_device_capability_data ::
  "(u64 \<Rightarrow> DeviceCapabilityData) \<Rightarrow> u64 \<Rightarrow> DeviceCapabilityData option" where
  "dereference_device_capability_data device_memory data_pointer =
     (if data_pointer = 0 then None else Some (device_memory data_pointer))"

definition read_device_capability_data ::
  "(u64 \<Rightarrow> DeviceCapabilityData) \<Rightarrow> CapabilitySpace \<Rightarrow> u8 \<Rightarrow> DeviceCapabilityData option" where
  "read_device_capability_data device_memory cs slot_index =
     (case lookup_slot cs slot_index of
        Err _ \<Rightarrow> None
      | Ok slot \<Rightarrow>
        if capability_type slot \<noteq> Device \<or> object_pointer slot = 0 then None
        else dereference_device_capability_data device_memory (object_pointer slot))"

definition caller_holds_irq_on_device ::
  "(u64 \<Rightarrow> DeviceCapabilityData) \<Rightarrow> CapabilitySpace \<Rightarrow> IrqBindArguments \<Rightarrow> bool" where
  "caller_holds_irq_on_device device_memory cs a =
     (case read_device_capability_data device_memory cs (device_capability_slot_index a) of
        None \<Rightarrow> False
      | Some d \<Rightarrow> is_irq_in_device_set (arg_irq_number a) d)"

definition caller_holds_endpoint :: "CapabilitySpace \<Rightarrow> u8 \<Rightarrow> bool" where
  "caller_holds_endpoint cs slot_index =
     (case lookup_slot cs slot_index of
        Err _ \<Rightarrow> False
      | Ok slot \<Rightarrow> capability_type slot = Endpoint)"

definition compute_owning_process_index :: "u32 \<Rightarrow> u8" where
  "compute_owning_process_index t = ucast (t AND 0xFF)"

definition table_bind_call ::
  "IrqBindingTable \<Rightarrow> IrqBindArguments \<Rightarrow> u8 \<Rightarrow> (unit, IrqBindingError) result \<times> IrqBindingTable" where
  "table_bind_call table a owner =
     bind_irq_to_endpoint table (arg_irq_number a) (endpoint_capability_slot_index a) owner"

definition translate_bind_result :: "(unit, IrqBindingError) result \<Rightarrow> int" where
  "translate_bind_result r = (case r of Ok _ \<Rightarrow> 0 | Err _ \<Rightarrow> -1)"

definition install_irq_binding :: "IrqBindingTable \<Rightarrow> IrqBindArguments \<Rightarrow> u32 \<Rightarrow> int \<times> IrqBindingTable" where
  "install_irq_binding table a t =
     (let (r, table') = table_bind_call table a (compute_owning_process_index t)
      in (translate_bind_result r, table'))"

definition validate_and_install_irq_binding ::
  "(u64 \<Rightarrow> DeviceCapabilityData) \<Rightarrow> IrqBindingTable \<Rightarrow> CapabilitySpace \<Rightarrow> IrqBindArguments \<Rightarrow> u32 \<Rightarrow>
   int \<times> IrqBindingTable" where
  "validate_and_install_irq_binding device_memory table cs a t =
     (if \<not> caller_holds_irq_on_device device_memory cs a then (-1, table)
      else if \<not> caller_holds_endpoint cs (endpoint_capability_slot_index a) then (-1, table)
      else install_irq_binding table a t)"

definition handle_irq_bind_syscall ::
  "(u64 \<Rightarrow> DeviceCapabilityData) \<Rightarrow> ProcessTable \<Rightarrow> IrqBindingTable \<Rightarrow> IrqBindArguments \<Rightarrow> u32 \<Rightarrow>
   int \<times> IrqBindingTable" where
  "handle_irq_bind_syscall device_memory pt table a t =
     (case lookup_entry pt t of
        None \<Rightarrow> (-1, table)
      | Some cs \<Rightarrow> validate_and_install_irq_binding device_memory table cs a t)"

section \<open>The frame-map system call\<close>

definition read_frame_capability_data ::
  "(u64 \<Rightarrow> FrameCapabilityData) \<Rightarrow> CapabilitySpace \<Rightarrow> u8 \<Rightarrow> FrameCapabilityData option" where
  "read_frame_capability_data frame_memory cs slot_index =
     (case lookup_slot cs slot_index of
        Err _ \<Rightarrow> None
      | Ok slot \<Rightarrow>
        if capability_type slot \<noteq> Frame \<or> object_pointer slot = 0 then None
        else Some (frame_memory (object_pointer slot)))"

definition validate_caller_holds_readable_frame ::
  "(u64 \<Rightarrow> FrameCapabilityData) \<Rightarrow> CapabilitySpace \<Rightarrow> u8 \<Rightarrow> int" where
  "validate_caller_holds_readable_frame frame_memory cs slot_index =
     (case read_frame_capability_data frame_memory cs slot_index of
        None \<Rightarrow> -1
      | Some f \<Rightarrow> if \<not> rights_contains (frame_rights f) READ then -1 else -1)"

definition handle_frame_map_syscall ::
  "(u64 \<Rightarrow> FrameCapabilityData) \<Rightarrow> ProcessTable \<Rightarrow> u8 \<Rightarrow> u32 \<Rightarrow> int" where
  "handle_frame_map_syscall frame_memory pt slot_index t =
     (case lookup_entry pt t of
        None \<Rightarrow> -1
      | Some cs \<Rightarrow> validate_caller_holds_readable_frame frame_memory cs slot_index)"

definition handle_device_map_mmio_syscall :: int where
  "handle_device_map_mmio_syscall = -1"

section \<open>The binding table meets the keyed-table contract\<close>

definition irq_table_wf :: "IrqBindingTable \<Rightarrow> bool" where
  "irq_table_wf table \<longleftrightarrow>
     length (bindings table) = MAXIMUM_IRQ_BINDINGS \<and>
     (\<forall>i < MAXIMUM_IRQ_BINDINGS. \<forall>j < MAXIMUM_IRQ_BINDINGS.
        is_active (bindings table ! i) \<and> is_active (bindings table ! j) \<and>
        irq_number (bindings table ! i) = irq_number (bindings table ! j) \<longrightarrow> i = j)"

lemma irq_table_wf_new: "irq_table_wf new_irq_table"
  by (simp add: irq_table_wf_def new_irq_table_def empty_binding_def)

lemma find_active_eq:
  "irq_table_wf table \<Longrightarrow>
   find_active_binding_index table irq = position (\<lambda>b. is_active b \<and> irq_number b = irq) (bindings table)"
  by (simp add: find_active_binding_index_def irq_table_wf_def first_match_loop_eq)

lemma find_inactive_eq:
  "irq_table_wf table \<Longrightarrow> find_inactive_slot_index table = position (\<lambda>b. \<not> is_active b) (bindings table)"
  by (simp add: find_inactive_slot_index_def irq_table_wf_def first_match_loop_eq)

lemma find_new_irq_table:
  "find_active_binding_index new_irq_table irq = None"
  "find_inactive_slot_index new_irq_table = Some 0"
proof -
  show "find_active_binding_index new_irq_table irq = None"
    by (subst find_active_eq [OF irq_table_wf_new]) (simp add: new_irq_table_def empty_binding_def position_None)
  show "find_inactive_slot_index new_irq_table = Some 0"
    by (subst find_inactive_eq [OF irq_table_wf_new])
      (simp add: new_irq_table_def empty_binding_def MAXIMUM_IRQ_BINDINGS_def numeral_eq_Suc)
qed

text \<open>In a well-formed table an active record is found under its interrupt number.\<close>

lemma lookup_binding_iff:
  assumes "irq_table_wf table"
  shows "lookup_binding_for_irq table irq = Some b \<longleftrightarrow>
    (\<exists>i < MAXIMUM_IRQ_BINDINGS. bindings table ! i = b \<and> is_active b \<and> irq_number b = irq)"
proof
  assume "lookup_binding_for_irq table irq = Some b"
  then obtain i where "position (\<lambda>b. is_active b \<and> irq_number b = irq) (bindings table) = Some i"
    "b = bindings table ! i" using assms by (auto simp: lookup_binding_for_irq_def find_active_eq)
  then show "\<exists>i < MAXIMUM_IRQ_BINDINGS. bindings table ! i = b \<and> is_active b \<and> irq_number b = irq"
    using position_Some assms by (fastforce simp: irq_table_wf_def)
next
  assume "\<exists>i < MAXIMUM_IRQ_BINDINGS. bindings table ! i = b \<and> is_active b \<and> irq_number b = irq"
  then obtain i where i: "i < MAXIMUM_IRQ_BINDINGS" "bindings table ! i = b" "is_active b" "irq_number b = irq" by blast
  have uniq: "j = i" if "j < MAXIMUM_IRQ_BINDINGS" "is_active (bindings table ! j)"
    "irq_number (bindings table ! j) = irq" for j
    using assms i that unfolding irq_table_wf_def by blast
  have "position (\<lambda>b. is_active b \<and> irq_number b = irq) (bindings table) = Some i"
  proof (rule position_SomeI)
    show "i < length (bindings table)" using assms i(1) by (simp add: irq_table_wf_def)
    show "is_active (bindings table ! i) \<and> irq_number (bindings table ! i) = irq" using i by simp
    show "\<not> (is_active (bindings table ! j) \<and> irq_number (bindings table ! j) = irq)" if "j < i" for j
      using uniq [of j] that i(1) by auto
  qed
  then show "lookup_binding_for_irq table irq = Some b"
    using assms i by (simp add: lookup_binding_for_irq_def find_active_eq)
qed

lemma lookup_binding_None:
  "irq_table_wf table \<Longrightarrow> lookup_binding_for_irq table irq = None \<longleftrightarrow> find_active_binding_index table irq = None"
  by (simp add: lookup_binding_for_irq_def)

definition bind_opt :: "IrqBindingTable \<Rightarrow> u8 \<Rightarrow> IrqBindingRecord \<Rightarrow> IrqBindingTable option" where
  "bind_opt table irq b =
     (if irq_number b = irq \<and> is_active b then
        (case bind_irq_to_endpoint table irq (bound_endpoint_slot_index b) (owning_process_index b) of
           (Ok _, table') \<Rightarrow> Some table' | (Err _, _) \<Rightarrow> None)
      else None)"

text \<open>A successful bind writes one free record.\<close>

lemma bind_ok_cases:
  assumes "irq_table_wf table" "bind_irq_to_endpoint table irq ep owner = (Ok (), table')"
  obtains i where "i < MAXIMUM_IRQ_BINDINGS" "\<not> is_active (bindings table ! i)"
    "lookup_binding_for_irq table irq = None"
    "bindings table' = (bindings table)[i := \<lparr> irq_number = irq, bound_endpoint_slot_index = ep,
       owning_process_index = owner, is_active = True \<rparr>]"
proof -
  from assms(2) have free: "lookup_binding_for_irq table irq = None"
    by (auto simp: bind_irq_to_endpoint_def lookup_binding_for_irq_def split: if_splits)
  with assms(2) obtain i where i: "find_inactive_slot_index table = Some i"
    "table' = write_binding_record table i irq ep owner"
    by (auto simp: bind_irq_to_endpoint_def ok_or_def split: if_splits option.splits sum.splits)
  then have "i < MAXIMUM_IRQ_BINDINGS" "\<not> is_active (bindings table ! i)"
    using position_Some assms(1) by (fastforce simp: find_inactive_eq irq_table_wf_def)+
  then show thesis using i free by (intro that [of i]) (simp_all add: write_binding_record_def)
qed

lemma bind_ok_wf:
  assumes wf: "irq_table_wf table" and b: "bind_irq_to_endpoint table irq ep owner = (Ok (), table')"
  shows "irq_table_wf table'"
proof -
  from bind_ok_cases [OF wf b] obtain i where i: "i < MAXIMUM_IRQ_BINDINGS"
    "\<not> is_active (bindings table ! i)" "lookup_binding_for_irq table irq = None"
    "bindings table' = (bindings table)[i := \<lparr> irq_number = irq, bound_endpoint_slot_index = ep,
       owning_process_index = owner, is_active = True \<rparr>]" .
  have "irq_number (bindings table ! j) \<noteq> irq" if "j < MAXIMUM_IRQ_BINDINGS" "is_active (bindings table ! j)" for j
    using lookup_binding_iff [OF wf, of irq "bindings table ! j"] i(3) that by auto
  then have fresh: "j \<noteq> i \<Longrightarrow> j < MAXIMUM_IRQ_BINDINGS \<Longrightarrow> is_active (bindings table' ! j) \<Longrightarrow>
      irq_number (bindings table' ! j) \<noteq> irq" for j
    by (simp add: i(4))
  have len: "length (bindings table) = MAXIMUM_IRQ_BINDINGS" using wf by (simp add: irq_table_wf_def)
  have new: "irq_number (bindings table' ! i) = irq" using i(1) len by (simp add: i(4))
  have "j = k" if "j < MAXIMUM_IRQ_BINDINGS" "k < MAXIMUM_IRQ_BINDINGS" "is_active (bindings table' ! j)"
    "is_active (bindings table' ! k)" "irq_number (bindings table' ! j) = irq_number (bindings table' ! k)" for j k
  proof (cases "j = i \<or> k = i")
    case True
    then show ?thesis using fresh [of j] fresh [of k] new that by metis
  next
    case False
    then have "bindings table' ! j = bindings table ! j" "bindings table' ! k = bindings table ! k"
      by (simp_all add: i(4))
    then show ?thesis using that wf unfolding irq_table_wf_def by metis
  qed
  then show ?thesis unfolding irq_table_wf_def by (simp add: i(4) len)
qed

lemma bind_ok_lookup:
  assumes wf: "irq_table_wf table" and b: "bind_irq_to_endpoint table irq ep owner = (Ok (), table')"
  shows "lookup_binding_for_irq table' irq' =
    (if irq' = irq then Some \<lparr> irq_number = irq, bound_endpoint_slot_index = ep,
       owning_process_index = owner, is_active = True \<rparr> else lookup_binding_for_irq table irq')"
proof -
  from bind_ok_cases [OF wf b] obtain i where i: "i < MAXIMUM_IRQ_BINDINGS"
    "\<not> is_active (bindings table ! i)" "lookup_binding_for_irq table irq = None"
    "bindings table' = (bindings table)[i := \<lparr> irq_number = irq, bound_endpoint_slot_index = ep,
       owning_process_index = owner, is_active = True \<rparr>]" .
  have len: "length (bindings table) = MAXIMUM_IRQ_BINDINGS" using wf by (simp add: irq_table_wf_def)
  show ?thesis
  proof (cases "irq' = irq")
    case True
    then show ?thesis
      using i len by (auto simp: lookup_binding_iff [OF bind_ok_wf [OF wf b]] intro: exI [of _ i])
  next
    case False
    have "(\<exists>j < MAXIMUM_IRQ_BINDINGS. bindings table' ! j = r \<and> is_active r \<and> irq_number r = irq') \<longleftrightarrow>
        (\<exists>j < MAXIMUM_IRQ_BINDINGS. bindings table ! j = r \<and> is_active r \<and> irq_number r = irq')" for r
    proof (intro iffI; elim exE conjE)
      fix j assume j: "j < MAXIMUM_IRQ_BINDINGS" "bindings table' ! j = r" "is_active r" "irq_number r = irq'"
      then have "j \<noteq> i" using i len False by auto
      then show "\<exists>j < MAXIMUM_IRQ_BINDINGS. bindings table ! j = r \<and> is_active r \<and> irq_number r = irq'"
        using j by (auto simp: i(4))
    next
      fix j assume j: "j < MAXIMUM_IRQ_BINDINGS" "bindings table ! j = r" "is_active r" "irq_number r = irq'"
      then have "j \<noteq> i" using i by auto
      then show "\<exists>j < MAXIMUM_IRQ_BINDINGS. bindings table' ! j = r \<and> is_active r \<and> irq_number r = irq'"
        using j by (intro exI [of _ j]) (simp add: i(4))
    qed
    then have "lookup_binding_for_irq table' irq' = Some r \<longleftrightarrow> lookup_binding_for_irq table irq' = Some r" for r
      using lookup_binding_iff [OF wf] lookup_binding_iff [OF bind_ok_wf [OF wf b]] by simp
    then show ?thesis using False by (metis not_None_eq)
  qed
qed

interpretation irqs: keyed_table lookup_binding_for_irq bind_opt irq_table_wf
  by unfold_locales
    (auto simp: bind_opt_def bind_ok_lookup split: if_splits sum.splits prod.splits intro: bind_ok_wf)

lemma bind_err: "bind_irq_to_endpoint table irq ep owner = (Err e, table') \<Longrightarrow> table' = table"
  by (auto simp: bind_irq_to_endpoint_def split: if_splits sum.splits)

lemma handle_irq_bind_cases:
  obtains (refused) "handle_irq_bind_syscall mem pt table a t = (-1, table)"
  | (bound) cs dev ep table' where "lookup_entry pt t = Some cs"
      "lookup_slot cs (device_capability_slot_index a) = Ok dev" "capability_type dev = Device"
      "object_pointer dev \<noteq> 0" "is_irq_in_device_set (arg_irq_number a) (mem (object_pointer dev))"
      "lookup_slot cs (endpoint_capability_slot_index a) = Ok ep" "capability_type ep = Endpoint"
      "bind_irq_to_endpoint table (arg_irq_number a) (endpoint_capability_slot_index a)
         (compute_owning_process_index t) = (Ok (), table')"
      "handle_irq_bind_syscall mem pt table a t = (0, table')"
proof (cases "handle_irq_bind_syscall mem pt table a t = (-1, table)")
  case False
  then obtain cs where cs: "lookup_entry pt t = Some cs" "caller_holds_irq_on_device mem cs a"
    "caller_holds_endpoint cs (endpoint_capability_slot_index a)"
    "handle_irq_bind_syscall mem pt table a t = install_irq_binding table a t"
    by (auto simp: handle_irq_bind_syscall_def validate_and_install_irq_binding_def
        split: option.splits if_splits)
  from cs(2) obtain dev where dev: "lookup_slot cs (device_capability_slot_index a) = Ok dev"
    "capability_type dev = Device" "object_pointer dev \<noteq> 0"
    "is_irq_in_device_set (arg_irq_number a) (mem (object_pointer dev))"
    by (auto simp: caller_holds_irq_on_device_def read_device_capability_data_def
        dereference_device_capability_data_def split: option.splits sum.splits if_splits)
  from cs(3) obtain ep where ep: "lookup_slot cs (endpoint_capability_slot_index a) = Ok ep"
    "capability_type ep = Endpoint"
    by (auto simp: caller_holds_endpoint_def split: sum.splits)
  obtain r table' where r: "bind_irq_to_endpoint table (arg_irq_number a) (endpoint_capability_slot_index a)
      (compute_owning_process_index t) = (r, table')" by (metis surj_pair)
  show thesis
  proof (cases r)
    case (Inl e)
    then show thesis
      using r cs(4) False bind_err [of table] by (auto simp: install_irq_binding_def table_bind_call_def translate_bind_result_def)
  next
    case (Inr u)
    then show thesis
      using r cs dev ep by (intro bound [of cs dev ep table'])
        (simp_all add: install_irq_binding_def table_bind_call_def translate_bind_result_def)
  qed
qed (rule refused)

text \<open>A driver process with a device capability in slot 0 and an endpoint in slot 1.\<close>

definition sample_driver_space :: CapabilitySpace where
  "sample_driver_space =
     write_slot (write_slot new_space 0 (null_slot\<lparr> state := Valid, capability_type := Device, object_pointer := 64 \<rparr>))
       1 (null_slot\<lparr> state := Valid, capability_type := Endpoint \<rparr>)"

section \<open>Properties\<close>

text \<open>
  C17. An interrupt is bound only on authority. The system call returns 0 only for a caller whose
  capability space holds, in the two named slots, a usable device capability that lists the interrupt
  and a usable endpoint capability, and only if the interrupt was unbound; the table then maps the
  interrupt to that endpoint slot and process and every other interrupt as before. Any other outcome
  is -1 with the table unchanged. No interrupt ever has two active bindings.
\<close>

theorem irq_bind_requires_authority:
  assumes "irq_table_wf table"
  shows "case handle_irq_bind_syscall mem pt table a t of (code, table') \<Rightarrow>
    irq_table_wf table' \<and>
    (if code = 0 then
       (\<exists>cs dev ep. lookup_entry pt t = Some cs \<and>
          lookup_slot cs (device_capability_slot_index a) = Ok dev \<and> capability_type dev = Device \<and>
          object_pointer dev \<noteq> 0 \<and> is_irq_in_device_set (arg_irq_number a) (mem (object_pointer dev)) \<and>
          lookup_slot cs (endpoint_capability_slot_index a) = Ok ep \<and> capability_type ep = Endpoint) \<and>
       lookup_binding_for_irq table (arg_irq_number a) = None \<and>
       (\<forall>irq. lookup_binding_for_irq table' irq =
          (if irq = arg_irq_number a
           then Some \<lparr> irq_number = irq, bound_endpoint_slot_index = endpoint_capability_slot_index a,
             owning_process_index = ucast (t AND 0xFF), is_active = True \<rparr>
           else lookup_binding_for_irq table irq))
     else code = -1 \<and> table' = table)"
proof (cases rule: handle_irq_bind_cases [of mem pt table a t])
  case refused
  then show ?thesis using assms by simp
next
  case (bound cs dev ep table')
  have "lookup_binding_for_irq table (arg_irq_number a) = None"
    using bind_ok_cases [OF assms bound(8)] by metis
  moreover have "irq_table_wf table'" using bound(8) by (rule bind_ok_wf [OF assms])
  moreover have "lookup_binding_for_irq table' irq =
      (if irq = arg_irq_number a
       then Some \<lparr> irq_number = irq, bound_endpoint_slot_index = endpoint_capability_slot_index a,
         owning_process_index = ucast (t AND 0xFF), is_active = True \<rparr>
       else lookup_binding_for_irq table irq)" for irq
    using bind_ok_lookup [OF assms bound(8), of irq] by (simp add: compute_owning_process_index_def)
  ultimately show ?thesis using bound(1-7,9) by auto
qed

theorem irq_bind_requires_authority_witness:
  "case handle_irq_bind_syscall (\<lambda>_. empty_device\<lparr> irq_set := [5, 255, 255, 255] \<rparr>)
      (snd (insert_entry new_process_table 2 sample_driver_space)) new_irq_table
      (build_irq_bind_arguments 5 0 1) 2 of
     (code, table') \<Rightarrow> code = 0 \<and> lookup_binding_for_irq table' 5 =
       Some \<lparr> irq_number = 5, bound_endpoint_slot_index = 1, owning_process_index = 2, is_active = True \<rparr>"
proof -
  let ?mem = "\<lambda>_. empty_device\<lparr> irq_set := [5, 255, 255, 255] \<rparr>"
  let ?pt = "snd (insert_entry new_process_table 2 sample_driver_space)"
  have "lookup_entry ?pt 2 = Some sample_driver_space"
    by (simp add: insert_entry_def validate_thread_identifier_bounds_def new_process_table_def
        MAXIMUM_THREADS_def lookup_entry_eq Let_def)
  moreover have "lookup_slot sample_driver_space 0 = Ok (null_slot\<lparr> state := Valid, capability_type := Device, object_pointer := 64 \<rparr>)"
    "lookup_slot sample_driver_space 1 = Ok (null_slot\<lparr> state := Valid, capability_type := Endpoint \<rparr>)"
    by (simp_all add: sample_driver_space_def lookup_slot_Inr is_valid_def cspace.read_write)
  ultimately have "fst (handle_irq_bind_syscall ?mem ?pt new_irq_table (build_irq_bind_arguments 5 0 1) 2) = 0"
    by (simp add: handle_irq_bind_syscall_def validate_and_install_irq_binding_def
        caller_holds_irq_on_device_def read_device_capability_data_def build_irq_bind_arguments_def
        dereference_device_capability_data_def is_irq_in_device_set_def check_irq_slot_matches_def IRQ_NONE_def
        caller_holds_endpoint_def install_irq_binding_def table_bind_call_def bind_irq_to_endpoint_def
        find_new_irq_table ok_or_def translate_bind_result_def empty_device_def)
  then show ?thesis
    using irq_bind_requires_authority [OF irq_table_wf_new, where mem = ?mem and pt = ?pt
        and a = "build_irq_bind_arguments 5 0 1" and t = 2]
    by (auto simp: build_irq_bind_arguments_def)
qed

text \<open>
  C18. The memory-mapped I/O check is exact interval containment for every device whose range ends
  below the last address: a request is accepted exactly when it lies inside the device's range, with
  the ends computed without wrap-around.
\<close>

theorem mmio_bounds_check_is_containment:
  assumes "unat (mmio_base_address d) + unat (mmio_size d) < 2 ^ 64 - 1"
  shows "validate_mmio_mapping_request addr len d = Ok () \<longleftrightarrow>
    unat (mmio_base_address d) \<le> unat addr \<and>
    unat addr + unat len \<le> unat (mmio_base_address d) + unat (mmio_size d)"
  using assms
  by (auto simp: validate_mmio_mapping_request_def convert_bounds_check_to_result_def
      is_mmio_address_within_device_bounds_def Let_def word_le_nat_alt unat_saturating_add unat_ucast_up)

theorem mmio_bounds_check_is_containment_witness:
  "validate_mmio_mapping_request 0xFEC01000 0x1000 (empty_device\<lparr> mmio_base_address := 0xFEC00000, mmio_size := 0x2000 \<rparr>) = Ok ()"
  using mmio_bounds_check_is_containment
    [of "empty_device\<lparr> mmio_base_address := 0xFEC00000, mmio_size := 0x2000 \<rparr>" "0xFEC01000" "0x1000"]
  by simp

end
