(* ===== verification/Syscall_Dispatch.thy ===== *)
theory Syscall_Dispatch
  imports Ipc_Claims Device_Irq Audit_Log
begin

text \<open>
  The system-call layer: the kernel's global state (\<open>syscall/kernel_ipc_state.rs\<close>), the argument
  registers (\<open>syscall/kernel_syscall_registers.rs\<close>), the IPC handlers
  (\<open>syscall/ipc_dispatch_handlers.rs\<close>) and the dispatcher (\<open>syscall/dispatch.rs\<close>). This is the host
  configuration of the dispatcher; the serial and password calls, which drive bare-metal devices,
  are compiled out of it.
\<close>

section \<open>Global state\<close>

record SyscallRegisters =
  reg_endpoint_slot :: u64
  reg_cap_slot :: u64
  reg_timeout_ticks :: u64
  reg_message_zero :: u64
  reg_message_one :: u64
  reg_message_two :: u64
  reg_capability :: u64

record KernelState =
  ks_endpoint_pool :: EndpointPool
  ks_wait_for_graph :: WaitForGraph
  ks_thread_pool :: "Thread list"
  ks_process_table :: ProcessTable
  ks_irq_table :: IrqBindingTable
  ks_registers :: SyscallRegisters

definition kernel_thread_at :: "KernelState \<Rightarrow> usize \<Rightarrow> Thread option" where
  "kernel_thread_at ks thread_index =
     (if thread_index \<ge> MAXIMUM_THREADS then None else Some (ks_thread_pool ks ! thread_index))"

section \<open>Result encoding\<close>

definition error_discriminant :: "IpcError \<Rightarrow> int" where
  "error_discriminant e = (case e of
      Timeout \<Rightarrow> 0 | WouldDeadlock \<Rightarrow> 1 | EndpointRevoked \<Rightarrow> 2 | IpcSlotOccupied \<Rightarrow> 3
    | GrantRightNotHeld \<Rightarrow> 4 | RightsExceedSender \<Rightarrow> 5 | ReplyCapabilityAlreadyUsed \<Rightarrow> 6
    | ReplySlotOccupied \<Rightarrow> 7 | ReplyRevoked \<Rightarrow> 8 | InvalidTimeout \<Rightarrow> 9 | QueueFull \<Rightarrow> 10)"

definition encode_ipc_error_as_return_code :: "IpcError \<Rightarrow> int" where
  "encode_ipc_error_as_return_code e = - error_discriminant e - 1"

definition encode_ipc_result_send :: "(unit, IpcError) result \<Rightarrow> int" where
  "encode_ipc_result_send r = (case r of Ok _ \<Rightarrow> 0 | Err e \<Rightarrow> encode_ipc_error_as_return_code e)"

definition encode_ipc_result_receive :: "(IpcMessage, IpcError) result \<Rightarrow> int" where
  "encode_ipc_result_receive r = (case r of Ok _ \<Rightarrow> 0 | Err e \<Rightarrow> encode_ipc_error_as_return_code e)"

section \<open>Arguments\<close>

definition build_ipc_message_from_syscall_registers :: "SyscallRegisters \<Rightarrow> IpcMessage" where
  "build_ipc_message_from_syscall_registers regs =
     \<lparr> register_zero = reg_message_zero regs, register_one = reg_message_one regs,
       register_two = reg_message_two regs, register_three = 0, badge = 0 \<rparr>"

definition validate_slot_index_fits_u8 :: "u64 \<Rightarrow> (u8, IpcError) result" where
  "validate_slot_index_fits_u8 raw_value =
     (if unat raw_value < 256 then Ok (ucast raw_value) else Err EndpointRevoked)"

definition resolve_endpoint_index_from_capability_space :: "CapabilitySpace \<Rightarrow> u8 \<Rightarrow> (usize, IpcError) result" where
  "resolve_endpoint_index_from_capability_space cs endpoint_slot_index =
     (case lookup_slot cs endpoint_slot_index of
        Err _ \<Rightarrow> Err EndpointRevoked
      | Ok slot \<Rightarrow>
        if capability_type slot \<noteq> Endpoint then Err EndpointRevoked
        else Ok (unat (object_pointer slot)))"

record IpcSendArguments =
  send_endpoint_slot_index :: u8
  send_capability_slot_index :: u8
  send_destination_slot :: u8
  send_timeout_ticks :: u64

definition load_ipc_send_arguments :: "SyscallRegisters \<Rightarrow> (IpcSendArguments, IpcError) result" where
  "load_ipc_send_arguments regs =
     and_then (validate_slot_index_fits_u8 (reg_endpoint_slot regs)) (\<lambda>ep.
     and_then (validate_slot_index_fits_u8 (reg_cap_slot regs)) (\<lambda>cap.
     and_then (validate_slot_index_fits_u8 (reg_capability regs)) (\<lambda>dst.
       Ok \<lparr> send_endpoint_slot_index = ep, send_capability_slot_index = cap,
            send_destination_slot = dst, send_timeout_ticks = reg_timeout_ticks regs \<rparr>)))"

record IpcReceiveArguments =
  receive_endpoint_slot_index :: u8
  receive_destination_slot :: u8

definition load_ipc_receive_arguments :: "SyscallRegisters \<Rightarrow> (IpcReceiveArguments, IpcError) result" where
  "load_ipc_receive_arguments regs =
     and_then (validate_slot_index_fits_u8 (reg_endpoint_slot regs)) (\<lambda>ep.
     and_then (validate_slot_index_fits_u8 (reg_capability regs)) (\<lambda>dst.
       Ok \<lparr> receive_endpoint_slot_index = ep, receive_destination_slot = dst \<rparr>))"

record IpcCallArguments =
  call_endpoint_slot_index :: u8
  call_capability_slot_index :: u8
  call_destination_slot :: u8
  call_timeout_ticks :: u64

definition load_ipc_call_arguments :: "SyscallRegisters \<Rightarrow> (IpcCallArguments, IpcError) result" where
  "load_ipc_call_arguments regs =
     and_then (validate_slot_index_fits_u8 (reg_endpoint_slot regs)) (\<lambda>ep.
     and_then (validate_slot_index_fits_u8 (reg_cap_slot regs)) (\<lambda>cap.
     and_then (validate_slot_index_fits_u8 (reg_capability regs)) (\<lambda>dst.
       Ok \<lparr> call_endpoint_slot_index = ep, call_capability_slot_index = cap,
            call_destination_slot = dst, call_timeout_ticks = reg_timeout_ticks regs \<rparr>)))"

section \<open>The IPC handlers\<close>

definition call_ipc_send ::
  "u32 \<Rightarrow> IpcMessage \<Rightarrow> IpcSendArguments \<Rightarrow> usize \<Rightarrow> CapabilitySpace \<Rightarrow> KernelState \<Rightarrow>
   (unit, IpcError) result \<times> KernelState" where
  "call_ipc_send t m a endpoint_index cs ks =
     (case kernel_thread_at ks (unat t) of
        None \<Rightarrow> (Err EndpointRevoked, ks)
      | Some th \<Rightarrow>
        (let (r, pool', th') = ipc_send t m (send_capability_slot_index a) (send_destination_slot a)
               endpoint_index (send_timeout_ticks a) 0 (ks_endpoint_pool ks) th cs
         in (r, ks\<lparr> ks_endpoint_pool := pool', ks_thread_pool := (ks_thread_pool ks)[unat t := th'] \<rparr>)))"

definition perform_ipc_send ::
  "u32 \<Rightarrow> IpcMessage \<Rightarrow> IpcSendArguments \<Rightarrow> KernelState \<Rightarrow> (unit, IpcError) result \<times> KernelState" where
  "perform_ipc_send t m a ks =
     (case lookup_entry (ks_process_table ks) t of
        None \<Rightarrow> (Err EndpointRevoked, ks)
      | Some cs \<Rightarrow>
        (case resolve_endpoint_index_from_capability_space cs (send_endpoint_slot_index a) of
           Err e \<Rightarrow> (Err e, ks)
         | Ok endpoint_index \<Rightarrow> call_ipc_send t m a endpoint_index cs ks))"

definition dispatch_ipc_send :: "u32 \<Rightarrow> KernelState \<Rightarrow> int \<times> KernelState" where
  "dispatch_ipc_send t ks =
     (case load_ipc_send_arguments (ks_registers ks) of
        Err e \<Rightarrow> (encode_ipc_error_as_return_code e, ks)
      | Ok a \<Rightarrow>
        (let (r, ks') = perform_ipc_send t (build_ipc_message_from_syscall_registers (ks_registers ks)) a ks
         in (encode_ipc_result_send r, ks')))"

definition call_ipc_receive ::
  "u32 \<Rightarrow> IpcReceiveArguments \<Rightarrow> usize \<Rightarrow> CapabilitySpace \<Rightarrow> KernelState \<Rightarrow>
   (IpcMessage, IpcError) result \<times> KernelState" where
  "call_ipc_receive t a endpoint_index cs ks =
     (case kernel_thread_at ks (unat t) of
        None \<Rightarrow> (Err EndpointRevoked, ks)
      | Some th \<Rightarrow>
        (let (r, pool', th', cs') = ipc_receive t (receive_destination_slot a) endpoint_index
               (ks_endpoint_pool ks) th cs None CAPABILITY_TRANSFER_NONE_SENTINEL None False 0
         in (r, ks\<lparr> ks_endpoint_pool := pool', ks_thread_pool := (ks_thread_pool ks)[unat t := th'],
              ks_process_table := write_entry (ks_process_table ks) t cs' \<rparr>)))"

definition perform_ipc_receive ::
  "u32 \<Rightarrow> IpcReceiveArguments \<Rightarrow> KernelState \<Rightarrow> (IpcMessage, IpcError) result \<times> KernelState" where
  "perform_ipc_receive t a ks =
     (case lookup_entry (ks_process_table ks) t of
        None \<Rightarrow> (Err EndpointRevoked, ks)
      | Some cs \<Rightarrow>
        (case resolve_endpoint_index_from_capability_space cs (receive_endpoint_slot_index a) of
           Err e \<Rightarrow> (Err e, ks)
         | Ok endpoint_index \<Rightarrow> call_ipc_receive t a endpoint_index cs ks))"

definition dispatch_ipc_receive :: "u32 \<Rightarrow> KernelState \<Rightarrow> int \<times> KernelState" where
  "dispatch_ipc_receive t ks =
     (case load_ipc_receive_arguments (ks_registers ks) of
        Err e \<Rightarrow> (encode_ipc_error_as_return_code e, ks)
      | Ok a \<Rightarrow> (let (r, ks') = perform_ipc_receive t a ks in (encode_ipc_result_receive r, ks')))"

text \<open>As for \<open>ipc_call\<close>, \<open>None\<close> stands for a call that never returns.\<close>

definition call_ipc_call ::
  "u32 \<Rightarrow> IpcMessage \<Rightarrow> IpcCallArguments \<Rightarrow> usize \<Rightarrow> CapabilitySpace \<Rightarrow> KernelState \<Rightarrow>
   ((unit, IpcError) result \<times> KernelState) option" where
  "call_ipc_call t m a endpoint_index cs ks =
     (case kernel_thread_at ks (unat t) of
        None \<Rightarrow> Some (Err EndpointRevoked, ks)
      | Some th \<Rightarrow>
        (case ipc_call t m (call_capability_slot_index a) (call_destination_slot a) endpoint_index
            (call_timeout_ticks a) 0 (ks_endpoint_pool ks) th cs (ks_wait_for_graph ks) of
           None \<Rightarrow> None
         | Some (r, pool', th', g') \<Rightarrow>
           Some (r, ks\<lparr> ks_endpoint_pool := pool', ks_thread_pool := (ks_thread_pool ks)[unat t := th'],
             ks_wait_for_graph := g' \<rparr>)))"

definition perform_ipc_call ::
  "u32 \<Rightarrow> IpcMessage \<Rightarrow> IpcCallArguments \<Rightarrow> KernelState \<Rightarrow> ((unit, IpcError) result \<times> KernelState) option" where
  "perform_ipc_call t m a ks =
     (case lookup_entry (ks_process_table ks) t of
        None \<Rightarrow> Some (Err EndpointRevoked, ks)
      | Some cs \<Rightarrow>
        (case resolve_endpoint_index_from_capability_space cs (call_endpoint_slot_index a) of
           Err e \<Rightarrow> Some (Err e, ks)
         | Ok endpoint_index \<Rightarrow> call_ipc_call t m a endpoint_index cs ks))"

definition dispatch_ipc_call :: "u32 \<Rightarrow> KernelState \<Rightarrow> (int \<times> KernelState) option" where
  "dispatch_ipc_call t ks =
     (case load_ipc_call_arguments (ks_registers ks) of
        Err e \<Rightarrow> Some (encode_ipc_error_as_return_code e, ks)
      | Ok a \<Rightarrow>
        map_option (\<lambda>(r, ks'). (encode_ipc_result_send r, ks'))
          (perform_ipc_call t (build_ipc_message_from_syscall_registers (ks_registers ks)) a ks))"

section \<open>The dispatcher\<close>

definition SYSCALL_NUMBER_IPC_SEND :: u64 where "SYSCALL_NUMBER_IPC_SEND = 1"
definition SYSCALL_NUMBER_IPC_RECEIVE :: u64 where "SYSCALL_NUMBER_IPC_RECEIVE = 2"
definition SYSCALL_NUMBER_IPC_CALL :: u64 where "SYSCALL_NUMBER_IPC_CALL = 3"
definition SYSCALL_NUMBER_NOTIFY_SIGNAL :: u64 where "SYSCALL_NUMBER_NOTIFY_SIGNAL = 4"
definition SYSCALL_NUMBER_NOTIFY_WAIT :: u64 where "SYSCALL_NUMBER_NOTIFY_WAIT = 5"
definition SYSCALL_NUMBER_NOTIFY_POLL :: u64 where "SYSCALL_NUMBER_NOTIFY_POLL = 6"
definition SYSCALL_NUMBER_PROCESS_EXIT :: u64 where "SYSCALL_NUMBER_PROCESS_EXIT = 7"
definition SYSCALL_NUMBER_AUDIT_READ :: u64 where "SYSCALL_NUMBER_AUDIT_READ = 8"
definition SYSCALL_NUMBER_DEVICE_MAP_MMIO :: u64 where "SYSCALL_NUMBER_DEVICE_MAP_MMIO = 9"
definition SYSCALL_NUMBER_IRQ_BIND :: u64 where "SYSCALL_NUMBER_IRQ_BIND = 10"
definition SYSCALL_NUMBER_FRAME_MAP :: u64 where "SYSCALL_NUMBER_FRAME_MAP = 11"

lemmas syscall_numbers =
  SYSCALL_NUMBER_IPC_SEND_def SYSCALL_NUMBER_IPC_RECEIVE_def SYSCALL_NUMBER_IPC_CALL_def
  SYSCALL_NUMBER_NOTIFY_SIGNAL_def SYSCALL_NUMBER_NOTIFY_WAIT_def SYSCALL_NUMBER_NOTIFY_POLL_def
  SYSCALL_NUMBER_PROCESS_EXIT_def SYSCALL_NUMBER_AUDIT_READ_def SYSCALL_NUMBER_DEVICE_MAP_MMIO_def
  SYSCALL_NUMBER_IRQ_BIND_def SYSCALL_NUMBER_FRAME_MAP_def

text \<open>A handler either returns a code or never returns to the caller.\<close>

datatype syscall_outcome = Returns int KernelState | NeverReturns

definition or_else :: "'a option \<Rightarrow> 'a option \<Rightarrow> 'a option" where
  "or_else a b = (case a of None \<Rightarrow> b | Some x \<Rightarrow> Some x)"

definition returns :: "int \<times> KernelState \<Rightarrow> syscall_outcome" where
  "returns r = Returns (fst r) (snd r)"

definition handle_ipc_range_syscall :: "u64 \<Rightarrow> u32 \<Rightarrow> KernelState \<Rightarrow> syscall_outcome option" where
  "handle_ipc_range_syscall n t ks =
     (if n = SYSCALL_NUMBER_IPC_SEND then Some (returns (dispatch_ipc_send t ks))
      else if n = SYSCALL_NUMBER_IPC_RECEIVE then Some (returns (dispatch_ipc_receive t ks))
      else if n = SYSCALL_NUMBER_IPC_CALL then
        Some (case dispatch_ipc_call t ks of None \<Rightarrow> NeverReturns | Some r \<Rightarrow> returns r)
      else None)"

definition handle_notify_signal_syscall :: int where "handle_notify_signal_syscall = -1"
definition handle_notify_wait_syscall :: int where "handle_notify_wait_syscall = -1"
definition handle_notify_poll_syscall :: int where "handle_notify_poll_syscall = -1"

definition handle_notify_range_syscall :: "u64 \<Rightarrow> KernelState \<Rightarrow> syscall_outcome option" where
  "handle_notify_range_syscall n ks =
     (if n = SYSCALL_NUMBER_NOTIFY_SIGNAL then Some (Returns handle_notify_signal_syscall ks)
      else if n = SYSCALL_NUMBER_NOTIFY_WAIT then Some (Returns handle_notify_wait_syscall ks)
      else if n = SYSCALL_NUMBER_NOTIFY_POLL then Some (Returns handle_notify_poll_syscall ks)
      else None)"

text \<open>
  The exit handler runs four empty steps and then spins forever; the teardown of
  \<open>Process_Table\<close> is not called from it.
\<close>

definition handle_process_exit_syscall :: "u32 \<Rightarrow> syscall_outcome" where
  "handle_process_exit_syscall t = NeverReturns"

definition handle_process_lifecycle_syscall :: "u64 \<Rightarrow> u32 \<Rightarrow> KernelState \<Rightarrow> syscall_outcome option" where
  "handle_process_lifecycle_syscall n t ks =
     (if n = SYSCALL_NUMBER_PROCESS_EXIT then Some (handle_process_exit_syscall t)
      else if n = SYSCALL_NUMBER_AUDIT_READ then Some (Returns handle_audit_read_syscall ks)
      else None)"

definition handle_device_range_syscall ::
  "(u64 \<Rightarrow> DeviceCapabilityData) \<Rightarrow> u64 \<Rightarrow> u32 \<Rightarrow> KernelState \<Rightarrow> syscall_outcome option" where
  "handle_device_range_syscall device_memory n t ks =
     (if n = SYSCALL_NUMBER_DEVICE_MAP_MMIO then Some (Returns handle_device_map_mmio_syscall ks)
      else if n = SYSCALL_NUMBER_IRQ_BIND then
        (let regs = ks_registers ks;
             a = build_irq_bind_arguments (reg_message_zero regs) (reg_message_one regs) (reg_cap_slot regs);
             (code, table') = handle_irq_bind_syscall device_memory (ks_process_table ks) (ks_irq_table ks) a t
         in Some (Returns code (ks\<lparr> ks_irq_table := table' \<rparr>)))
      else None)"

definition handle_server_range_syscall ::
  "(u64 \<Rightarrow> FrameCapabilityData) \<Rightarrow> u64 \<Rightarrow> u32 \<Rightarrow> KernelState \<Rightarrow> syscall_outcome option" where
  "handle_server_range_syscall frame_memory n t ks =
     (if n = SYSCALL_NUMBER_FRAME_MAP then
        Some (Returns (handle_frame_map_syscall frame_memory (ks_process_table ks)
          (ucast (reg_cap_slot (ks_registers ks))) t) ks)
      else None)"

definition dispatch_syscall ::
  "(u64 \<Rightarrow> DeviceCapabilityData) \<Rightarrow> (u64 \<Rightarrow> FrameCapabilityData) \<Rightarrow> u64 \<Rightarrow> u32 \<Rightarrow> KernelState \<Rightarrow>
   syscall_outcome" where
  "dispatch_syscall device_memory frame_memory n t ks =
     (case or_else (handle_ipc_range_syscall n t ks)
          (or_else (handle_notify_range_syscall n ks)
          (or_else (handle_process_lifecycle_syscall n t ks)
          (or_else (handle_device_range_syscall device_memory n t ks)
            (handle_server_range_syscall frame_memory n t ks)))) of
        Some r \<Rightarrow> r
      | None \<Rightarrow> Returns (-1) ks)"

end
