(* ===== verification/Syscall_Claims.thy ===== *)
theory Syscall_Claims
  imports Syscall_Dispatch
begin

text \<open>
  What a system call can and cannot do to the kernel's state: frame lemmas for the IPC operations and
  their handlers, the global invariant, and the properties of the dispatcher.
\<close>

section \<open>Frames\<close>

lemma ipc_send_frame:
  assumes "ipc_send t m src dst i tm tick pool th cs = (r, pool', th')"
  shows "(\<forall>j. j \<noteq> i \<longrightarrow> pool' ! j = pool ! j) \<and> register_save_area th' = register_save_area th"
  using assms
  by (auto simp: ipc_send_def handle_no_receiver_present_def Let_def
      split: option.splits prod.splits if_splits sum.splits)

lemma ipc_receive_frame:
  assumes "ipc_receive t dst i pool th cs None 255 None False 0 = (r, pool', th', cs')"
  shows "(\<forall>j. j \<noteq> i \<longrightarrow> pool' ! j = pool ! j) \<and> register_save_area th' = register_save_area th \<and> cs' = cs"
  using assms
  by (auto simp: ipc_receive_def handle_no_sender_present_def execute_receive_rendezvous_def
      perform_rendezvous_with_optional_sender_def perform_rendezvous_eq Let_def
      split: option.splits prod.splits if_splits sum.splits)

lemma ipc_call_frame:
  assumes "ipc_call t m src dst i tm tick pool th cs g = Some (r, pool', th', g')"
  shows "(\<forall>j. j \<noteq> i \<longrightarrow> pool' ! j = pool ! j) \<and> register_save_area th' = register_save_area th"
  using assms
  by (auto simp: ipc_call_def Let_def dest: ipc_send_frame
      split: option.splits prod.splits sum.splits)

lemma write_entry_same: "lookup_entry pt t = Some cs \<Longrightarrow> write_entry pt t cs = pt"
  by (auto simp: write_entry_def lookup_entry_def list_update_id split: option.splits)
    (metis list_update_id ProcessTable.surjective ProcessTable.update_convs(1) old.unit.exhaust)

text \<open>The caller holds a usable endpoint capability for endpoint \<open>i\<close> in the slot it named.\<close>

definition holds_endpoint :: "KernelState \<Rightarrow> u32 \<Rightarrow> usize \<Rightarrow> bool" where
  "holds_endpoint ks t i \<longleftrightarrow>
     (\<exists>cs slot. lookup_entry (ks_process_table ks) t = Some cs \<and>
        unat (reg_endpoint_slot (ks_registers ks)) < 256 \<and>
        lookup_slot cs (ucast (reg_endpoint_slot (ks_registers ks))) = Ok slot \<and>
        capability_type slot = Endpoint \<and> unat (object_pointer slot) = i)"

definition framed :: "u32 \<Rightarrow> KernelState \<Rightarrow> KernelState \<Rightarrow> bool" where
  "framed t ks ks' \<longleftrightarrow>
     ks_process_table ks' = ks_process_table ks \<and> ks_registers ks' = ks_registers ks \<and>
     length (ks_thread_pool ks') = length (ks_thread_pool ks) \<and>
     (\<forall>i. i \<noteq> unat t \<longrightarrow> ks_thread_pool ks' ! i = ks_thread_pool ks ! i) \<and>
     register_save_area (ks_thread_pool ks' ! unat t) = register_save_area (ks_thread_pool ks ! unat t) \<and>
     (\<forall>i. ks_endpoint_pool ks' ! i \<noteq> ks_endpoint_pool ks ! i \<longrightarrow> holds_endpoint ks t i)"

lemma framed_refl [simp]: "framed t ks ks"
  by (simp add: framed_def)

lemma framed_ipc:
  assumes "kernel_thread_at ks (unat t) = Some th" "register_save_area th' = register_save_area th"
    "\<forall>j. j \<noteq> i \<longrightarrow> pool' ! j = ks_endpoint_pool ks ! j" "holds_endpoint ks t i"
  shows "framed t ks (ks\<lparr> ks_endpoint_pool := pool', ks_thread_pool := (ks_thread_pool ks)[unat t := th'] \<rparr>)"
    and "framed t ks (ks\<lparr> ks_endpoint_pool := pool', ks_thread_pool := (ks_thread_pool ks)[unat t := th'],
      ks_wait_for_graph := g \<rparr>)"
proof -
  have "register_save_area ((ks_thread_pool ks)[unat t := th'] ! unat t) =
      register_save_area (ks_thread_pool ks ! unat t)"
    using assms(1,2) by (cases "unat t < length (ks_thread_pool ks)")
      (auto simp: kernel_thread_at_def list_update_beyond not_less split: if_splits)
  then show "framed t ks (ks\<lparr> ks_endpoint_pool := pool', ks_thread_pool := (ks_thread_pool ks)[unat t := th'] \<rparr>)"
    "framed t ks (ks\<lparr> ks_endpoint_pool := pool', ks_thread_pool := (ks_thread_pool ks)[unat t := th'],
      ks_wait_for_graph := g \<rparr>)"
    using assms(3,4) by (auto simp: framed_def)
qed

text \<open>The arguments and the endpoint index both come from the endpoint register.\<close>

lemma load_args_endpoint:
  "load_ipc_send_arguments regs = Ok sa \<Longrightarrow>
     unat (reg_endpoint_slot regs) < 256 \<and> send_endpoint_slot_index sa = ucast (reg_endpoint_slot regs)"
  "load_ipc_receive_arguments regs = Ok ra \<Longrightarrow>
     unat (reg_endpoint_slot regs) < 256 \<and> receive_endpoint_slot_index ra = ucast (reg_endpoint_slot regs)"
  "load_ipc_call_arguments regs = Ok ca \<Longrightarrow>
     unat (reg_endpoint_slot regs) < 256 \<and> call_endpoint_slot_index ca = ucast (reg_endpoint_slot regs)"
  by (auto simp: load_ipc_send_arguments_def load_ipc_receive_arguments_def load_ipc_call_arguments_def
      validate_slot_index_fits_u8_def and_then_def split: if_splits sum.splits)

lemma resolve_endpoint_Ok:
  "resolve_endpoint_index_from_capability_space cs s = Ok i \<longleftrightarrow>
     (\<exists>slot. lookup_slot cs s = Ok slot \<and> capability_type slot = Endpoint \<and> unat (object_pointer slot) = i)"
  by (auto simp: resolve_endpoint_index_from_capability_space_def split: sum.splits)

lemma dispatch_ipc_send_framed:
  assumes "dispatch_ipc_send t ks = (code, ks')"
  shows "framed t ks ks' \<and> ks_irq_table ks' = ks_irq_table ks"
proof -
  { fix a cs i th r pool' th'
    assume *: "load_ipc_send_arguments (ks_registers ks) = Ok a"
      "lookup_entry (ks_process_table ks) t = Some cs"
      "resolve_endpoint_index_from_capability_space cs (send_endpoint_slot_index a) = Ok i"
      "kernel_thread_at ks (unat t) = Some th"
      "ipc_send t (build_ipc_message_from_syscall_registers (ks_registers ks)) (send_capability_slot_index a)
        (send_destination_slot a) i (send_timeout_ticks a) 0 (ks_endpoint_pool ks) th cs = (r, pool', th')"
    have "holds_endpoint ks t i"
      using * load_args_endpoint(1) [OF *(1)] by (auto simp: holds_endpoint_def resolve_endpoint_Ok)
    then have "framed t ks (ks\<lparr> ks_endpoint_pool := pool', ks_thread_pool := (ks_thread_pool ks)[unat t := th'] \<rparr>)"
      using ipc_send_frame [OF *(5)] *(4) by (intro framed_ipc(1)) auto }
  then show ?thesis
    using assms by (auto simp: dispatch_ipc_send_def perform_ipc_send_def call_ipc_send_def Let_def
        split: sum.splits option.splits prod.splits)
qed

lemma dispatch_ipc_receive_framed:
  assumes "dispatch_ipc_receive t ks = (code, ks')"
  shows "framed t ks ks' \<and> ks_irq_table ks' = ks_irq_table ks"
proof -
  { fix a cs i th r pool' th' cs'
    assume *: "load_ipc_receive_arguments (ks_registers ks) = Ok a"
      "lookup_entry (ks_process_table ks) t = Some cs"
      "resolve_endpoint_index_from_capability_space cs (receive_endpoint_slot_index a) = Ok i"
      "kernel_thread_at ks (unat t) = Some th"
      "ipc_receive t (receive_destination_slot a) i (ks_endpoint_pool ks) th cs None
        CAPABILITY_TRANSFER_NONE_SENTINEL None False 0 = (r, pool', th', cs')"
    have "holds_endpoint ks t i"
      using * load_args_endpoint(2) [OF *(1)] by (auto simp: holds_endpoint_def resolve_endpoint_Ok)
    moreover note fr = ipc_receive_frame [OF *(5) [unfolded CAPABILITY_TRANSFER_NONE_SENTINEL_def, simplified]]
    ultimately have "framed t ks (ks\<lparr> ks_endpoint_pool := pool', ks_thread_pool := (ks_thread_pool ks)[unat t := th'] \<rparr>)"
      using *(4) by (intro framed_ipc(1)) auto
    moreover have "write_entry (ks_process_table ks) t cs' = ks_process_table ks"
      using fr *(2) by (simp add: write_entry_same)
    ultimately have "framed t ks (ks\<lparr> ks_endpoint_pool := pool',
        ks_thread_pool := (ks_thread_pool ks)[unat t := th'],
        ks_process_table := write_entry (ks_process_table ks) t cs' \<rparr>)"
      by (simp add: framed_def) }
  then show ?thesis
    using assms by (auto simp: dispatch_ipc_receive_def perform_ipc_receive_def call_ipc_receive_def Let_def
        split: sum.splits option.splits prod.splits)
qed

lemma dispatch_ipc_call_framed:
  assumes "dispatch_ipc_call t ks = Some (code, ks')"
  shows "framed t ks ks' \<and> ks_irq_table ks' = ks_irq_table ks"
proof -
  { fix a cs i th r pool' th' g'
    assume *: "load_ipc_call_arguments (ks_registers ks) = Ok a"
      "lookup_entry (ks_process_table ks) t = Some cs"
      "resolve_endpoint_index_from_capability_space cs (call_endpoint_slot_index a) = Ok i"
      "kernel_thread_at ks (unat t) = Some th"
      "ipc_call t (build_ipc_message_from_syscall_registers (ks_registers ks)) (call_capability_slot_index a)
        (call_destination_slot a) i (call_timeout_ticks a) 0 (ks_endpoint_pool ks) th cs
        (ks_wait_for_graph ks) = Some (r, pool', th', g')"
    have "holds_endpoint ks t i"
      using * load_args_endpoint(3) [OF *(1)] by (auto simp: holds_endpoint_def resolve_endpoint_Ok)
    then have "framed t ks (ks\<lparr> ks_endpoint_pool := pool', ks_thread_pool := (ks_thread_pool ks)[unat t := th'],
        ks_wait_for_graph := g' \<rparr>)"
      using ipc_call_frame [OF *(5)] *(4) by (intro framed_ipc(2)) auto }
  then show ?thesis
    using assms by (auto simp: dispatch_ipc_call_def perform_ipc_call_def call_ipc_call_def Let_def
        split: sum.splits option.splits prod.splits)
qed

text \<open>The dispatcher on each group of numbers.\<close>

lemma handle_frame_map_fails: "handle_frame_map_syscall fm pt s t = -1"
  by (simp add: handle_frame_map_syscall_def validate_caller_holds_readable_frame_def split: option.splits)

lemma dispatch_syscall_eq:
  "dispatch_syscall dm fm n t ks =
     (if n = 1 then returns (dispatch_ipc_send t ks)
      else if n = 2 then returns (dispatch_ipc_receive t ks)
      else if n = 3 then (case dispatch_ipc_call t ks of None \<Rightarrow> NeverReturns | Some r \<Rightarrow> returns r)
      else if n = 7 then NeverReturns
      else if n = 8 then Returns 0 ks
      else if n = 10 then
        (let (code, table') = handle_irq_bind_syscall dm (ks_process_table ks) (ks_irq_table ks)
           (build_irq_bind_arguments (reg_message_zero (ks_registers ks)) (reg_message_one (ks_registers ks))
             (reg_cap_slot (ks_registers ks))) t
         in Returns code (ks\<lparr> ks_irq_table := table' \<rparr>))
      else Returns (-1) ks)"
  by (simp add: dispatch_syscall_def or_else_def handle_ipc_range_syscall_def handle_notify_range_syscall_def
      handle_process_lifecycle_syscall_def handle_device_range_syscall_def handle_server_range_syscall_def
      syscall_numbers handle_notify_signal_syscall_def handle_notify_wait_syscall_def
      handle_notify_poll_syscall_def handle_process_exit_syscall_def handle_audit_read_syscall_def
      handle_device_map_mmio_syscall_def handle_frame_map_fails Let_def split: prod.splits)

lemma framed_irq: "framed t ks (ks\<lparr> ks_irq_table := table \<rparr>)"
  by (simp add: framed_def)

lemma returns_iff: "returns r = Returns code ks \<longleftrightarrow> r = (code, ks)"
  by (cases r) (simp add: returns_def)

lemma dispatch_syscall_cases:
  assumes "dispatch_syscall dm fm n t ks = Returns code ks'"
  obtains (send) "n = 1" "dispatch_ipc_send t ks = (code, ks')"
  | (receive) "n = 2" "dispatch_ipc_receive t ks = (code, ks')"
  | (call) "n = 3" "dispatch_ipc_call t ks = Some (code, ks')"
  | (irq_bind) a table' where "n = 10"
      "handle_irq_bind_syscall dm (ks_process_table ks) (ks_irq_table ks) a t = (code, table')"
      "ks' = ks\<lparr> ks_irq_table := table' \<rparr>"
  | (other) "n \<notin> {1, 2, 3, 7, 10}" "ks' = ks"
proof -
  consider "n = 1" | "n = 2" | "n = 3" | "n = 7" | "n = 8" | "n = 10" | "n \<notin> {1, 2, 3, 7, 8, 10}" by blast
  then show thesis
  proof cases
    case 3
    then show thesis
      using assms call by (simp add: dispatch_syscall_eq returns_iff split: option.splits)
  next
    case 6
    then show thesis using assms irq_bind by (simp add: dispatch_syscall_eq Let_def split: prod.splits)
  qed (use assms send receive other in \<open>simp_all add: dispatch_syscall_eq returns_iff\<close>)
qed

lemma dispatch_syscall_framed:
  assumes "dispatch_syscall dm fm n t ks = Returns code ks'"
  shows "framed t ks ks'"
  using assms
  by (cases rule: dispatch_syscall_cases)
    (simp_all add: dispatch_ipc_send_framed dispatch_ipc_receive_framed dispatch_ipc_call_framed framed_irq)

section \<open>The global invariant\<close>

definition kernel_inv :: "KernelState \<Rightarrow> bool" where
  "kernel_inv ks \<longleftrightarrow>
     pool_inv (ks_endpoint_pool ks) \<and> no_edges (ks_wait_for_graph ks) \<and>
     length (ks_thread_pool ks) = MAXIMUM_THREADS \<and> table_wf (ks_process_table ks) \<and>
     irq_table_wf (ks_irq_table ks)"

definition boot_state :: "SyscallRegisters \<Rightarrow> KernelState" where
  "boot_state regs = \<lparr> ks_endpoint_pool = new_endpoint_pool, ks_wait_for_graph = new_wait_for_graph,
     ks_thread_pool = replicate MAXIMUM_THREADS new_thread, ks_process_table = new_process_table,
     ks_irq_table = new_irq_table, ks_registers = regs \<rparr>"

lemma kernel_inv_boot: "kernel_inv (boot_state regs)"
  by (simp add: kernel_inv_def boot_state_def pool_inv_new no_edges_new table_wf_new irq_table_wf_new)

lemma ipc_call_keeps_no_edges:
  "no_edges g \<Longrightarrow> ipc_call t m src dst i tm tick pool th cs g = Some (r, pool', th', g') \<Longrightarrow> no_edges g'"
  by (auto simp: ipc_call_def Let_def remove_record_no_edges split: option.splits sum.splits prod.splits)

lemma kernel_inv_update:
  "kernel_inv ks \<Longrightarrow> pool_inv pool' \<Longrightarrow>
   kernel_inv (ks\<lparr> ks_endpoint_pool := pool', ks_thread_pool := (ks_thread_pool ks)[j := th'] \<rparr>)"
  "kernel_inv ks \<Longrightarrow> pool_inv pool' \<Longrightarrow>
   kernel_inv (ks\<lparr> ks_endpoint_pool := pool', ks_thread_pool := (ks_thread_pool ks)[j := th'],
     ks_process_table := write_entry (ks_process_table ks) t cs' \<rparr>)"
  "kernel_inv ks \<Longrightarrow> pool_inv pool' \<Longrightarrow> no_edges g' \<Longrightarrow>
   kernel_inv (ks\<lparr> ks_endpoint_pool := pool', ks_thread_pool := (ks_thread_pool ks)[j := th'],
     ks_wait_for_graph := g' \<rparr>)"
  by (simp_all add: kernel_inv_def write_entry_wf)

lemma kernel_inv_D:
  assumes "kernel_inv ks"
  shows "pool_inv (ks_endpoint_pool ks)" "no_edges (ks_wait_for_graph ks)" "irq_table_wf (ks_irq_table ks)"
  using assms by (simp_all add: kernel_inv_def)

lemma dispatch_ipc_send_inv:
  assumes k: "kernel_inv ks" and d: "dispatch_ipc_send t ks = (code, ks')"
  shows "kernel_inv ks'"
  using d ipc_send_pool_inv [OF kernel_inv_D(1) [OF k]] k
  by (auto simp: dispatch_ipc_send_def perform_ipc_send_def call_ipc_send_def Let_def kernel_inv_update(1)
      split: sum.splits option.splits prod.splits)

lemma dispatch_ipc_receive_inv:
  assumes k: "kernel_inv ks" and d: "dispatch_ipc_receive t ks = (code, ks')"
  shows "kernel_inv ks'"
  using d ipc_receive_pool_inv [OF kernel_inv_D(1) [OF k]] k
  by (auto simp: dispatch_ipc_receive_def perform_ipc_receive_def call_ipc_receive_def Let_def kernel_inv_update(2)
      split: sum.splits option.splits prod.splits)

lemma dispatch_ipc_call_inv:
  assumes k: "kernel_inv ks" and d: "dispatch_ipc_call t ks = Some (code, ks')"
  shows "kernel_inv ks'"
  using d ipc_call_pool_inv [OF kernel_inv_D(1) [OF k]] ipc_call_keeps_no_edges [OF kernel_inv_D(2) [OF k]] k
  by (auto simp: dispatch_ipc_call_def perform_ipc_call_def call_ipc_call_def Let_def kernel_inv_update(3)
      split: sum.splits option.splits prod.splits)

lemma dispatch_ipc_call_returns:
  assumes "kernel_inv ks"
  shows "\<exists>code ks'. dispatch_ipc_call t ks = Some (code, ks')"
proof -
  have wf: "graph_wf (ks_wait_for_graph ks)" using assms by (simp add: kernel_inv_def no_edges_wf)
  have "(case ipc_call t m src dst i tm tick pool th cs (ks_wait_for_graph ks) of None \<Rightarrow> None
      | Some (r, pool', th', g') \<Rightarrow> Some (f r pool' th' g')) \<noteq> None" for m src dst i tm tick pool th cs
      and f :: "_ \<Rightarrow> _ \<Rightarrow> _ \<Rightarrow> _ \<Rightarrow> (unit, IpcError) result \<times> KernelState"
    using ipc_call_returns [OF wf, of t m src dst i tm tick pool th cs] by auto
  then have "call_ipc_call t m a i cs ks \<noteq> None" for m a i cs
    unfolding call_ipc_call_def by (simp split: option.split)
  then have "perform_ipc_call t m a ks \<noteq> None" for m a
    unfolding perform_ipc_call_def by (simp split: option.split sum.split)
  then have "dispatch_ipc_call t ks \<noteq> None"
    unfolding dispatch_ipc_call_def by (simp split: sum.split del: not_None_eq)
  then show ?thesis by (cases "dispatch_ipc_call t ks") auto
qed

lemma dispatch_syscall_returns:
  assumes "kernel_inv ks" "n \<noteq> 7"
  shows "\<exists>code ks'. dispatch_syscall dm fm n t ks = Returns code ks'"
proof -
  obtain code ks' where "dispatch_ipc_call t ks = Some (code, ks')"
    using dispatch_ipc_call_returns [OF assms(1)] by blast
  then show ?thesis
    using assms(2) by (simp add: dispatch_syscall_eq returns_def Let_def split_beta)
qed

lemma dispatch_syscall_unassigned:
  assumes "unat n \<notin> {1..11}"
  shows "dispatch_syscall dm fm n t ks = Returns (-1) ks"
proof -
  have "n \<noteq> 1" "n \<noteq> 2" "n \<noteq> 3" "n \<noteq> 7" "n \<noteq> 8" "n \<noteq> 10" using assms by auto
  then show ?thesis by (simp add: dispatch_syscall_eq)
qed

lemma handle_irq_bind_inv:
  "irq_table_wf table \<Longrightarrow> handle_irq_bind_syscall dm pt table a t = (code, table') \<Longrightarrow> irq_table_wf table'"
  by (cases rule: handle_irq_bind_cases [of dm pt table a t]) (auto intro: bind_ok_wf)

lemma dispatch_syscall_inv:
  assumes "kernel_inv ks" "dispatch_syscall dm fm n t ks = Returns code ks'"
  shows "kernel_inv ks'"
  using assms(2)
proof (cases rule: dispatch_syscall_cases)
  case (irq_bind a table')
  then show ?thesis
    using handle_irq_bind_inv [OF kernel_inv_D(3) [OF assms(1)] irq_bind(2)] assms(1)
    by (simp add: kernel_inv_def)
next
  case send
  then show ?thesis using dispatch_ipc_send_inv [OF assms(1)] by blast
next
  case receive
  then show ?thesis using dispatch_ipc_receive_inv [OF assms(1)] by blast
next
  case call
  then show ?thesis using dispatch_ipc_call_inv [OF assms(1)] by blast
next
  case other
  then show ?thesis using assms(1) by simp
qed

text \<open>A trap: user mode sets the argument registers, then the kernel dispatches one call.\<close>

inductive trap :: "(u64 \<Rightarrow> DeviceCapabilityData) \<Rightarrow> (u64 \<Rightarrow> FrameCapabilityData) \<Rightarrow> KernelState \<Rightarrow> KernelState \<Rightarrow> bool"
  for dm fm where
  "dispatch_syscall dm fm n t (ks\<lparr> ks_registers := regs \<rparr>) = Returns code ks' \<Longrightarrow> trap dm fm ks ks'"

lemma trap_inv: "trap dm fm ks ks' \<Longrightarrow> kernel_inv ks \<Longrightarrow> kernel_inv ks'"
  by (induction rule: trap.induct) (erule dispatch_syscall_inv [rotated], simp add: kernel_inv_def)

lemma traps_inv: "(trap dm fm)\<^sup>*\<^sup>* ks ks' \<Longrightarrow> kernel_inv ks \<Longrightarrow> kernel_inv ks'"
  by (induction rule: rtranclp_induct) (auto intro: trap_inv)

lemma trap_process_table: "trap dm fm ks ks' \<Longrightarrow> ks_process_table ks' = ks_process_table ks"
  by (induction rule: trap.induct) (drule dispatch_syscall_framed, simp add: framed_def)

lemma traps_process_table: "(trap dm fm)\<^sup>*\<^sup>* ks ks' \<Longrightarrow> ks_process_table ks' = ks_process_table ks"
  by (induction rule: rtranclp_induct) (auto dest: trap_process_table)

text \<open>
  The life of the kernel between traps: processes enter the process table and leave it through the exit sequence.
\<close>

inductive kernel_step :: "(u64 \<Rightarrow> DeviceCapabilityData) \<Rightarrow> (u64 \<Rightarrow> FrameCapabilityData) \<Rightarrow> KernelState \<Rightarrow> KernelState \<Rightarrow> bool"
  for dm fm where
  syscall: "trap dm fm ks ks' \<Longrightarrow> kernel_step dm fm ks ks'"
| enter: "insert_entry (ks_process_table ks) t cs = (r, pt') \<Longrightarrow> kernel_step dm fm ks (ks\<lparr> ks_process_table := pt' \<rparr>)"
| leave: "execute_process_exit_sequence (ks_process_table ks) t = (record, pt') \<Longrightarrow>
    kernel_step dm fm ks (ks\<lparr> ks_process_table := pt' \<rparr>)"

lemma insert_entry_wf: "table_wf pt \<Longrightarrow> insert_entry pt t cs = (r, pt') \<Longrightarrow> table_wf pt'"
  by (auto simp: insert_entry_def table_wf_def Let_def split: sum.splits)

lemma kernel_step_inv: "kernel_step dm fm ks ks' \<Longrightarrow> kernel_inv ks \<Longrightarrow> kernel_inv ks'"
proof (induction rule: kernel_step.induct)
  case (syscall ks ks')
  then show ?case by (rule trap_inv)
next
  case (enter ks t cs r pt')
  then show ?case using insert_entry_wf [of "ks_process_table ks"] by (simp add: kernel_inv_def)
next
  case (leave ks t er pt')
  then show ?case using exit_sequence_removes_space(2) [of "ks_process_table ks"] by (simp add: kernel_inv_def)
qed

lemma kernel_steps_inv: "(kernel_step dm fm)\<^sup>*\<^sup>* ks ks' \<Longrightarrow> kernel_inv ks \<Longrightarrow> kernel_inv ks'"
  by (induction rule: rtranclp_induct) (auto intro: kernel_step_inv)

text \<open>A thread without a capability space gets nothing from the kernel.\<close>

lemma no_space_no_effect:
  assumes "lookup_entry (ks_process_table ks) t = None" "n \<noteq> 7" "n \<noteq> 8"
  shows "\<exists>code < 0. dispatch_syscall dm fm n t ks = Returns code ks"
proof -
  have neg: "encode_ipc_error_as_return_code e < 0" for e
    by (cases e) (simp_all add: encode_ipc_error_as_return_code_def error_discriminant_def)
  have send: "\<exists>code < 0. dispatch_ipc_send t ks = (code, ks)"
    using assms(1) neg by (auto simp: dispatch_ipc_send_def perform_ipc_send_def encode_ipc_result_send_def split: sum.splits)
  have receive: "\<exists>code < 0. dispatch_ipc_receive t ks = (code, ks)"
    using assms(1) neg
    by (auto simp: dispatch_ipc_receive_def perform_ipc_receive_def encode_ipc_result_receive_def split: sum.splits)
  have call: "\<exists>code < 0. dispatch_ipc_call t ks = Some (code, ks)"
    using assms(1) neg by (auto simp: dispatch_ipc_call_def perform_ipc_call_def encode_ipc_result_send_def split: sum.splits)
  have irq: "handle_irq_bind_syscall dm (ks_process_table ks) (ks_irq_table ks) a t = (-1, ks_irq_table ks)" for a
    using assms(1) by (cases rule: handle_irq_bind_cases [of dm "ks_process_table ks" "ks_irq_table ks" a t]) auto
  show ?thesis
    using send receive call assms(2,3) by (auto simp: dispatch_syscall_eq returns_def irq)
qed

text \<open>A state after boot in which process 2 holds an endpoint capability in slot 1, about to send.\<close>

definition sample_registers :: SyscallRegisters where
  "sample_registers = \<lparr> reg_endpoint_slot = 1, reg_cap_slot = 255, reg_timeout_ticks = 5,
     reg_message_zero = 7, reg_message_one = 8, reg_message_two = 9, reg_capability = 0 \<rparr>"

definition sample_kernel :: KernelState where
  "sample_kernel = (boot_state sample_registers)\<lparr> ks_process_table :=
     snd (insert_entry new_process_table 2 sample_driver_space) \<rparr>"

lemma sample_trap:
  "\<exists>ks'. trap dm fm sample_kernel ks' \<and> dispatch_syscall dm fm 1 2 sample_kernel = Returns 0 ks'"
proof -
  have cs: "lookup_entry (ks_process_table sample_kernel) 2 = Some sample_driver_space"
    by (simp add: sample_kernel_def insert_entry_def validate_thread_identifier_bounds_def new_process_table_def
        MAXIMUM_THREADS_def lookup_entry_eq Let_def)
  have ep: "resolve_endpoint_index_from_capability_space sample_driver_space 1 = Ok 0"
    by (auto simp: resolve_endpoint_Ok sample_driver_space_def lookup_slot_Inr is_valid_def cspace.read_write
        null_slot_def)
  have recv: "receivers (new_endpoint_pool ! 0) = []" "senders (new_endpoint_pool ! 0) = []"
    by (simp_all add: new_endpoint_pool_def MAXIMUM_ENDPOINTS_def new_endpoint_def senders_def receivers_def)
  obtain pool' th' where
    "ipc_send 2 (build_ipc_message_from_syscall_registers sample_registers) 255 0 0 5 0 new_endpoint_pool
      new_thread sample_driver_space = (Ok (), pool', th')"
    by (rule ipc_send_no_receiver [OF pool_inv_new, of 0 2 "build_ipc_message_from_syscall_registers sample_registers"
          255 0 5 0 new_thread sample_driver_space])
      (simp_all add: recv MAXIMUM_ENDPOINTS_def deadline_ok_def)
  then obtain ks' where "dispatch_syscall dm fm 1 2 sample_kernel = Returns 0 ks'"
    using cs ep
    by (simp add: dispatch_syscall_eq returns_def dispatch_ipc_send_def perform_ipc_send_def call_ipc_send_def
        load_ipc_send_arguments_def validate_slot_index_fits_u8_def kernel_thread_at_def sample_kernel_def
        boot_state_def sample_registers_def MAXIMUM_THREADS_def encode_ipc_result_send_def and_then_def)
  moreover from this have "trap dm fm sample_kernel ks'"
    by (intro trap.intros [where regs = sample_registers and n = 1 and t = 2 and code = 0])
      (simp add: sample_kernel_def boot_state_def)
  ultimately show ?thesis by blast
qed

section \<open>Properties\<close>

text \<open>
  C14. No sequence of system calls changes anybody's authority. Over any run of traps, with any call
  numbers, callers and register contents, the process table is the same afterwards: no slot of any
  capability space is created, changed or lost, so the capability argument of send, receive and call
  never moves a capability between processes.
\<close>

theorem syscalls_preserve_authority:
  assumes "(trap dm fm)\<^sup>*\<^sup>* ks ks'"
  shows "ks_process_table ks' = ks_process_table ks \<and>
    lookup_entry (ks_process_table ks') t = lookup_entry (ks_process_table ks) t"
  using traps_process_table [OF assms] by simp

theorem syscalls_preserve_authority_witness:
  "\<exists>ks'. (trap (\<lambda>_. empty_device) (\<lambda>_. new_frame 0 0))\<^sup>*\<^sup>* sample_kernel ks' \<and>
     ks_process_table ks' = ks_process_table sample_kernel"
  using sample_trap [of "\<lambda>_. empty_device" "\<lambda>_. new_frame 0 0"] syscalls_preserve_authority r_into_rtranclp by metis

text \<open>
  C15. A system call reaches only what its caller has a capability for: an endpoint changes only if the
  caller's capability space holds a usable endpoint capability for it in the slot the endpoint
  register names, no other thread's control block changes, and the caller's saved registers do not
  change either.
\<close>

theorem syscall_effects_are_confined:
  assumes "dispatch_syscall dm fm n t ks = Returns code ks'"
  shows "(\<forall>i. ks_endpoint_pool ks' ! i \<noteq> ks_endpoint_pool ks ! i \<longrightarrow> n \<in> {1, 2, 3} \<and> holds_endpoint ks t i) \<and>
    (\<forall>i. i \<noteq> unat t \<longrightarrow> ks_thread_pool ks' ! i = ks_thread_pool ks ! i) \<and>
    register_save_area (ks_thread_pool ks' ! unat t) = register_save_area (ks_thread_pool ks ! unat t)"
proof -
  note f = dispatch_syscall_framed [OF assms, unfolded framed_def]
  have n: "n \<in> {1, 2, 3}" if "ks_endpoint_pool ks' ! i \<noteq> ks_endpoint_pool ks ! i" for i
    using assms that by (cases rule: dispatch_syscall_cases) auto
  show ?thesis
  proof (intro conjI allI impI)
    fix i assume "ks_endpoint_pool ks' ! i \<noteq> ks_endpoint_pool ks ! i"
    then show "n \<in> {1, 2, 3}" "holds_endpoint ks t i" using n f by (blast, simp)
  qed (simp_all add: f)
qed

theorem syscall_effects_are_confined_witness:
  "\<exists>ks'. dispatch_syscall (\<lambda>_. empty_device) (\<lambda>_. new_frame 0 0) 1 2 sample_kernel = Returns 0 ks' \<and>
     (\<forall>i. i \<noteq> 2 \<longrightarrow> ks_thread_pool ks' ! i = ks_thread_pool sample_kernel ! i)"
proof -
  obtain ks' where k: "dispatch_syscall (\<lambda>_. empty_device) (\<lambda>_. new_frame 0 0) 1 2 sample_kernel = Returns 0 ks'"
    using sample_trap by blast
  from syscall_effects_are_confined [OF k] show ?thesis using k by auto
qed

text \<open>
  C16. The kernel's global invariant holds from boot over any interleaving of system calls, with any numbers, callers
  and register contents, with processes entering the process table with any capability space and leaving it through
  the exit sequence: queues consistent and bounded, no dangling wait edge, tables of the right size, and at most one
  active binding per interrupt. In every such state each call other than process exit returns to its caller, and an
  unassigned number returns -1 and changes nothing.
\<close>

theorem kernel_invariant_and_progress:
  assumes "(kernel_step dm fm)\<^sup>*\<^sup>* (boot_state regs) ks"
  shows "kernel_inv ks \<and>
    (n \<noteq> 7 \<longrightarrow> (\<exists>code ks'. dispatch_syscall dm fm n t ks = Returns code ks')) \<and>
    (unat n \<notin> {1..11} \<longrightarrow> dispatch_syscall dm fm n t ks = Returns (-1) ks)"
  using kernel_steps_inv [OF assms kernel_inv_boot]
  by (intro conjI impI dispatch_syscall_returns dispatch_syscall_unassigned)

text \<open>Process 2 enters, then sends and is queued; a receive in the state it leaves returns.\<close>

theorem kernel_invariant_and_progress_witness:
  "\<exists>ks code ks'. (kernel_step (\<lambda>_. empty_device) (\<lambda>_. new_frame 0 0))\<^sup>*\<^sup>* (boot_state sample_registers) ks \<and>
     dispatch_syscall (\<lambda>_. empty_device) (\<lambda>_. new_frame 0 0) 1 2 sample_kernel = Returns 0 ks \<and> kernel_inv ks \<and>
     dispatch_syscall (\<lambda>_. empty_device) (\<lambda>_. new_frame 0 0) 2 2 ks = Returns code ks'"
proof -
  let ?s = "kernel_step (\<lambda>_. empty_device) (\<lambda>_. new_frame 0 0)"
  obtain r pt where e: "insert_entry new_process_table 2 sample_driver_space = (r, pt)"
    by (cases "insert_entry new_process_table 2 sample_driver_space")
  have "?s (boot_state sample_registers) ((boot_state sample_registers)\<lparr> ks_process_table := pt \<rparr>)"
    by (rule kernel_step.enter [of _ 2 sample_driver_space r]) (use e in \<open>simp add: boot_state_def\<close>)
  then have enter: "?s (boot_state sample_registers) sample_kernel" using e by (simp add: sample_kernel_def)
  obtain ks where ks: "(trap (\<lambda>_. empty_device) (\<lambda>_. new_frame 0 0)) sample_kernel ks"
    "dispatch_syscall (\<lambda>_. empty_device) (\<lambda>_. new_frame 0 0) 1 2 sample_kernel = Returns 0 ks"
    using sample_trap by blast
  have run: "?s\<^sup>*\<^sup>* (boot_state sample_registers) ks"
    using enter kernel_step.syscall [OF ks(1)] by (meson converse_rtranclp_into_rtranclp r_into_rtranclp)
  from kernel_invariant_and_progress [OF run, of 2 2] run ks(2) show ?thesis by auto
qed

text \<open>
  C19. A process that left through the exit sequence has no authority. The sequence reports that the space was revoked
  exactly for identifiers in bounds, takes the space of this thread out of the table and leaves all others; and
  over any run of traps afterwards, whatever the registers, every system call made for the exited thread is refused
  with a negative code and changes nothing, except the audit-read stub, which returns 0 and changes nothing,
  and process exit, which never returns.
\<close>

theorem process_exit_removes_all_authority:
  assumes "table_wf (ks_process_table ks)" "execute_process_exit_sequence (ks_process_table ks) t = (record, pt')"
    and "(trap dm fm)\<^sup>*\<^sup>* (ks\<lparr> ks_process_table := pt' \<rparr>) ks1"
  shows "capability_space_revoked record = (unat t < 32) \<and>
    (\<forall>t'. lookup_entry pt' t' = (if t' = t then None else lookup_entry (ks_process_table ks) t')) \<and>
    (case dispatch_syscall dm fm n t (ks1\<lparr> ks_registers := regs \<rparr>) of
       NeverReturns \<Rightarrow> n = 7
     | Returns code ks2 \<Rightarrow> ks2 = ks1\<lparr> ks_registers := regs \<rparr> \<and> (if n = 8 then code = 0 else code < 0))"
proof -
  note ex = exit_sequence_removes_space [OF assms(1,2)]
  let ?ks = "ks1\<lparr> ks_registers := regs \<rparr>"
  have none: "lookup_entry (ks_process_table ?ks) t = None"
    using traps_process_table [OF assms(3)] ex(3) [of t] by simp
  have "case dispatch_syscall dm fm n t ?ks of NeverReturns \<Rightarrow> n = 7
     | Returns code ks2 \<Rightarrow> ks2 = ?ks \<and> (if n = 8 then code = 0 else code < 0)"
  proof (cases "n = 7 \<or> n = 8")
    case True
    then show ?thesis by (auto simp: dispatch_syscall_eq)
  next
    case False
    then obtain code where "code < 0" "dispatch_syscall dm fm n t ?ks = Returns code ?ks"
      using no_space_no_effect [OF none] by blast
    then show ?thesis using False by simp
  qed
  then show ?thesis using ex(1,3) by simp
qed

theorem process_exit_removes_all_authority_witness:
  "\<exists>record pt' code. execute_process_exit_sequence (ks_process_table sample_kernel) 2 = (record, pt') \<and>
     capability_space_revoked record \<and> lookup_entry pt' 2 = None \<and>
     dispatch_syscall (\<lambda>_. empty_device) (\<lambda>_. new_frame 0 0) 1 2
       (sample_kernel\<lparr> ks_process_table := pt', ks_registers := sample_registers \<rparr>) =
       Returns code (sample_kernel\<lparr> ks_process_table := pt', ks_registers := sample_registers \<rparr>) \<and> code < 0"
proof -
  have wf: "table_wf (ks_process_table sample_kernel)"
    by (simp add: sample_kernel_def insert_entry_def validate_thread_identifier_bounds_def table_wf_def
        new_process_table_def MAXIMUM_THREADS_def Let_def)
  obtain er pt' where e: "execute_process_exit_sequence (ks_process_table sample_kernel) 2 = (er, pt')"
    by (cases "execute_process_exit_sequence (ks_process_table sample_kernel) 2")
  from process_exit_removes_all_authority [where dm = "\<lambda>_. empty_device" and fm = "\<lambda>_. new_frame 0 0" and n = 1
      and regs = sample_registers, OF wf e rtranclp.rtrancl_refl] e
  show ?thesis by (auto split: syscall_outcome.splits)
qed

end
