(* ===== verification/Run_Queue.thy ===== *)
theory Run_Queue
  imports Ipc_Queue
begin

text \<open>
  The priority run queue (\<open>scheduler/run_queue.rs\<close>): two parallel arrays kept sorted by shifting
  entries. The locale \<open>stable_priority_queue\<close> is the contract the scheduler relies on; the arrays
  implement it.
\<close>

section \<open>The arrays\<close>

datatype SchedulerError = BudgetExhausted | DomainNotInCurrentSlot | SmtIsolationViolation | NoEligibleThread

record RunQueue =
  thread_indices :: "u32 list"
  effective_priorities :: "u8 list"
  entry_count :: usize

definition new_run_queue :: RunQueue where
  "new_run_queue = \<lparr> thread_indices = replicate MAXIMUM_THREADS 0,
     effective_priorities = replicate MAXIMUM_THREADS 0, entry_count = 0 \<rparr>"

function find_insertion_loop :: "RunQueue \<Rightarrow> u8 \<Rightarrow> usize \<Rightarrow> usize" where
  "find_insertion_loop rq effective_priority pos =
     (if pos < entry_count rq then
        if effective_priorities rq ! pos < effective_priority then pos
        else find_insertion_loop rq effective_priority (pos + 1)
      else pos)"
  by pat_completeness auto

termination
  by (relation "measure (\<lambda>(rq, _, pos). entry_count rq - pos)") auto

definition find_insertion_position :: "RunQueue \<Rightarrow> u8 \<Rightarrow> usize" where
  "find_insertion_position rq effective_priority = find_insertion_loop rq effective_priority 0"

text \<open>The loop of \<open>shift_entries_right\<close>, counting \<open>shift_index\<close> down.\<close>

fun shift_right_loop :: "usize \<Rightarrow> usize \<Rightarrow> RunQueue \<Rightarrow> RunQueue" where
  "shift_right_loop from_position 0 rq = rq"
| "shift_right_loop from_position (Suc k) rq =
     (if Suc k > from_position then
        shift_right_loop from_position k
          (rq\<lparr> thread_indices := (thread_indices rq)[Suc k := thread_indices rq ! k],
               effective_priorities := (effective_priorities rq)[Suc k := effective_priorities rq ! k] \<rparr>)
      else rq)"

definition shift_entries_right :: "RunQueue \<Rightarrow> usize \<Rightarrow> RunQueue" where
  "shift_entries_right rq from_position = shift_right_loop from_position (entry_count rq) rq"

definition write_entry_at :: "RunQueue \<Rightarrow> usize \<Rightarrow> u32 \<Rightarrow> u8 \<Rightarrow> RunQueue" where
  "write_entry_at rq pos thread_index effective_priority =
     rq\<lparr> thread_indices := (thread_indices rq)[pos := thread_index],
         effective_priorities := (effective_priorities rq)[pos := effective_priority],
         entry_count := entry_count rq + 1 \<rparr>"

definition insert_thread :: "RunQueue \<Rightarrow> u32 \<Rightarrow> u8 \<Rightarrow> (unit, SchedulerError) result \<times> RunQueue" where
  "insert_thread rq thread_index effective_priority =
     (if entry_count rq \<ge> MAXIMUM_THREADS then (Err NoEligibleThread, rq)
      else
        (let insertion_position = find_insertion_position rq effective_priority;
             rq1 = shift_entries_right rq insertion_position
         in (Ok (), write_entry_at rq1 insertion_position thread_index effective_priority)))"

function find_thread_loop :: "RunQueue \<Rightarrow> u32 \<Rightarrow> usize \<Rightarrow> usize option" where
  "find_thread_loop rq thread_index search_index =
     (if search_index < entry_count rq then
        if thread_indices rq ! search_index = thread_index then Some search_index
        else find_thread_loop rq thread_index (search_index + 1)
      else None)"
  by pat_completeness auto

termination
  by (relation "measure (\<lambda>(rq, _, search_index). entry_count rq - search_index)") auto

definition find_thread_position :: "RunQueue \<Rightarrow> u32 \<Rightarrow> usize option" where
  "find_thread_position rq thread_index = find_thread_loop rq thread_index 0"

function shift_left_loop :: "usize \<Rightarrow> RunQueue \<Rightarrow> RunQueue" where
  "shift_left_loop shift_index rq =
     (if shift_index + 1 < entry_count rq then
        shift_left_loop (shift_index + 1)
          (rq\<lparr> thread_indices := (thread_indices rq)[shift_index := thread_indices rq ! (shift_index + 1)],
               effective_priorities :=
                 (effective_priorities rq)[shift_index := effective_priorities rq ! (shift_index + 1)] \<rparr>)
      else rq)"
  by pat_completeness auto

termination
  by (relation "measure (\<lambda>(shift_index, rq). entry_count rq - shift_index)") auto

definition shift_entries_left :: "RunQueue \<Rightarrow> usize \<Rightarrow> RunQueue" where
  "shift_entries_left rq removed_position =
     (let rq1 = shift_left_loop removed_position rq in rq1\<lparr> entry_count := entry_count rq1 - 1 \<rparr>)"

definition remove_thread :: "RunQueue \<Rightarrow> u32 \<Rightarrow> RunQueue" where
  "remove_thread rq thread_index =
     (case find_thread_position rq thread_index of
        Some found_position \<Rightarrow> shift_entries_left rq found_position
      | None \<Rightarrow> rq)"

definition select_highest_priority_thread :: "RunQueue \<Rightarrow> u32 option" where
  "select_highest_priority_thread rq =
     (if entry_count rq = 0 then None else Some (thread_indices rq ! 0))"

declare find_insertion_loop.simps [simp del] find_thread_loop.simps [simp del] shift_left_loop.simps [simp del]

section \<open>The contract\<close>

definition stable_insert :: "'t \<times> 'p::linorder \<Rightarrow> ('t \<times> 'p) list \<Rightarrow> ('t \<times> 'p) list" where
  "stable_insert e es =
     takeWhile (\<lambda>x. snd e \<le> snd x) es @ e # dropWhile (\<lambda>x. snd e \<le> snd x) es"

fun remove_first :: "'t \<Rightarrow> ('t \<times> 'p) list \<Rightarrow> ('t \<times> 'p) list" where
  "remove_first t [] = []"
| "remove_first t (e # es) = (if fst e = t then es else e # remove_first t es)"

definition descending :: "('t \<times> 'p::linorder) list \<Rightarrow> bool" where
  "descending = sorted_wrt (\<lambda>a b. snd b \<le> snd a)"

lemma descending_stable_insert: "descending es \<Longrightarrow> descending (stable_insert e es)"
proof (induction es)
  case (Cons x es)
  then show ?case
    by (auto simp: descending_def stable_insert_def dest: set_takeWhileD set_dropWhileD)
qed (simp add: descending_def stable_insert_def)

lemma descending_remove_first: "descending es \<Longrightarrow> descending (remove_first t es)"
proof (induction es)
  case (Cons x es)
  have "set (remove_first t es) \<subseteq> set es" by (induction es) auto
  with Cons show ?case by (auto simp: descending_def)
qed (simp add: descending_def)

lemma set_stable_insert [simp]: "set (stable_insert e es) = insert e (set es)"
proof -
  have "set (takeWhile P es) \<union> set (dropWhile P es) = set es" for P
    by (metis set_append takeWhile_dropWhile_id)
  then show ?thesis by (auto simp: stable_insert_def)
qed

lemma length_stable_insert [simp]: "length (stable_insert e es) = Suc (length es)"
  by (metis stable_insert_def length_append length_Cons add_Suc_right takeWhile_dropWhile_id)

text \<open>Insertion is stable: entries of one priority stay in their order of arrival.\<close>

lemma filter_stable_insert:
  "descending es \<Longrightarrow>
   filter (\<lambda>x. snd x = p) (stable_insert e es) =
     filter (\<lambda>x. snd x = p) es @ (if snd e = p then [e] else [])"
proof (induction es)
  case (Cons x es)
  then have d: "descending es" "\<forall>y \<in> set es. snd y \<le> snd x" by (auto simp: descending_def)
  show ?case
  proof (cases "snd e \<le> snd x")
    case True
    then have "stable_insert e (x # es) = x # stable_insert e es" by (simp add: stable_insert_def)
    then show ?thesis using Cons.IH [OF d(1)] by simp
  next
    case False
    then have "stable_insert e (x # es) = e # x # es" by (simp add: stable_insert_def)
    moreover have "filter (\<lambda>y. snd y = snd e) (x # es) = []"
      using False d(2) by (auto simp: filter_empty_conv)
    ultimately show ?thesis by auto
  qed
qed (simp add: stable_insert_def)

locale stable_priority_queue =
  fixes entries :: "'q \<Rightarrow> ('t \<times> 'p::linorder) list"
    and invar :: "'q \<Rightarrow> bool"
    and cap :: nat
    and ins :: "'q \<Rightarrow> 't \<Rightarrow> 'p \<Rightarrow> (unit, SchedulerError) result \<times> 'q"
    and del :: "'q \<Rightarrow> 't \<Rightarrow> 'q"
    and sel :: "'q \<Rightarrow> 't option"
  assumes ins_full: "invar q \<Longrightarrow> length (entries q) = cap \<Longrightarrow> ins q t p = (Err NoEligibleThread, q)"
    and ins_ok: "invar q \<Longrightarrow> length (entries q) < cap \<Longrightarrow>
      \<exists>q'. ins q t p = (Ok (), q') \<and> invar q' \<and> entries q' = stable_insert (t, p) (entries q)"
    and del: "invar q \<Longrightarrow> invar (del q t) \<and> entries (del q t) = remove_first t (entries q)"
    and sel: "invar q \<Longrightarrow> sel q = (case entries q of [] \<Rightarrow> None | e # _ \<Rightarrow> Some (fst e))"
    and bounded: "invar q \<Longrightarrow> length (entries q) \<le> cap"
begin

text \<open>Inserting a batch that fits: the queue is sorted, complete and stable.\<close>

lemma insert_batch:
  assumes "invar q" "descending (entries q)" "length (entries q) + length es \<le> cap"
  defines "q' \<equiv> fold (\<lambda>e q. snd (ins q (fst e) (snd e))) es q"
  shows "invar q' \<and> descending (entries q') \<and> set (entries q') = set (entries q) \<union> set es \<and>
    (\<forall>p. filter (\<lambda>x. snd x = p) (entries q') =
       filter (\<lambda>x. snd x = p) (entries q) @ filter (\<lambda>x. snd x = p) es)"
  using assms(1-3) unfolding q'_def
proof (induction es arbitrary: q)
  case (Cons e es)
  from ins_ok [OF Cons.prems(1), of "fst e" "snd e"] Cons.prems(3) obtain q1 where q1:
    "ins q (fst e) (snd e) = (Ok (), q1)" "invar q1" "entries q1 = stable_insert e (entries q)" by auto
  have "descending (entries q1)" using q1(3) Cons.prems(2) by (simp add: descending_stable_insert)
  with Cons.IH [OF q1(2)] Cons.prems q1 show ?case by (simp add: filter_stable_insert)
qed simp

text \<open>From an empty queue the head is the first of the most urgent entries of the batch.\<close>

lemma batch_head:
  assumes "invar q" "entries q = []" "length es \<le> cap"
  defines "q' \<equiv> fold (\<lambda>e q. snd (ins q (fst e) (snd e))) es q"
  shows "(es = [] \<longrightarrow> sel q' = None) \<and>
    (es \<noteq> [] \<longrightarrow> (\<exists>t p rest. sel q' = Some t \<and> filter (\<lambda>x. snd x = p) es = (t, p) # rest \<and>
       (\<forall>e \<in> set es. snd e \<le> p)))"
proof -
  have b: "invar q'" "descending (entries q')" "set (entries q') = set es"
    "\<And>p. filter (\<lambda>x. snd x = p) (entries q') = filter (\<lambda>x. snd x = p) es"
    using insert_batch [of q es] assms by (auto simp: descending_def)
  show ?thesis
  proof (cases "entries q'")
    case Nil
    then show ?thesis using b sel [OF b(1)] by simp
  next
    case (Cons e rest)
    then have "filter (\<lambda>x. snd x = snd e) es = e # filter (\<lambda>x. snd x = snd e) rest"
      using b(4) [of "snd e"] by simp
    moreover have "\<forall>x \<in> set es. snd x \<le> snd e"
      using b(2,3) Cons by (auto simp: descending_def)
    moreover have "sel q' = Some (fst e)" using sel [OF b(1)] Cons by simp
    moreover have "es \<noteq> []" using b(3) Cons by auto
    ultimately show ?thesis by (metis prod.collapse)
  qed
qed

end

section \<open>The arrays meet the contract\<close>

definition rq_entries :: "RunQueue \<Rightarrow> (u32 \<times> u8) list" where
  "rq_entries rq = map (\<lambda>i. (thread_indices rq ! i, effective_priorities rq ! i)) [0..<entry_count rq]"

definition rq_inv :: "RunQueue \<Rightarrow> bool" where
  "rq_inv rq \<longleftrightarrow> length (thread_indices rq) = MAXIMUM_THREADS \<and>
     length (effective_priorities rq) = MAXIMUM_THREADS \<and> entry_count rq \<le> MAXIMUM_THREADS"

lemma rq_new: "rq_inv new_run_queue" "rq_entries new_run_queue = []"
  by (simp_all add: rq_inv_def rq_entries_def new_run_queue_def)

lemma length_rq_entries [simp]: "length (rq_entries rq) = entry_count rq"
  by (simp add: rq_entries_def)

lemma nth_rq_entries [simp]:
  "i < entry_count rq \<Longrightarrow> rq_entries rq ! i = (thread_indices rq ! i, effective_priorities rq ! i)"
  by (simp add: rq_entries_def)

lemma drop_rq_entries:
  "i < entry_count rq \<Longrightarrow> drop i (rq_entries rq) =
     (thread_indices rq ! i, effective_priorities rq ! i) # drop (Suc i) (rq_entries rq)"
  using Cons_nth_drop_Suc [of i "rq_entries rq"] by simp

lemma find_insertion_loop_eq:
  "pos \<le> entry_count rq \<Longrightarrow>
   find_insertion_loop rq p pos = pos + length (takeWhile (\<lambda>x. p \<le> snd x) (drop pos (rq_entries rq)))"
proof (induction rq p pos rule: find_insertion_loop.induct)
  case (1 rq p pos)
  show ?case
  proof (cases "pos < entry_count rq")
    case True
    then show ?thesis using 1 by (auto simp: find_insertion_loop.simps [of rq p pos] drop_rq_entries)
  next
    case False
    then show ?thesis using 1 by (subst find_insertion_loop.simps) simp
  qed
qed

lemma find_insertion_position_eq:
  "find_insertion_position rq p = length (takeWhile (\<lambda>x. p \<le> snd x) (rq_entries rq))"
  by (simp add: find_insertion_position_def find_insertion_loop_eq)

lemma shift_right_loop_nth:
  fixes i :: usize
  assumes "rq_inv rq" "k < MAXIMUM_THREADS"
  defines "rq' \<equiv> shift_right_loop i k rq"
  shows "rq_inv rq' \<and> entry_count rq' = entry_count rq \<and>
    (\<forall>j < MAXIMUM_THREADS.
       thread_indices rq' ! j = (if i < j \<and> j \<le> k then thread_indices rq ! (j - 1) else thread_indices rq ! j) \<and>
       effective_priorities rq' ! j =
         (if i < j \<and> j \<le> k then effective_priorities rq ! (j - 1) else effective_priorities rq ! j))"
  using assms(1,2) unfolding rq'_def
proof (induction k arbitrary: rq)
  case (Suc k)
  let ?rq = "rq\<lparr> thread_indices := (thread_indices rq)[Suc k := thread_indices rq ! k],
    effective_priorities := (effective_priorities rq)[Suc k := effective_priorities rq ! k] \<rparr>"
  have "rq_inv ?rq" using Suc.prems by (simp add: rq_inv_def)
  note IH = Suc.IH [OF this]
  have len: "length (thread_indices rq) = MAXIMUM_THREADS" "length (effective_priorities rq) = MAXIMUM_THREADS"
    using Suc.prems by (simp_all add: rq_inv_def)
  show ?case
  proof (cases "Suc k > i")
    case True
    then show ?thesis using IH Suc.prems len by (auto simp: nth_list_update le_Suc_eq)
  next
    case False
    then show ?thesis using Suc.prems by auto
  qed
qed auto

lemma insert_thread_entries:
  assumes "rq_inv rq" "entry_count rq < MAXIMUM_THREADS"
  shows "\<exists>rq'. insert_thread rq t p = (Ok (), rq') \<and> rq_inv rq' \<and>
    rq_entries rq' = stable_insert (t, p) (rq_entries rq)"
proof -
  define i where "i = find_insertion_position rq p"
  define rq1 where "rq1 = shift_entries_right rq i"
  define rq' where "rq' = write_entry_at rq1 i t p"
  let ?es = "rq_entries rq" and ?P = "\<lambda>x :: u32 \<times> u8. p \<le> snd x"
  have i: "i = length (takeWhile ?P ?es)" by (simp add: i_def find_insertion_position_eq)
  then have le: "i \<le> entry_count rq" using length_takeWhile_le [of ?P ?es] by simp
  note sh = shift_right_loop_nth [OF assms, of i, folded shift_entries_right_def rq1_def]
  have inv: "rq_inv rq'" "entry_count rq' = Suc (entry_count rq)"
    using sh assms by (simp_all add: rq'_def write_entry_at_def rq_inv_def)
  have split: "stable_insert (t, p) ?es = take i ?es @ (t, p) # drop i ?es"
    by (simp add: stable_insert_def i takeWhile_eq_take [symmetric] dropWhile_eq_drop [symmetric])
  have "rq_entries rq' = take i ?es @ (t, p) # drop i ?es"
  proof (rule nth_equalityI)
    show "length (rq_entries rq') = length (take i ?es @ (t, p) # drop i ?es)" using inv le by simp
    fix j assume "j < length (rq_entries rq')"
    then have j: "j < Suc (entry_count rq)" "j < MAXIMUM_THREADS" using inv assms by auto
    have len: "length (thread_indices rq1) = MAXIMUM_THREADS" "length (effective_priorities rq1) = MAXIMUM_THREADS"
      using sh by (simp_all add: rq_inv_def)
    show "rq_entries rq' ! j = (take i ?es @ (t, p) # drop i ?es) ! j"
      using j inv sh le assms len
      by (auto simp: rq'_def write_entry_at_def nth_append nth_list_update nth_Cons' min_def less_Suc_eq_le)
  qed
  then show ?thesis
    using inv(1) assms(2) split
    by (simp add: insert_thread_def i_def [symmetric] rq1_def [symmetric] rq'_def [symmetric] Let_def)
qed

lemma find_thread_loop_eq:
  "pos \<le> entry_count rq \<Longrightarrow>
   find_thread_loop rq t pos = map_option ((+) pos) (position (\<lambda>x. fst x = t) (drop pos (rq_entries rq)))"
proof (induction rq t pos rule: find_thread_loop.induct)
  case (1 rq t pos)
  show ?case
  proof (cases "pos < entry_count rq")
    case True
    then show ?thesis
      using 1 by (auto simp: find_thread_loop.simps [of rq t pos] drop_rq_entries option.map_comp comp_def)
  next
    case False
    then show ?thesis using 1 by (subst find_thread_loop.simps) simp
  qed
qed

lemma find_thread_position_eq:
  "find_thread_position rq t = position (\<lambda>x. fst x = t) (rq_entries rq)"
proof -
  have "(+) (0::nat) = id" by auto
  then show ?thesis by (simp add: find_thread_position_def find_thread_loop_eq option.map_id)
qed

lemma shift_left_loop_nth:
  fixes i :: usize
  assumes "rq_inv rq"
  defines "rq' \<equiv> shift_left_loop i rq"
  shows "rq_inv rq' \<and> entry_count rq' = entry_count rq \<and>
    (\<forall>j < MAXIMUM_THREADS.
       thread_indices rq' ! j =
         (if i \<le> j \<and> j + 1 < entry_count rq then thread_indices rq ! (j + 1) else thread_indices rq ! j) \<and>
       effective_priorities rq' ! j =
         (if i \<le> j \<and> j + 1 < entry_count rq then effective_priorities rq ! (j + 1)
          else effective_priorities rq ! j))"
  using assms(1) unfolding rq'_def
proof (induction i rq rule: shift_left_loop.induct)
  case (1 i rq)
  let ?rq = "rq\<lparr> thread_indices := (thread_indices rq)[i := thread_indices rq ! (i + 1)],
    effective_priorities := (effective_priorities rq)[i := effective_priorities rq ! (i + 1)] \<rparr>"
  have len: "length (thread_indices rq) = MAXIMUM_THREADS" "length (effective_priorities rq) = MAXIMUM_THREADS"
    "entry_count rq \<le> MAXIMUM_THREADS"
    using 1 by (simp_all add: rq_inv_def)
  show ?case
  proof (cases "i + 1 < entry_count rq")
    case True
    have "rq_inv ?rq" using 1(2) by (simp add: rq_inv_def)
    note IH = 1(1) [OF True this]
    have "shift_left_loop i rq = shift_left_loop (i + 1) ?rq"
      using True by (simp add: shift_left_loop.simps [of i rq])
    then show ?thesis using IH len True by (auto simp: nth_list_update Suc_le_eq le_less)
  next
    case False
    then show ?thesis using 1(2) by (auto simp: shift_left_loop.simps [of i rq])
  qed
qed

lemma remove_first_position:
  "remove_first t es =
     (case position (\<lambda>x. fst x = t) es of None \<Rightarrow> es | Some i \<Rightarrow> take i es @ drop (Suc i) es)"
  by (induction es) (auto split: option.splits)

lemma remove_thread_entries:
  assumes "rq_inv rq"
  shows "rq_inv (remove_thread rq t) \<and> rq_entries (remove_thread rq t) = remove_first t (rq_entries rq)"
proof (cases "find_thread_position rq t")
  case None
  then show ?thesis using assms by (simp add: remove_thread_def remove_first_position find_thread_position_eq)
next
  case (Some i)
  let ?es = "rq_entries rq" and ?rq = "shift_entries_left rq i"
  have i: "i < entry_count rq" using Some position_Some by (fastforce simp: find_thread_position_eq)
  note sh = shift_left_loop_nth [OF assms, of i]
  have inv: "rq_inv ?rq" "entry_count ?rq = entry_count rq - 1"
    using sh by (auto simp: shift_entries_left_def rq_inv_def Let_def)
  have le: "entry_count rq \<le> MAXIMUM_THREADS" using assms by (simp add: rq_inv_def)
  have "rq_entries ?rq = take i ?es @ drop (Suc i) ?es"
  proof (rule nth_equalityI)
    show "length (rq_entries ?rq) = length (take i ?es @ drop (Suc i) ?es)" using inv i by simp
    fix j assume "j < length (rq_entries ?rq)"
    then have j: "j + 1 < entry_count rq" using inv by simp
    then show "rq_entries ?rq ! j = (take i ?es @ drop (Suc i) ?es) ! j"
      using inv sh i le by (auto simp: shift_entries_left_def Let_def nth_append min_def)
  qed
  then show ?thesis
    using Some inv(1) by (simp add: remove_thread_def remove_first_position find_thread_position_eq)
qed

interpretation rq: stable_priority_queue rq_entries rq_inv MAXIMUM_THREADS insert_thread remove_thread
  select_highest_priority_thread
proof unfold_locales
  fix q :: RunQueue and t p
  assume i: "rq_inv q"
  show "insert_thread q t p = (Err NoEligibleThread, q)" if "length (rq_entries q) = MAXIMUM_THREADS"
    using that by (simp add: insert_thread_def)
  show "\<exists>q'. insert_thread q t p = (Ok (), q') \<and> rq_inv q' \<and> rq_entries q' = stable_insert (t, p) (rq_entries q)"
    if "length (rq_entries q) < MAXIMUM_THREADS"
    using that insert_thread_entries [OF i] by simp
  show "rq_inv (remove_thread q t) \<and> rq_entries (remove_thread q t) = remove_first t (rq_entries q)"
    by (rule remove_thread_entries [OF i])
  show "select_highest_priority_thread q = (case rq_entries q of [] \<Rightarrow> None | e # _ \<Rightarrow> Some (fst e))"
    by (auto simp: select_highest_priority_thread_def rq_entries_def upt_conv_Cons split: list.splits)
  show "length (rq_entries q) \<le> MAXIMUM_THREADS" using i by (simp add: rq_inv_def)
qed

end
