(* ===== verification/Scheduler.thy ===== *)
theory Scheduler
  imports Run_Queue Kernel_Thread
begin

text \<open>
  The scheduler: budgets, the static partition table and its major frame, priority inheritance,
  SMT isolation, and the tick and queue-rebuild operations (\<open>scheduler/*.rs\<close>). An index outside one
  of the fixed arrays panics in the sources; the operations that index with a value they did not
  check return \<open>None\<close> there. The two global atomics are the record \<open>SchedulerStatics\<close>.
\<close>

section \<open>Actions and budgets\<close>

datatype SchedulerAction =
    ContinueCurrentThread
  | PreemptCurrentThread
  | SwitchToPartitionSlot
  | PreemptAndSwitchSlot

definition decrement_budget :: "u64 \<Rightarrow> u64" where
  "decrement_budget current_budget = saturating_sub current_budget 1"

definition check_budget_exhaustion :: "u64 \<Rightarrow> SchedulerAction" where
  "check_budget_exhaustion current_budget =
     (if current_budget = 0 then PreemptCurrentThread else ContinueCurrentThread)"

definition reset_budget :: "u64 \<Rightarrow> u64 \<Rightarrow> u64" where
  "reset_budget budget new_budget_ticks = new_budget_ticks"

definition is_budget_exhausted :: "u64 \<Rightarrow> bool" where
  "is_budget_exhausted current_budget \<longleftrightarrow> current_budget = 0"

section \<open>Partition table and major frame\<close>

record PartitionSlot =
  domain_identifier :: u8
  duration_in_ticks :: u64

definition PARTITION_TABLE :: "PartitionSlot list" where
  "PARTITION_TABLE =
     [\<lparr> domain_identifier = 0, duration_in_ticks = 100 \<rparr>,
      \<lparr> domain_identifier = 1, duration_in_ticks = 100 \<rparr>,
      \<lparr> domain_identifier = 2, duration_in_ticks = 50 \<rparr>]"

definition compute_major_frame_total_ticks :: u64 where
  "compute_major_frame_total_ticks = fold (\<lambda>slot total. total + duration_in_ticks slot) PARTITION_TABLE 0"

record MajorFrameState =
  current_slot_index :: usize
  ticks_elapsed_in_current_slot :: u64
  total_ticks_in_major_frame :: u64

definition new_major_frame_state :: MajorFrameState where
  "new_major_frame_state =
     \<lparr> current_slot_index = 0, ticks_elapsed_in_current_slot = 0, total_ticks_in_major_frame = 0 \<rparr>"

record SchedulerStatics =
  global_monotonic_tick_count :: u64
  current_thread_identifier_value :: u32

definition increment_global_monotonic_tick_count :: "SchedulerStatics \<Rightarrow> SchedulerStatics" where
  "increment_global_monotonic_tick_count g =
     g\<lparr> global_monotonic_tick_count := global_monotonic_tick_count g + 1 \<rparr>"

definition current_active_domain_identifier :: "MajorFrameState \<Rightarrow> u8 option" where
  "current_active_domain_identifier st =
     map_option domain_identifier (array_get PARTITION_TABLE (current_slot_index st))"

definition current_slot_duration :: "MajorFrameState \<Rightarrow> u64 option" where
  "current_slot_duration st =
     map_option duration_in_ticks (array_get PARTITION_TABLE (current_slot_index st))"

definition is_thread_eligible_for_current_slot :: "u8 \<Rightarrow> MajorFrameState \<Rightarrow> bool option" where
  "is_thread_eligible_for_current_slot thread_domain_slot st =
     map_option (\<lambda>d. thread_domain_slot = d) (current_active_domain_identifier st)"

definition advance_to_next_slot :: "MajorFrameState \<Rightarrow> MajorFrameState" where
  "advance_to_next_slot st =
     (let st1 = st\<lparr> ticks_elapsed_in_current_slot := 0, current_slot_index := current_slot_index st + 1 \<rparr>
      in if current_slot_index st1 \<ge> length PARTITION_TABLE then st1\<lparr> current_slot_index := 0 \<rparr> else st1)"

definition advance_partition_slot_if_expired ::
  "MajorFrameState \<Rightarrow> SchedulerStatics \<Rightarrow> (SchedulerAction \<times> MajorFrameState \<times> SchedulerStatics) option" where
  "advance_partition_slot_if_expired st g =
     (let g1 = increment_global_monotonic_tick_count g;
          st1 = st\<lparr> ticks_elapsed_in_current_slot := ticks_elapsed_in_current_slot st + 1,
                    total_ticks_in_major_frame := total_ticks_in_major_frame st + 1 \<rparr>
      in map_option (\<lambda>duration.
           if ticks_elapsed_in_current_slot st1 \<ge> duration
           then (SwitchToPartitionSlot, advance_to_next_slot st1, g1)
           else (ContinueCurrentThread, st1, g1)) (current_slot_duration st1))"

section \<open>Priority inheritance\<close>

record EffectivePriorityRecord =
  base_priority :: u8
  inherited_priority :: u8
  inheritance_is_active :: bool

definition new_effective_priority_record :: "u8 \<Rightarrow> EffectivePriorityRecord" where
  "new_effective_priority_record p =
     \<lparr> base_priority = p, inherited_priority = 0, inheritance_is_active = False \<rparr>"

definition compute_effective_priority :: "EffectivePriorityRecord \<Rightarrow> u8" where
  "compute_effective_priority r =
     (if inheritance_is_active r then max (base_priority r) (inherited_priority r) else base_priority r)"

type_synonym priority_table = "EffectivePriorityRecord list"

definition boost_thread_in_chain :: "usize \<Rightarrow> u8 \<Rightarrow> priority_table \<Rightarrow> priority_table option" where
  "boost_thread_in_chain thread_index waiter_priority table =
     map_option (\<lambda>r. table[thread_index := r\<lparr> inherited_priority := waiter_priority,
       inheritance_is_active := True \<rparr>]) (array_get table thread_index)"

definition apply_priority_inheritance_boost :: "u32 \<Rightarrow> u8 \<Rightarrow> priority_table \<Rightarrow> priority_table option" where
  "apply_priority_inheritance_boost holder_index waiter_priority table =
     map_option (\<lambda>r. table[unat holder_index := r\<lparr> inherited_priority := waiter_priority,
       inheritance_is_active := True \<rparr>]) (array_get table (unat holder_index))"

definition restore_base_priority :: "u32 \<Rightarrow> priority_table \<Rightarrow> priority_table option" where
  "restore_base_priority thread_index table =
     map_option (\<lambda>r. table[unat thread_index := r\<lparr> inheritance_is_active := False,
       inherited_priority := 0 \<rparr>]) (array_get table (unat thread_index))"

definition advance_chain_step :: "usize \<Rightarrow> u32 option list \<Rightarrow> usize option option" where
  "advance_chain_step current_index waiting_on_thread =
     map_option (map_option unat) (array_get waiting_on_thread current_index)"

text \<open>The bounded loop of the propagation, with the number of rounds left.\<close>

fun propagate_loop :: "nat \<Rightarrow> usize \<Rightarrow> u8 \<Rightarrow> u32 option list \<Rightarrow> priority_table \<Rightarrow> priority_table option" where
  "propagate_loop 0 current_index waiter_priority waiting_on_thread table = Some table"
| "propagate_loop (Suc n) current_index waiter_priority waiting_on_thread table =
     (case boost_thread_in_chain current_index waiter_priority table of
        None \<Rightarrow> None
      | Some table' \<Rightarrow>
        (case advance_chain_step current_index waiting_on_thread of
           None \<Rightarrow> None
         | Some None \<Rightarrow> Some table'
         | Some (Some next_index) \<Rightarrow> propagate_loop n next_index waiter_priority waiting_on_thread table'))"

definition propagate_priority_inheritance ::
  "u32 \<Rightarrow> u8 \<Rightarrow> u32 option list \<Rightarrow> priority_table \<Rightarrow> priority_table option" where
  "propagate_priority_inheritance start_thread_index waiter_priority waiting_on_thread table =
     propagate_loop MAXIMUM_THREADS (unat start_thread_index) waiter_priority waiting_on_thread table"

section \<open>SMT isolation\<close>

definition are_threads_smt_compatible :: "u8 \<Rightarrow> u8 \<Rightarrow> bool" where
  "are_threads_smt_compatible domain_slot_a domain_slot_b \<longleftrightarrow> domain_slot_a = domain_slot_b"

definition check_smt_isolation_for_scheduling :: "u8 \<Rightarrow> u8 option \<Rightarrow> (unit, SchedulerError) result" where
  "check_smt_isolation_for_scheduling candidate sibling =
     (case sibling of
        None \<Rightarrow> Ok ()
      | Some s \<Rightarrow> if s = candidate then Ok () else Err SmtIsolationViolation)"

section \<open>Ticks and the run queue of a slot\<close>

record SchedulerState =
  current_thread_index :: "u32 option"
  thread_budgets :: "u64 list"
  thread_domain_slots :: "u8 list"
  thread_priorities :: "u8 list"
  effective_priority_table :: priority_table
  run_queue :: RunQueue
  major_frame_state :: MajorFrameState
  current_tick :: u64

definition new_scheduler_state :: SchedulerState where
  "new_scheduler_state = \<lparr> current_thread_index = None, thread_budgets = replicate MAXIMUM_THREADS 0,
     thread_domain_slots = replicate MAXIMUM_THREADS 0, thread_priorities = replicate MAXIMUM_THREADS 0,
     effective_priority_table = replicate MAXIMUM_THREADS (new_effective_priority_record 0),
     run_queue = new_run_queue, major_frame_state = new_major_frame_state, current_tick = 0 \<rparr>"

definition combine_scheduler_actions :: "SchedulerAction \<Rightarrow> SchedulerAction \<Rightarrow> SchedulerAction" where
  "combine_scheduler_actions partition_action budget_action =
     (let slot_switched = partition_action = SwitchToPartitionSlot;
          budget_exhausted = budget_action = PreemptCurrentThread
      in if slot_switched \<and> budget_exhausted then PreemptAndSwitchSlot
         else if budget_exhausted then PreemptCurrentThread
         else if slot_switched then SwitchToPartitionSlot
         else ContinueCurrentThread)"

definition decrement_current_thread_budget :: "SchedulerState \<Rightarrow> SchedulerState option" where
  "decrement_current_thread_budget st =
     (case current_thread_index st of
        None \<Rightarrow> Some st
      | Some t \<Rightarrow>
        map_option (\<lambda>b. st\<lparr> thread_budgets := (thread_budgets st)[unat t := decrement_budget b] \<rparr>)
          (array_get (thread_budgets st) (unat t)))"

definition evaluate_current_thread_budget :: "SchedulerState \<Rightarrow> SchedulerAction option" where
  "evaluate_current_thread_budget st =
     (case current_thread_index st of
        Some t \<Rightarrow> map_option check_budget_exhaustion (array_get (thread_budgets st) (unat t))
      | None \<Rightarrow> Some ContinueCurrentThread)"

text \<open>The rendezvous-completion step of the tick is empty in the sources.\<close>

definition process_scheduler_tick ::
  "SchedulerState \<Rightarrow> SchedulerStatics \<Rightarrow> (SchedulerAction \<times> SchedulerState \<times> SchedulerStatics) option" where
  "process_scheduler_tick st g =
     (let st1 = st\<lparr> current_tick := current_tick st + 1 \<rparr> in
      case decrement_current_thread_budget st1 of
        None \<Rightarrow> None
      | Some st2 \<Rightarrow>
        (case advance_partition_slot_if_expired (major_frame_state st2) g of
           None \<Rightarrow> None
         | Some (partition_action, mf, g') \<Rightarrow>
           (let st3 = st2\<lparr> major_frame_state := mf \<rparr> in
            map_option (\<lambda>budget_action.
              (combine_scheduler_actions partition_action budget_action, st3, g'))
              (evaluate_current_thread_budget st3))))"

definition activate_thread_as_current :: "SchedulerState \<Rightarrow> SchedulerStatics \<Rightarrow> u32 \<Rightarrow> SchedulerState \<times> SchedulerStatics" where
  "activate_thread_as_current st g thread_index =
     (st\<lparr> current_thread_index := Some thread_index \<rparr>, g\<lparr> current_thread_identifier_value := thread_index \<rparr>)"

definition select_next_thread_to_run :: "SchedulerState \<Rightarrow> u32 option" where
  "select_next_thread_to_run st = select_highest_priority_thread (run_queue st)"

text \<open>
  The rebuild loop runs its index over the fixed arrays, so only the partition index can be out of
  range; the check of the domain comes from the model of the partition table.
\<close>

definition is_thread_eligible_to_run :: "usize \<Rightarrow> SchedulerState \<Rightarrow> Thread list \<Rightarrow> bool option" where
  "is_thread_eligible_to_run thread_index st threads =
     map_option (\<lambda>domain_matches.
       (let thread_is_ready = thread_state (threads ! thread_index) = Ready;
            has_budget = thread_budgets st ! thread_index > 0
        in thread_is_ready \<and> domain_matches \<and> has_budget))
       (is_thread_eligible_for_current_slot (thread_domain_slots st ! thread_index) (major_frame_state st))"

definition insert_eligible_thread_into_run_queue :: "usize \<Rightarrow> SchedulerState \<Rightarrow> SchedulerState" where
  "insert_eligible_thread_into_run_queue thread_index st =
     (let effective_priority = compute_effective_priority (effective_priority_table st ! thread_index);
          (_, rq) = insert_thread (run_queue st) (of_nat thread_index) effective_priority
      in st\<lparr> run_queue := rq \<rparr>)"

fun rebuild_loop :: "usize list \<Rightarrow> SchedulerState \<Rightarrow> Thread list \<Rightarrow> SchedulerState option" where
  "rebuild_loop [] st threads = Some st"
| "rebuild_loop (i # is) st threads =
     (case is_thread_eligible_to_run i st threads of
        None \<Rightarrow> None
      | Some eligible \<Rightarrow>
        rebuild_loop is (if eligible then insert_eligible_thread_into_run_queue i st else st) threads)"

definition rebuild_run_queue_for_current_slot :: "SchedulerState \<Rightarrow> Thread list \<Rightarrow> SchedulerState option" where
  "rebuild_run_queue_for_current_slot st threads =
     rebuild_loop [0..<MAXIMUM_THREADS] (st\<lparr> run_queue := new_run_queue \<rparr>) threads"

end
