(* ===== verification/Scheduler_Claims.thy ===== *)
theory Scheduler_Claims
  imports Scheduler
begin

text \<open>The properties of the scheduler: the schedule it follows, the budgets it enforces, the thread it
  selects, and the priorities it lends.\<close>

section \<open>The run queue over any operations\<close>

datatype rq_op = Insert u32 u8 | Remove u32

fun rq_step :: "RunQueue \<Rightarrow> rq_op \<Rightarrow> RunQueue" where
  "rq_step rq (Insert t p) = snd (insert_thread rq t p)"
| "rq_step rq (Remove t) = remove_thread rq t"

fun list_step :: "(u32 \<times> u8) list \<Rightarrow> rq_op \<Rightarrow> (u32 \<times> u8) list" where
  "list_step es (Insert t p) = (if length es < 32 then stable_insert (t, p) es else es)"
| "list_step es (Remove t) = remove_first t es"

lemma rq_step_simulates:
  assumes "rq_inv rq"
  shows "rq_inv (rq_step rq op) \<and> rq_entries (rq_step rq op) = list_step (rq_entries rq) op"
proof (cases op)
  case (Insert t p)
  show ?thesis
  proof (cases "length (rq_entries rq) < MAXIMUM_THREADS")
    case True
    then show ?thesis using rq.ins_ok [OF assms True, of t p] Insert by (auto simp: MAXIMUM_THREADS_def)
  next
    case False
    then have "length (rq_entries rq) = MAXIMUM_THREADS" using rq.bounded [OF assms] by simp
    then show ?thesis using rq.ins_full [OF assms] Insert assms by (simp add: MAXIMUM_THREADS_def)
  qed
next
  case (Remove t)
  then show ?thesis using rq.del [OF assms] by simp
qed

lemma rq_run_simulates:
  "rq_inv rq \<Longrightarrow> rq_inv (foldl rq_step rq ops) \<and>
   rq_entries (foldl rq_step rq ops) = foldl list_step (rq_entries rq) ops"
  by (induction ops arbitrary: rq) (simp_all add: rq_step_simulates)

lemma list_run_descending: "descending es \<Longrightarrow> descending (foldl list_step es ops)"
proof (induction ops arbitrary: es)
  case (Cons op ops)
  then show ?case
    by (cases op) (simp_all add: descending_stable_insert descending_remove_first)
qed simp

section \<open>The major frame\<close>

definition slot_at :: "nat \<Rightarrow> usize" where
  "slot_at n = (if n mod 250 < 100 then 0 else if n mod 250 < 200 then 1 else 2)"

definition elapsed_at :: "nat \<Rightarrow> nat" where
  "elapsed_at n = (if n mod 250 < 100 then n mod 250 else if n mod 250 < 200 then n mod 250 - 100 else n mod 250 - 200)"

definition frame_at :: "nat \<Rightarrow> MajorFrameState \<Rightarrow> bool" where
  "frame_at n st \<longleftrightarrow> current_slot_index st = slot_at n \<and> unat (ticks_elapsed_in_current_slot st) = elapsed_at n"

definition slot_boundary :: "nat \<Rightarrow> bool" where
  "slot_boundary n \<longleftrightarrow> n mod 250 = 0 \<or> n mod 250 = 100 \<or> n mod 250 = 200"

lemma frame_at_0: "frame_at 0 new_major_frame_state"
  by (simp add: frame_at_def new_major_frame_state_def slot_at_def elapsed_at_def)

text \<open>The slot index and its elapsed ticks advance like a clock of period 250.\<close>

lemma elapsed_step:
  "(slot_boundary (n + 1) \<longrightarrow> elapsed_at n + 1 = (if slot_at n = 2 then 50 else 100) \<and> elapsed_at (n + 1) = 0 \<and>
      slot_at (n + 1) = (if slot_at n = 2 then 0 else slot_at n + 1)) \<and>
   (\<not> slot_boundary (n + 1) \<longrightarrow> elapsed_at n + 1 < (if slot_at n = 2 then 50 else 100) \<and>
      elapsed_at (n + 1) = elapsed_at n + 1 \<and> slot_at (n + 1) = slot_at n)"
proof -
  obtain r where r: "n mod 250 = r" by blast
  have "(n + 1) mod 250 = (if r = 249 then 0 else r + 1)" "r < 250"
    using r by (auto simp: mod_Suc)
  then show ?thesis
    unfolding slot_boundary_def elapsed_at_def slot_at_def r by auto
qed

lemma unat_plus_1: "unat w + 1 < 2 ^ 64 \<Longrightarrow> unat (w + 1 :: u64) = unat w + 1"
  by (simp add: unat_word_ariths)

lemma elapsed_small: "elapsed_at n < 100"
proof -
  have "n mod 250 < 250" by simp
  then show ?thesis unfolding elapsed_at_def by auto
qed

lemma slot_at_cases: "slot_at n = 0 \<or> slot_at n = 1 \<or> slot_at n = 2"
  by (simp add: slot_at_def)

lemma advance_partition_step:
  assumes f: "frame_at n st"
  shows "\<exists>st'. advance_partition_slot_if_expired st g =
      Some (if slot_boundary (n + 1) then SwitchToPartitionSlot else ContinueCurrentThread, st',
        increment_global_monotonic_tick_count g) \<and> frame_at (n + 1) st'"
proof -
  let ?st1 = "st\<lparr> ticks_elapsed_in_current_slot := ticks_elapsed_in_current_slot st + 1,
    total_ticks_in_major_frame := total_ticks_in_major_frame st + 1 \<rparr>"
  have el: "unat (ticks_elapsed_in_current_slot ?st1) = elapsed_at n + 1"
    using f elapsed_small [of n] by (simp add: frame_at_def unat_plus_1)
  have dur: "current_slot_duration ?st1 = Some (if slot_at n = 2 then 50 else 100)"
    using f slot_at_cases [of n]
    by (auto simp: frame_at_def current_slot_duration_def array_get_def PARTITION_TABLE_def)
  have cmp: "(if slot_at n = 2 then 50 else 100) \<le> ticks_elapsed_in_current_slot ?st1 \<longleftrightarrow> slot_boundary (n + 1)"
    using elapsed_step [of n] el by (cases "slot_boundary (n + 1)") (auto simp: word_le_nat_alt)
  show ?thesis
  proof (cases "slot_boundary (n + 1)")
    case True
    then show ?thesis
      using elapsed_step [of n] f cmp slot_at_cases [of n]
      by (auto simp: advance_partition_slot_if_expired_def Let_def dur frame_at_def advance_to_next_slot_def
          PARTITION_TABLE_def)
  next
    case False
    then show ?thesis
      using elapsed_step [of n] f cmp el
      by (auto simp: advance_partition_slot_if_expired_def Let_def dur frame_at_def)
  qed
qed

section \<open>Runs of ticks\<close>

fun run_ticks ::
  "nat \<Rightarrow> SchedulerState \<Rightarrow> SchedulerStatics \<Rightarrow> (SchedulerAction list \<times> SchedulerState \<times> SchedulerStatics) option" where
  "run_ticks 0 st g = Some ([], st, g)"
| "run_ticks (Suc n) st g =
     (case run_ticks n st g of
        None \<Rightarrow> None
      | Some (as, st', g') \<Rightarrow>
        (case process_scheduler_tick st' g' of
           None \<Rightarrow> None
         | Some (a, st'', g'') \<Rightarrow> Some (as @ [a], st'', g'')))"

text \<open>The state of a run in which thread \<open>t\<close> stays current, \<open>n\<close> ticks into the frame.\<close>

definition running :: "nat \<Rightarrow> u32 \<Rightarrow> SchedulerState \<Rightarrow> bool" where
  "running n t st \<longleftrightarrow> frame_at n (major_frame_state st) \<and> current_thread_index st = Some t \<and>
     unat t < 32 \<and> length (thread_budgets st) = 32"

definition expected_action :: "nat \<Rightarrow> bool \<Rightarrow> SchedulerAction" where
  "expected_action n exhausted =
     (if slot_boundary n then (if exhausted then PreemptAndSwitchSlot else SwitchToPartitionSlot)
      else (if exhausted then PreemptCurrentThread else ContinueCurrentThread))"

lemma tick_running:
  assumes r: "running n t st"
  shows "\<exists>st'. process_scheduler_tick st g =
      Some (expected_action (n + 1) (unat (thread_budgets st ! unat t) \<le> 1), st',
        increment_global_monotonic_tick_count g) \<and>
    running (n + 1) t st' \<and> current_tick st' = current_tick st + 1 \<and>
    unat (thread_budgets st' ! unat t) = unat (thread_budgets st ! unat t) - 1 \<and>
    (\<forall>i. i \<noteq> unat t \<longrightarrow> thread_budgets st' ! i = thread_budgets st ! i)"
proof -
  let ?b = "decrement_budget (thread_budgets st ! unat t)"
  let ?st2 = "st\<lparr> current_tick := current_tick st + 1, thread_budgets := (thread_budgets st)[unat t := ?b] \<rparr>"
  have b: "unat ?b = unat (thread_budgets st ! unat t) - 1"
    by (simp add: decrement_budget_def unat_saturating_sub)
  have zero: "?b = 0 \<longleftrightarrow> unat (thread_budgets st ! unat t) \<le> 1"
    using b by (metis diff_is_0_eq unsigned_eq_0_iff)
  from advance_partition_step [of n "major_frame_state st" g] r obtain mf where mf:
    "advance_partition_slot_if_expired (major_frame_state st) g =
      Some (if slot_boundary (n + 1) then SwitchToPartitionSlot else ContinueCurrentThread, mf,
        increment_global_monotonic_tick_count g)" "frame_at (n + 1) mf"
    by (auto simp: running_def)
  have "process_scheduler_tick st g =
      Some (expected_action (n + 1) (unat (thread_budgets st ! unat t) \<le> 1), ?st2\<lparr> major_frame_state := mf \<rparr>,
        increment_global_monotonic_tick_count g)"
    using r mf(1) zero
    by (simp add: process_scheduler_tick_def decrement_current_thread_budget_def array_get_def running_def
        evaluate_current_thread_budget_def check_budget_exhaustion_def combine_scheduler_actions_def
        expected_action_def Let_def)
  then show ?thesis using r mf(2) b by (auto simp: running_def)
qed

lemma run_ticks_running:
  assumes r: "running k t st"
  shows "\<exists>as st' g'. run_ticks n st g = Some (as, st', g') \<and> running (k + n) t st' \<and>
    as = map (\<lambda>i. expected_action (k + i + 1) (unat (thread_budgets st ! unat t) \<le> i + 1)) [0..<n] \<and>
    unat (thread_budgets st' ! unat t) = unat (thread_budgets st ! unat t) - n \<and>
    (\<forall>i. i \<noteq> unat t \<longrightarrow> thread_budgets st' ! i = thread_budgets st ! i)"
proof (induction n)
  case (Suc n)
  then obtain as st' g' where IH: "run_ticks n st g = Some (as, st', g')" "running (k + n) t st'"
    "as = map (\<lambda>i. expected_action (k + i + 1) (unat (thread_budgets st ! unat t) \<le> i + 1)) [0..<n]"
    "unat (thread_budgets st' ! unat t) = unat (thread_budgets st ! unat t) - n"
    "\<forall>i. i \<noteq> unat t \<longrightarrow> thread_budgets st' ! i = thread_budgets st ! i" by blast
  from tick_running [OF IH(2), of g'] obtain st'' where
    "process_scheduler_tick st' g' =
      Some (expected_action (k + n + 1) (unat (thread_budgets st' ! unat t) \<le> 1), st'',
        increment_global_monotonic_tick_count g')"
    "running (k + n + 1) t st''"
    "unat (thread_budgets st'' ! unat t) = unat (thread_budgets st' ! unat t) - 1"
    "\<forall>i. i \<noteq> unat t \<longrightarrow> thread_budgets st'' ! i = thread_budgets st' ! i" by blast
  moreover have "(unat (thread_budgets st' ! unat t) \<le> 1) = (unat (thread_budgets st ! unat t) \<le> n + 1)"
    using IH(4) by auto
  ultimately show ?case using IH by simp
qed (use r in simp)

text \<open>The frame alone, as the timer drives it.\<close>

fun run_frame :: "nat \<Rightarrow> MajorFrameState \<Rightarrow> SchedulerStatics \<Rightarrow> (SchedulerAction list \<times> MajorFrameState \<times> SchedulerStatics) option" where
  "run_frame 0 st g = Some ([], st, g)"
| "run_frame (Suc n) st g =
     (case run_frame n st g of
        None \<Rightarrow> None
      | Some (as, st', g') \<Rightarrow>
        (case advance_partition_slot_if_expired st' g' of
           None \<Rightarrow> None
         | Some (a, st'', g'') \<Rightarrow> Some (as @ [a], st'', g'')))"

lemma run_frame_eq:
  "\<exists>st' g'. run_frame n new_major_frame_state g =
      Some (map (\<lambda>i. if slot_boundary (i + 1) then SwitchToPartitionSlot else ContinueCurrentThread) [0..<n], st', g') \<and>
    frame_at n st' \<and> global_monotonic_tick_count g' = global_monotonic_tick_count g + of_nat n"
proof (induction n)
  case (Suc n)
  then obtain st' g' where IH: "run_frame n new_major_frame_state g =
      Some (map (\<lambda>i. if slot_boundary (i + 1) then SwitchToPartitionSlot else ContinueCurrentThread) [0..<n], st', g')"
    "frame_at n st'" "global_monotonic_tick_count g' = global_monotonic_tick_count g + of_nat n" by blast
  from advance_partition_step [OF IH(2), of g'] obtain st'' where
    "advance_partition_slot_if_expired st' g' =
      Some (if slot_boundary (n + 1) then SwitchToPartitionSlot else ContinueCurrentThread, st'',
        increment_global_monotonic_tick_count g')" "frame_at (n + 1) st''" by blast
  then show ?case using IH by (simp add: increment_global_monotonic_tick_count_def)
qed (simp add: frame_at_0)

section \<open>Selection\<close>

definition eligible :: "SchedulerState \<Rightarrow> Thread list \<Rightarrow> u8 \<Rightarrow> usize \<Rightarrow> bool" where
  "eligible st threads domain i \<longleftrightarrow>
     thread_state (threads ! i) = Ready \<and> thread_domain_slots st ! i = domain \<and> thread_budgets st ! i > 0"

definition lent_priority :: "SchedulerState \<Rightarrow> usize \<Rightarrow> u8" where
  "lent_priority st i = compute_effective_priority (effective_priority_table st ! i)"

lemma rebuild_loop_eq:
  assumes "current_active_domain_identifier (major_frame_state st) = Some d"
  shows "rebuild_loop is st threads =
    Some (st\<lparr> run_queue := fold (\<lambda>e q. snd (insert_thread q (fst e) (snd e)))
      (map (\<lambda>i. (of_nat i, lent_priority st i)) (filter (eligible st threads d) is)) (run_queue st) \<rparr>)"
  using assms
proof (induction "is" arbitrary: st)
  case (Cons i "is")
  let ?st = "insert_eligible_thread_into_run_queue i st"
  have elig: "is_thread_eligible_to_run i st threads = Some (eligible st threads d i)"
    using Cons.prems by (auto simp: is_thread_eligible_to_run_def is_thread_eligible_for_current_slot_def
        eligible_def Let_def)
  have st: "?st = st\<lparr> run_queue := snd (insert_thread (run_queue st) (of_nat i) (lent_priority st i)) \<rparr>"
    by (simp add: insert_eligible_thread_into_run_queue_def lent_priority_def split_beta Let_def)
  have "eligible ?st threads d = eligible st threads d" "lent_priority ?st = lent_priority st"
    by (auto simp: st eligible_def lent_priority_def fun_eq_iff)
  then show ?case using Cons.IH [of ?st] Cons.IH [of st] Cons.prems elig by (simp add: st)
qed simp

lemma filter_map_first:
  assumes "filter (\<lambda>x. snd x = p) (map (\<lambda>i. (f i, g i)) xs) = (t, p) # rest" "sorted xs"
  obtains i where "i \<in> set xs" "f i = t" "g i = p" "\<forall>j \<in> set xs. g j = p \<longrightarrow> i \<le> j"
proof -
  let ?js = "filter (\<lambda>i. g i = p) xs"
  have "map (\<lambda>i. (f i, g i)) ?js = (t, p) # rest"
    using assms(1) by (simp add: filter_map comp_def)
  then obtain i js where js: "?js = i # js" "f i = t" "g i = p" by (cases ?js) auto
  have "sorted (i # js)" using sorted_wrt_filter [OF assms(2), of "\<lambda>i. g i = p"] js(1) by simp
  then have "i \<le> j" if "j \<in> set xs" "g j = p" for j
  proof -
    have "j \<in> set (i # js)" using that js(1) [symmetric] by simp
    then show ?thesis using \<open>sorted (i # js)\<close> by auto
  qed
  moreover have "i \<in> set xs" using js by (metis filter_is_subset list.set_intros(1) subsetD)
  ultimately show thesis using js by (intro that [of i]) auto
qed

lemma rebuild_selects:
  assumes d: "current_active_domain_identifier (major_frame_state st) = Some d"
  shows "\<exists>st'. rebuild_run_queue_for_current_slot st threads = Some st' \<and>
    (case select_next_thread_to_run st' of
       None \<Rightarrow> \<forall>i < 32. \<not> eligible st threads d i
     | Some t \<Rightarrow> unat t < 32 \<and> eligible st threads d (unat t) \<and>
         (\<forall>i < 32. eligible st threads d i \<longrightarrow>
            lent_priority st i < lent_priority st (unat t) \<or>
            (lent_priority st i = lent_priority st (unat t) \<and> unat t \<le> i)))"
proof -
  let ?is = "filter (eligible st threads d) [0..<MAXIMUM_THREADS]"
  let ?es = "map (\<lambda>i. (of_nat i :: u32, lent_priority st i)) ?is"
  let ?q = "fold (\<lambda>e q. snd (insert_thread q (fst e) (snd e))) ?es new_run_queue"
  let ?st0 = "st\<lparr> run_queue := new_run_queue \<rparr>"
  have same: "eligible ?st0 threads d = eligible st threads d" "lent_priority ?st0 = lent_priority st"
    by (auto simp: eligible_def lent_priority_def fun_eq_iff)
  have rb: "rebuild_run_queue_for_current_slot st threads = Some (st\<lparr> run_queue := ?q \<rparr>)"
    using rebuild_loop_eq [of ?st0 d "[0..<MAXIMUM_THREADS]" threads] d
    by (simp add: rebuild_run_queue_for_current_slot_def same)
  have "length ?es \<le> MAXIMUM_THREADS"
    by (metis length_map length_filter_le length_upt diff_zero)
  note head = rq.batch_head [OF rq_new this]
  have set_is: "i \<in> set ?is \<longleftrightarrow> i < 32 \<and> eligible st threads d i" for i by (auto simp: MAXIMUM_THREADS_def)
  show ?thesis
  proof (cases "?is = []")
    case True
    then have "select_next_thread_to_run (st\<lparr> run_queue := ?q \<rparr>) = None"
      using head by (simp add: select_next_thread_to_run_def)
    moreover have "\<not> eligible st threads d i" if "i < 32" for i
      using True that set_is [of i] by simp
    ultimately show ?thesis using rb by auto
  next
    case False
    then obtain t p rest where t: "select_highest_priority_thread ?q = Some t"
      "filter (\<lambda>x. snd x = p) ?es = (t, p) # rest" "\<forall>e \<in> set ?es. snd e \<le> p" using head by auto
    have so: "sorted ?is" by (intro sorted_wrt_filter sorted_upt)
    obtain i where i: "i \<in> set ?is" "of_nat i = t" "lent_priority st i = p"
      "\<forall>j \<in> set ?is. lent_priority st j = p \<longrightarrow> i \<le> j"
      by (rule filter_map_first [where f = of_nat and g = "lent_priority st", OF t(2) so])
    have el: "i < 32" "eligible st threads d i" using set_is [THEN iffD1, OF i(1)] by auto
    then have ti: "unat t = i" by (simp add: i(2) [symmetric] unat_of_nat_small)
    have best: "lent_priority st j < p \<or> (lent_priority st j = p \<and> i \<le> j)"
      if "j < 32" "eligible st threads d j" for j
    proof -
      have j: "j \<in> set ?is" using set_is [THEN iffD2] that by blast
      have "lent_priority st j \<le> p" using t(3) that by (simp add: MAXIMUM_THREADS_def)
      moreover have "lent_priority st j = p \<Longrightarrow> i \<le> j" using bspec [OF i(4) j] by (rule mp)
      ultimately show ?thesis by (cases "lent_priority st j = p") (simp_all add: order_less_le)
    qed
    have "select_next_thread_to_run (st\<lparr> run_queue := ?q \<rparr>) = Some t"
      using t(1) by (simp add: select_next_thread_to_run_def)
    moreover have "\<forall>j < 32. eligible st threads d j \<longrightarrow>
        lent_priority st j < lent_priority st (unat t) \<or>
        (lent_priority st j = lent_priority st (unat t) \<and> unat t \<le> j)"
      using best by (simp only: ti i(3)) blast
    moreover have "unat t < 32" "eligible st threads d (unat t)" using el by (simp_all only: ti)
    ultimately show ?thesis using rb by (intro exI [of _ "st\<lparr> run_queue := ?q \<rparr>"]) (simp only: option.case)
  qed
qed

section \<open>Inheritance chains\<close>

text \<open>The threads a propagation visits: the start, the thread it waits on, and so on.\<close>

fun wait_chain :: "nat \<Rightarrow> u32 option list \<Rightarrow> usize \<Rightarrow> usize list" where
  "wait_chain 0 waiting i = []"
| "wait_chain (Suc n) waiting i =
     i # (case waiting ! i of None \<Rightarrow> [] | Some j \<Rightarrow> wait_chain n waiting (unat j))"

definition boosted :: "u8 \<Rightarrow> EffectivePriorityRecord \<Rightarrow> EffectivePriorityRecord" where
  "boosted w r = r\<lparr> inherited_priority := w, inheritance_is_active := True \<rparr>"

lemma boosted_idem [simp]: "boosted w (boosted w r) = boosted w r"
  by (simp add: boosted_def)

lemma propagate_loop_eq:
  assumes "\<forall>i < 32. \<forall>j. waiting ! i = Some j \<longrightarrow> unat j < 32" "length waiting = 32"
  shows "i < 32 \<Longrightarrow> length table = 32 \<Longrightarrow> \<exists>table'. propagate_loop n i w waiting table = Some table' \<and> length table' = 32 \<and>
    (\<forall>k < 32. table' ! k = (if k \<in> set (wait_chain n waiting i) then boosted w (table ! k) else table ! k))"
proof (induction n arbitrary: i table)
  case (Suc n)
  let ?t = "table[i := boosted w (table ! i)]"
  have b: "boost_thread_in_chain i w table = Some ?t"
    using Suc.prems by (simp add: boost_thread_in_chain_def array_get_def boosted_def)
  show ?case
  proof (cases "waiting ! i")
    case None
    then show ?thesis using b Suc.prems assms(2) by (auto simp: advance_chain_step_def array_get_def)
  next
    case (Some j)
    then have "unat j < 32" using assms(1) Suc.prems by blast
    from Suc.IH [OF this, of ?t] Suc.prems obtain t' where t': "propagate_loop n (unat j) w waiting ?t = Some t'"
      "length t' = 32"
      "\<forall>k < 32. t' ! k = (if k \<in> set (wait_chain n waiting (unat j)) then boosted w (?t ! k) else ?t ! k)" by auto
    have "propagate_loop (Suc n) i w waiting table = Some t'"
      using b t'(1) Some Suc.prems assms(2) by (simp add: advance_chain_step_def array_get_def)
    then show ?thesis using t'(2,3) Some Suc.prems by (auto simp: nth_list_update)
  qed
qed simp

section \<open>Properties\<close>

text \<open>
  C23. The run queue is a stable priority queue: after any inserts and removals its entries are those
  of a list kept in descending priority with ties in order of arrival and at most 32 places, and
  selection returns the head, whose priority no queued thread exceeds.
\<close>

theorem run_queue_is_stable_priority_queue:
  "let rq = foldl rq_step new_run_queue ops; es = foldl list_step [] ops in
   rq_entries rq = es \<and> sorted_wrt (\<lambda>a b. snd b \<le> snd a) es \<and>
   select_highest_priority_thread rq = (case es of [] \<Rightarrow> None | e # _ \<Rightarrow> Some (fst e))"
  using rq_run_simulates [OF rq_new(1), of ops] rq.sel [of "foldl rq_step new_run_queue ops"]
    list_run_descending [of "[]" ops]
  by (simp add: Let_def rq_new descending_def)

text \<open>
  C20. The thread selected for a partition slot is the right one: after the queue is rebuilt, selection
  finds no thread exactly when none is ready, in the active domain and within budget, and otherwise
  one that is, of the highest effective priority, and among those of the lowest index. No thread of
  another domain is ever selected.
\<close>

theorem rebuild_selects_best_eligible_thread:
  assumes "current_active_domain_identifier (major_frame_state st) = Some d"
  shows "\<exists>st'. rebuild_run_queue_for_current_slot st threads = Some st' \<and>
    (case select_next_thread_to_run st' of
       None \<Rightarrow> \<forall>i < 32. \<not> (thread_state (threads ! i) = Ready \<and> thread_domain_slots st ! i = d \<and> thread_budgets st ! i > 0)
     | Some t \<Rightarrow> unat t < 32 \<and> thread_state (threads ! unat t) = Ready \<and>
         thread_domain_slots st ! unat t = d \<and> thread_budgets st ! unat t > 0 \<and>
         (\<forall>i < 32. thread_state (threads ! i) = Ready \<and> thread_domain_slots st ! i = d \<and> thread_budgets st ! i > 0 \<longrightarrow>
            lent_priority st i < lent_priority st (unat t) \<or>
            (lent_priority st i = lent_priority st (unat t) \<and> unat t \<le> i)))"
  using rebuild_selects [OF assms, of threads] unfolding eligible_def conj_assoc .

theorem rebuild_selects_best_eligible_thread_witness:
  "\<exists>st'. rebuild_run_queue_for_current_slot
      (new_scheduler_state\<lparr> thread_budgets := (replicate 32 0)[5 := 3] \<rparr>) (replicate 32 new_thread) = Some st' \<and>
    select_next_thread_to_run st' \<noteq> None"
proof -
  let ?st = "new_scheduler_state\<lparr> thread_budgets := (replicate 32 0)[5 := 3] \<rparr>"
  have "current_active_domain_identifier (major_frame_state ?st) = Some 0"
    by (simp add: new_scheduler_state_def new_major_frame_state_def current_active_domain_identifier_def
        array_get_def PARTITION_TABLE_def)
  from rebuild_selects_best_eligible_thread [OF this, of "replicate 32 new_thread"] obtain st' where st':
    "rebuild_run_queue_for_current_slot ?st (replicate 32 new_thread) = Some st'"
    "select_next_thread_to_run st' = None \<Longrightarrow>
       \<forall>i < 32. \<not> (thread_state (replicate 32 new_thread ! i) = Ready \<and> thread_domain_slots ?st ! i = 0 \<and>
         thread_budgets ?st ! i > 0)"
    by (auto split: option.splits)
  moreover have "thread_state (replicate 32 new_thread ! 5) = Ready \<and> thread_domain_slots ?st ! 5 = 0 \<and>
      thread_budgets ?st ! 5 > 0"
    by (simp add: new_thread_def new_scheduler_state_def MAXIMUM_THREADS_def)
  ultimately show ?thesis by (metis numeral_less_iff semiring_norm(76,78,68,81))
qed

text \<open>
  C21. The partition schedule is fixed and periodic: from a fresh frame, whatever happened before, after
  n ticks the active domain is 0, 1 or 2 according to n modulo 250 lying below 100, below 200 or
  below 250, a slot switch is reported exactly on the ticks that cross these boundaries, and the
  global clock has advanced by n.
\<close>

theorem partition_schedule_is_periodic:
  "\<exists>st g'. run_frame n new_major_frame_state g =
      Some (map (\<lambda>i. if (i + 1) mod 250 = 0 \<or> (i + 1) mod 250 = 100 \<or> (i + 1) mod 250 = 200
        then SwitchToPartitionSlot else ContinueCurrentThread) [0..<n], st, g') \<and>
    current_active_domain_identifier st =
      Some (if n mod 250 < 100 then 0 else if n mod 250 < 200 then 1 else 2) \<and>
    global_monotonic_tick_count g' = global_monotonic_tick_count g + of_nat n"
proof -
  from run_frame_eq [of n g] obtain st g' where f: "run_frame n new_major_frame_state g =
      Some (map (\<lambda>i. if slot_boundary (i + 1) then SwitchToPartitionSlot else ContinueCurrentThread) [0..<n], st, g')"
    "frame_at n st" "global_monotonic_tick_count g' = global_monotonic_tick_count g + of_nat n" by blast
  have "current_active_domain_identifier st =
      Some (if n mod 250 < 100 then 0 else if n mod 250 < 200 then 1 else 2)"
    using f(2) by (simp add: frame_at_def slot_at_def current_active_domain_identifier_def array_get_def
        PARTITION_TABLE_def)
  then show ?thesis using f unfolding slot_boundary_def by blast
qed

text \<open>
  C22. Budgets are enforced to the tick: while a thread with a budget of b ticks stays current, each
  tick takes one from its budget and from nobody else's, and the thread is told to yield on the b-th
  tick and on every later one, never earlier; a slot boundary on the same tick is reported as well.
\<close>

theorem budget_is_enforced:
  assumes "current_thread_index st = Some t" "unat t < 32" "length (thread_budgets st) = 32"
    "major_frame_state st = new_major_frame_state"
  shows "\<exists>as st' g'. run_ticks n st g = Some (as, st', g') \<and> length as = n \<and>
    (\<forall>i < n. as ! i \<in> {PreemptCurrentThread, PreemptAndSwitchSlot} \<longleftrightarrow> unat (thread_budgets st ! unat t) \<le> i + 1) \<and>
    unat (thread_budgets st' ! unat t) = unat (thread_budgets st ! unat t) - n \<and>
    (\<forall>i. i \<noteq> unat t \<longrightarrow> thread_budgets st' ! i = thread_budgets st ! i)"
proof -
  have "running 0 t st" using assms by (simp add: running_def frame_at_0)
  from run_ticks_running [OF this, of n g] obtain as st' g' where r: "run_ticks n st g = Some (as, st', g')"
    "as = map (\<lambda>i. expected_action (0 + i + 1) (unat (thread_budgets st ! unat t) \<le> i + 1)) [0..<n]"
    "unat (thread_budgets st' ! unat t) = unat (thread_budgets st ! unat t) - n"
    "\<forall>i. i \<noteq> unat t \<longrightarrow> thread_budgets st' ! i = thread_budgets st ! i" by blast
  then show ?thesis by (intro exI [of _ as] exI [of _ st'] exI [of _ g']) (auto simp: expected_action_def)
qed

theorem budget_is_enforced_witness:
  "\<exists>as st' g'. run_ticks 3 (new_scheduler_state\<lparr> current_thread_index := Some 1,
      thread_budgets := (replicate 32 0)[1 := 2] \<rparr>) \<lparr> global_monotonic_tick_count = 0, current_thread_identifier_value = 1 \<rparr> =
    Some (as, st', g') \<and> length as = 3 \<and> as ! 1 \<in> {PreemptCurrentThread, PreemptAndSwitchSlot}"
  using budget_is_enforced [of "new_scheduler_state\<lparr> current_thread_index := Some 1,
      thread_budgets := (replicate 32 0)[1 := 2] \<rparr>" 1 3
      "\<lparr> global_monotonic_tick_count = 0, current_thread_identifier_value = 1 \<rparr>"]
  by (force simp: new_scheduler_state_def)

text \<open>
  C24. A propagated boost reaches exactly the chain: it visits the start, the thread that one waits on,
  and so on for at most 32 steps, so it also stops on a cycle. Every visited thread then has the
  larger of its base priority and the waiter's, whatever boost it had before, and no other record
  changes.
\<close>

theorem priority_boost_reaches_exactly_the_chain:
  assumes "\<forall>i < 32. \<forall>j. waiting ! i = Some j \<longrightarrow> unat j < 32" "length waiting = 32" "unat start < 32"
    "length table = 32"
  shows "\<exists>table'. propagate_priority_inheritance start w waiting table = Some table' \<and>
    (\<forall>k < 32. if k \<in> set (wait_chain 32 waiting (unat start))
       then compute_effective_priority (table' ! k) = max (base_priority (table ! k)) w \<and>
         base_priority (table' ! k) = base_priority (table ! k)
       else table' ! k = table ! k)"
  using propagate_loop_eq [OF assms(1,2,3,4), of 32 w]
  by (auto simp: propagate_priority_inheritance_def MAXIMUM_THREADS_def boosted_def compute_effective_priority_def)

theorem priority_boost_reaches_exactly_the_chain_witness:
  "\<exists>table'. propagate_priority_inheritance 0 3 ((replicate 32 None)[0 := Some 4])
      ((replicate 32 (new_effective_priority_record 1))[4 := \<lparr> base_priority = 1, inherited_priority = 9, inheritance_is_active = True \<rparr>]) =
    Some table' \<and> compute_effective_priority (table' ! 4) = 3"
proof -
  let ?w = "(replicate 32 None)[0 := Some (4 :: u32)]"
  let ?t = "(replicate 32 (new_effective_priority_record 1))[4 := \<lparr> base_priority = 1, inherited_priority = 9, inheritance_is_active = True \<rparr>]"
  have "\<forall>i < 32. \<forall>j. ?w ! i = Some j \<longrightarrow> unat j < 32" by (auto simp: nth_list_update split: if_splits)
  moreover have "4 \<in> set (wait_chain 32 ?w 0)"
    using wait_chain.simps(2) [of 31 ?w 0] wait_chain.simps(2) [of 30 ?w 4] by simp
  ultimately show ?thesis
    using priority_boost_reaches_exactly_the_chain [of ?w 0 ?t 3] by (force simp: max_def)
qed

end
