(* ===== verification/Kernel_Memory.thy ===== *)
theory Kernel_Memory
  imports Kernel_Prelude
begin

text \<open>
  Kernel memory: the bounded stack, the fixed-size object pool and the physical page allocator
  (\<open>memory/bounded_stack.rs\<close>, \<open>memory/pool_allocator.rs\<close>, \<open>memory/physical_allocator.rs\<close>), and the
  reserved virtual regions (\<open>memory/reserved_regions.rs\<close>, \<open>memory/virtual_address_layout.rs\<close>), with
  the x86-64 page size. Physical memory is a function from addresses to bytes.
\<close>

section \<open>Errors, page types, addresses\<close>

datatype AllocationError = OutOfMemory | DoubleFree | PoolExhausted | ForbiddenFree

datatype PageType = Kernel | UserOwned | Free | DeviceMapped | IpcBuffer

definition is_kernel_owned :: "PageType \<Rightarrow> bool" where
  "is_kernel_owned p = (case p of Kernel \<Rightarrow> True | _ \<Rightarrow> False)"

definition is_free :: "PageType \<Rightarrow> bool" where
  "is_free p = (case p of Free \<Rightarrow> True | _ \<Rightarrow> False)"

definition PAGE_SIZE_IN_BYTES :: usize where "PAGE_SIZE_IN_BYTES = 4096"
definition KERNEL_STACK_REGION_START :: u64 where "KERNEL_STACK_REGION_START = 0xFFFF800000000000"
definition KERNEL_STACK_REGION_END :: u64 where "KERNEL_STACK_REGION_END = 0xFFFF8000FFFFFFFF"
definition POOL_REGION_START :: u64 where "POOL_REGION_START = 0xFFFF800100000000"
definition POOL_REGION_END :: u64 where "POOL_REGION_END = 0xFFFF8001FFFFFFFF"
definition DIRECT_MAP_REGION_START :: u64 where "DIRECT_MAP_REGION_START = 0xFFFF880000000000"
definition DIRECT_MAP_REGION_END :: u64 where "DIRECT_MAP_REGION_END = 0xFFFF8800FFFFFFFF"

definition is_kernel_virtual_address :: "u64 \<Rightarrow> bool" where
  "is_kernel_virtual_address address \<longleftrightarrow> address \<ge> KERNEL_STACK_REGION_START"

section \<open>The bounded stack\<close>

text \<open>The const parameter \<open>CAPACITY\<close> is the length of the storage array.\<close>

record BoundedStack =
  stack_storage :: "u64 list"
  stack_count :: usize

definition new_stack :: "usize \<Rightarrow> BoundedStack" where
  "new_stack capacity = \<lparr> stack_storage = replicate capacity 0, stack_count = 0 \<rparr>"

definition push :: "BoundedStack \<Rightarrow> u64 \<Rightarrow> (unit, AllocationError) result \<times> BoundedStack" where
  "push s value =
     (if stack_count s = length (stack_storage s) then (Err OutOfMemory, s)
      else (Ok (), s\<lparr> stack_storage := (stack_storage s)[stack_count s := value],
                      stack_count := usize_wrapping_add (stack_count s) 1 \<rparr>))"

definition pop :: "BoundedStack \<Rightarrow> u64 option \<times> BoundedStack" where
  "pop s =
     (if stack_count s = 0 then (None, s)
      else (let s' = s\<lparr> stack_count := stack_count s - 1 \<rparr> in (Some (stack_storage s' ! stack_count s'), s')))"

section \<open>The object pool\<close>

text \<open>
  \<open>zero\<close> is the value whose bytes are all zero; freshly built storage is uninitialised, so a new pool
  has arbitrary contents.
\<close>

record 'a PoolAllocator =
  backing_storage :: "'a list"
  slot_is_allocated :: "bool list"
  allocated_count :: usize

definition new_pool :: "'a list \<Rightarrow> 'a PoolAllocator" where
  "new_pool uninit = \<lparr> backing_storage = uninit, slot_is_allocated = replicate (length uninit) False,
     allocated_count = 0 \<rparr>"

definition find_first_free_slot_index :: "'a PoolAllocator \<Rightarrow> (usize, AllocationError) result" where
  "find_first_free_slot_index p = ok_or (position (\<lambda>allocated. \<not> allocated) (slot_is_allocated p)) PoolExhausted"

definition mark_slot_as_allocated :: "'a PoolAllocator \<Rightarrow> usize \<Rightarrow> 'a PoolAllocator" where
  "mark_slot_as_allocated p i = p\<lparr> slot_is_allocated := (slot_is_allocated p)[i := True] \<rparr>"

definition mark_slot_as_free :: "'a PoolAllocator \<Rightarrow> usize \<Rightarrow> 'a PoolAllocator" where
  "mark_slot_as_free p i = p\<lparr> slot_is_allocated := (slot_is_allocated p)[i := False] \<rparr>"

definition increment_allocated_count :: "'a PoolAllocator \<Rightarrow> 'a PoolAllocator" where
  "increment_allocated_count p = p\<lparr> allocated_count := allocated_count p + 1 \<rparr>"

definition decrement_allocated_count :: "'a PoolAllocator \<Rightarrow> 'a PoolAllocator" where
  "decrement_allocated_count p = p\<lparr> allocated_count := allocated_count p - 1 \<rparr>"

definition zero_slot_memory :: "'a \<Rightarrow> 'a PoolAllocator \<Rightarrow> usize \<Rightarrow> 'a PoolAllocator" where
  "zero_slot_memory zero p i = p\<lparr> backing_storage := (backing_storage p)[i := zero] \<rparr>"

definition allocate :: "'a \<Rightarrow> 'a PoolAllocator \<Rightarrow> (usize \<times> 'a, AllocationError) result \<times> 'a PoolAllocator" where
  "allocate zero p =
     (case find_first_free_slot_index p of
        Err e \<Rightarrow> (Err e, p)
      | Ok slot_index \<Rightarrow>
        (let p1 = mark_slot_as_allocated p slot_index;
             p2 = increment_allocated_count p1;
             p3 = zero_slot_memory zero p2 slot_index
         in (Ok (slot_index, backing_storage p3 ! slot_index), p3)))"

definition validate_slot_index_is_allocated :: "'a PoolAllocator \<Rightarrow> usize \<Rightarrow> (unit, AllocationError) result" where
  "validate_slot_index_is_allocated p slot_index =
     (if slot_index \<ge> length (slot_is_allocated p) then Err DoubleFree
      else if \<not> slot_is_allocated p ! slot_index then Err DoubleFree else Ok ())"

definition deallocate :: "'a \<Rightarrow> 'a PoolAllocator \<Rightarrow> usize \<Rightarrow> (unit, AllocationError) result \<times> 'a PoolAllocator" where
  "deallocate zero p slot_index =
     (case validate_slot_index_is_allocated p slot_index of
        Err e \<Rightarrow> (Err e, p)
      | Ok _ \<Rightarrow>
        (Ok (), decrement_allocated_count (mark_slot_as_free (zero_slot_memory zero p slot_index) slot_index)))"

section \<open>The physical page allocator\<close>

definition MAXIMUM_PHYSICAL_PAGES :: usize where "MAXIMUM_PHYSICAL_PAGES = 262144"
definition PROCESS_IDENTIFIER_NONE :: u16 where "PROCESS_IDENTIFIER_NONE = 0"

record PhysicalAllocator =
  free_page_stack :: BoundedStack
  page_type_table :: "PageType list"
  page_owner_table :: "u16 list"
  total_pages_discovered :: usize

type_synonym phys_memory = "u64 \<Rightarrow> u8"

definition new_physical_allocator :: PhysicalAllocator where
  "new_physical_allocator = \<lparr> free_page_stack = new_stack MAXIMUM_PHYSICAL_PAGES,
     page_type_table = replicate MAXIMUM_PHYSICAL_PAGES Free,
     page_owner_table = replicate MAXIMUM_PHYSICAL_PAGES PROCESS_IDENTIFIER_NONE,
     total_pages_discovered = 0 \<rparr>"

definition compute_page_frame_number :: "u64 \<Rightarrow> usize" where
  "compute_page_frame_number physical_address = unat (physical_address div of_nat PAGE_SIZE_IN_BYTES)"

definition push_if_free_page :: "BoundedStack \<Rightarrow> u64 \<Rightarrow> PageType \<Rightarrow> (unit, AllocationError) result \<times> BoundedStack" where
  "push_if_free_page s physical_address page_type =
     (if is_free page_type then
        (case push s physical_address of
           (Err _, s') \<Rightarrow> (Err PoolExhausted, s')
         | (Ok _, s') \<Rightarrow> (Ok (), s'))
      else (Ok (), s))"

definition register_physical_page :: "PhysicalAllocator \<Rightarrow> u64 \<Rightarrow> PageType \<Rightarrow> PhysicalAllocator" where
  "register_physical_page pa physical_address page_type =
     (let frame_number = compute_page_frame_number physical_address in
      if frame_number \<ge> MAXIMUM_PHYSICAL_PAGES then pa
      else
        pa\<lparr> page_type_table := (page_type_table pa)[frame_number := page_type],
            total_pages_discovered := usize_wrapping_add (total_pages_discovered pa) 1,
            free_page_stack := snd (push_if_free_page (free_page_stack pa) physical_address page_type) \<rparr>)"

definition pop_free_page_address :: "BoundedStack \<Rightarrow> (u64, AllocationError) result \<times> BoundedStack" where
  "pop_free_page_address s = (let (v, s') = pop s in (ok_or v OutOfMemory, s'))"

definition verify_page_is_free :: "PageType \<Rightarrow> (unit, AllocationError) result" where
  "verify_page_is_free page_type = (if \<not> is_free page_type then Err DoubleFree else Ok ())"

definition reject_invalid_deallocation :: "PageType \<Rightarrow> (unit, AllocationError) result" where
  "reject_invalid_deallocation page_type =
     (if is_free page_type then Err DoubleFree
      else if is_kernel_owned page_type then Err ForbiddenFree
      else Ok ())"

text \<open>\<open>write_bytes\<close> of one page at the direct-map address.\<close>

definition zero_page_at_address :: "u64 \<Rightarrow> phys_memory \<Rightarrow> phys_memory" where
  "zero_page_at_address physical_address mem =
     (let virtual_address = physical_address + DIRECT_MAP_REGION_START
      in (\<lambda>x. if unat (x - virtual_address) < PAGE_SIZE_IN_BYTES then 0 else mem x))"

text \<open>
  The two allocation routines differ in the type they give the page. A frame number outside the
  table panics: \<open>None\<close>.
\<close>

definition allocate_page_as ::
  "PageType \<Rightarrow> PhysicalAllocator \<Rightarrow> phys_memory \<Rightarrow>
   ((u64, AllocationError) result \<times> PhysicalAllocator \<times> phys_memory) option" where
  "allocate_page_as new_type pa mem =
     (case pop_free_page_address (free_page_stack pa) of
        (Err e, s) \<Rightarrow> Some (Err e, pa\<lparr> free_page_stack := s \<rparr>, mem)
      | (Ok physical_address, s) \<Rightarrow>
        (let pa1 = pa\<lparr> free_page_stack := s \<rparr>;
             frame_number = compute_page_frame_number physical_address
         in if frame_number \<ge> length (page_type_table pa1) then None
            else
              (case verify_page_is_free (page_type_table pa1 ! frame_number) of
                 Err e \<Rightarrow> Some (Err e, pa1, mem)
               | Ok _ \<Rightarrow>
                 Some (Ok physical_address,
                   pa1\<lparr> page_type_table := (page_type_table pa1)[frame_number := new_type] \<rparr>,
                   zero_page_at_address physical_address mem))))"

definition allocate_user_page ::
  "PhysicalAllocator \<Rightarrow> phys_memory \<Rightarrow> ((u64, AllocationError) result \<times> PhysicalAllocator \<times> phys_memory) option" where
  "allocate_user_page pa mem = allocate_page_as UserOwned pa mem"

definition allocate_kernel_page ::
  "PhysicalAllocator \<Rightarrow> phys_memory \<Rightarrow> ((u64, AllocationError) result \<times> PhysicalAllocator \<times> phys_memory) option" where
  "allocate_kernel_page pa mem = allocate_page_as Kernel pa mem"

definition deallocate_page ::
  "PhysicalAllocator \<Rightarrow> phys_memory \<Rightarrow> u64 \<Rightarrow>
   ((unit, AllocationError) result \<times> PhysicalAllocator \<times> phys_memory) option" where
  "deallocate_page pa mem physical_address =
     (let frame_number = compute_page_frame_number physical_address in
      if frame_number \<ge> length (page_type_table pa) then None
      else
        (case reject_invalid_deallocation (page_type_table pa ! frame_number) of
           Err e \<Rightarrow> Some (Err e, pa, mem)
         | Ok _ \<Rightarrow>
           (let mem' = zero_page_at_address physical_address mem;
                (r, s') = push (free_page_stack pa) physical_address;
                pa' = pa\<lparr> page_type_table := (page_type_table pa)[frame_number := Free],
                  page_owner_table := (page_owner_table pa)[frame_number := PROCESS_IDENTIFIER_NONE],
                  free_page_stack := s' \<rparr>
            in Some (case r of Err _ \<Rightarrow> Err PoolExhausted | Ok _ \<Rightarrow> Ok (), pa', mem'))))"

section \<open>Reserved regions\<close>

definition WEIGHTS_REGION_START :: u64 where "WEIGHTS_REGION_START = 0xFFFF900000000000"
definition WEIGHTS_REGION_PAGES :: usize where "WEIGHTS_REGION_PAGES = 2 ^ 20"
definition KV_REGION_START :: u64 where "KV_REGION_START = 0xFFFF980000000000"
definition KV_PARTITION_PAGES :: usize where "KV_PARTITION_PAGES = 2 ^ 14"
definition KV_PARTITION_COUNT :: usize where "KV_PARTITION_COUNT = 8"

record Region =
  region_start :: u64
  region_pages :: usize

definition length_in_bytes :: "Region \<Rightarrow> u64 option" where
  "length_in_bytes r = checked_mul (of_nat (region_pages r)) (of_nat PAGE_SIZE_IN_BYTES)"

definition end_exclusive :: "Region \<Rightarrow> u64 option" where
  "end_exclusive r =
     (case length_in_bytes r of Some len \<Rightarrow> checked_add (region_start r) len | None \<Rightarrow> None)"

definition overlaps :: "Region \<Rightarrow> Region \<Rightarrow> bool" where
  "overlaps a b =
     (case (end_exclusive a, end_exclusive b) of
        (Some a_end, Some b_end) \<Rightarrow> region_start a < b_end \<and> region_start b < a_end
      | _ \<Rightarrow> True)"

definition weights_region :: Region where
  "weights_region = \<lparr> region_start = WEIGHTS_REGION_START, region_pages = WEIGHTS_REGION_PAGES \<rparr>"

definition kv_region :: Region where
  "kv_region = \<lparr> region_start = KV_REGION_START,
     region_pages = usize_saturating_mul KV_PARTITION_PAGES KV_PARTITION_COUNT \<rparr>"

definition kv_partition :: "usize \<Rightarrow> Region option" where
  "kv_partition index =
     (if index \<ge> KV_PARTITION_COUNT then None
      else
        (case usize_checked_mul KV_PARTITION_PAGES index of
           None \<Rightarrow> None
         | Some offset_pages \<Rightarrow>
           (case checked_mul (of_nat offset_pages) (of_nat PAGE_SIZE_IN_BYTES) of
              None \<Rightarrow> None
            | Some offset_bytes \<Rightarrow>
              (case checked_add KV_REGION_START offset_bytes of
                 None \<Rightarrow> None
               | Some start \<Rightarrow> Some \<lparr> region_start = start, region_pages = KV_PARTITION_PAGES \<rparr>))))"

definition span :: "u64 \<Rightarrow> u64 \<Rightarrow> Region" where
  "span start end_inclusive =
     (let len = saturating_add (saturating_sub end_inclusive start) 1
      in \<lparr> region_start = start, region_pages = unat (len div of_nat PAGE_SIZE_IN_BYTES) \<rparr>)"

definition established_regions :: "Region list" where
  "established_regions =
     [span KERNEL_STACK_REGION_START KERNEL_STACK_REGION_END,
      span POOL_REGION_START POOL_REGION_END,
      span DIRECT_MAP_REGION_START DIRECT_MAP_REGION_END]"

definition reserved_regions_are_disjoint :: bool where
  "reserved_regions_are_disjoint \<longleftrightarrow>
     (if overlaps weights_region kv_region then False
      else \<not> (\<exists>r \<in> set established_regions. overlaps weights_region r \<or> overlaps kv_region r))"

end
