(* ===== verification/Memory_Claims.thy ===== *)
theory Memory_Claims
  imports Kernel_Memory
begin

text \<open>
  Correctness of the allocators and of the reserved regions. The free-page stack is used through the
  contract \<open>bounded_lifo\<close>.
\<close>

section \<open>The stack contract\<close>

locale bounded_lifo =
  fixes contents :: "'s \<Rightarrow> 'a list"
    and invar :: "'s \<Rightarrow> bool"
    and cap :: "'s \<Rightarrow> nat"
    and psh :: "'s \<Rightarrow> 'a \<Rightarrow> (unit, AllocationError) result \<times> 's"
    and pp :: "'s \<Rightarrow> 'a option \<times> 's"
  assumes psh_full: "invar s \<Longrightarrow> length (contents s) = cap s \<Longrightarrow> psh s x = (Err OutOfMemory, s)"
    and psh_ok: "invar s \<Longrightarrow> length (contents s) < cap s \<Longrightarrow>
      \<exists>s'. psh s x = (Ok (), s') \<and> invar s' \<and> contents s' = contents s @ [x] \<and> cap s' = cap s"
    and pp_empty: "invar s \<Longrightarrow> contents s = [] \<Longrightarrow> pp s = (None, s)"
    and pp_ok: "invar s \<Longrightarrow> contents s = xs @ [x] \<Longrightarrow>
      \<exists>s'. pp s = (Some x, s') \<and> invar s' \<and> contents s' = xs \<and> cap s' = cap s"
    and bounded: "invar s \<Longrightarrow> length (contents s) \<le> cap s"
begin

lemma push_cases:
  assumes "invar s" "psh s x = (r, s')"
  shows "invar s' \<and> cap s' = cap s \<and>
    (if length (contents s) < cap s then r = Ok () \<and> contents s' = contents s @ [x]
     else r = Err OutOfMemory \<and> s' = s)"
  using assms psh_full [OF assms(1), of x] psh_ok [OF assms(1), of x] bounded [OF assms(1)]
  by (cases "length (contents s) < cap s") auto

lemma pop_cases:
  assumes "invar s" "pp s = (v, s')"
  shows "invar s' \<and> cap s' = cap s \<and>
    (case v of None \<Rightarrow> contents s = [] \<and> s' = s | Some x \<Rightarrow> contents s = contents s' @ [x])"
  using assms pp_empty [OF assms(1)] pp_ok [OF assms(1)]
  by (cases "contents s" rule: rev_cases) auto

lemma push_pop:
  assumes "invar s" "psh s x = (Ok (), s')"
  shows "\<exists>s''. pp s' = (Some x, s'') \<and> contents s'' = contents s"
  using push_cases [OF assms] pp_ok [of s' "contents s" x] by (auto split: if_splits)

end

definition stack_contents :: "BoundedStack \<Rightarrow> u64 list" where
  "stack_contents s = take (stack_count s) (stack_storage s)"

definition stack_inv :: "BoundedStack \<Rightarrow> bool" where
  "stack_inv s \<longleftrightarrow> stack_count s \<le> length (stack_storage s) \<and> length (stack_storage s) < 2 ^ 64"

definition stack_capacity :: "BoundedStack \<Rightarrow> usize" where
  "stack_capacity s = length (stack_storage s)"

interpretation stk: bounded_lifo stack_contents stack_inv stack_capacity push pop
proof unfold_locales
  fix s x xs
  assume i: "stack_inv s"
  show "push s x = (Err OutOfMemory, s)" if "length (stack_contents s) = stack_capacity s"
    using that i by (auto simp: push_def stack_contents_def stack_capacity_def stack_inv_def min_def split: if_splits)
  show "\<exists>s'. push s x = (Ok (), s') \<and> stack_inv s' \<and> stack_contents s' = stack_contents s @ [x] \<and>
      stack_capacity s' = stack_capacity s" if "length (stack_contents s) < stack_capacity s"
    using that i
    by (auto simp: push_def stack_contents_def stack_capacity_def stack_inv_def take_Suc_conv_app_nth)
  show "pop s = (None, s)" if "stack_contents s = []"
    using that i by (auto simp: pop_def stack_contents_def stack_inv_def)
  show "\<exists>s'. pop s = (Some x, s') \<and> stack_inv s' \<and> stack_contents s' = xs \<and> stack_capacity s' = stack_capacity s"
    if c: "stack_contents s = xs @ [x]"
  proof (cases "stack_count s")
    case 0
    then show ?thesis using c by (simp add: stack_contents_def)
  next
    case (Suc k)
    then have "stack_contents s = take k (stack_storage s) @ [stack_storage s ! k]"
      using i by (simp add: stack_contents_def stack_inv_def take_Suc_conv_app_nth)
    then show ?thesis
      using c Suc i by (auto simp: pop_def stack_inv_def stack_contents_def stack_capacity_def Let_def)
  qed
  show "length (stack_contents s) \<le> stack_capacity s" using i by (simp add: stack_contents_def stack_capacity_def)
qed

lemma page_type_simps [simp]: "is_free p \<longleftrightarrow> p = Free" "is_kernel_owned p \<longleftrightarrow> p = Kernel"
  by (cases p; simp add: is_free_def is_kernel_owned_def)+

section \<open>The physical allocator\<close>

abbreviation frame_of :: "u64 \<Rightarrow> usize" where
  "frame_of \<equiv> compute_page_frame_number"

text \<open>Every address on the free stack is inside the tables.\<close>

definition phys_inv :: "PhysicalAllocator \<Rightarrow> bool" where
  "phys_inv pa \<longleftrightarrow>
     stack_inv (free_page_stack pa) \<and> length (page_type_table pa) = MAXIMUM_PHYSICAL_PAGES \<and>
     list_all (\<lambda>a. frame_of a < MAXIMUM_PHYSICAL_PAGES) (stack_contents (free_page_stack pa))"

lemma MAXIMUM_PHYSICAL_PAGES_less: "MAXIMUM_PHYSICAL_PAGES < 2 ^ 64"
  by (simp add: MAXIMUM_PHYSICAL_PAGES_def)

lemma phys_inv_new: "phys_inv new_physical_allocator"
  using MAXIMUM_PHYSICAL_PAGES_less
  by (simp add: phys_inv_def new_physical_allocator_def stack_inv_def new_stack_def stack_contents_def)

lemma push_keeps_phys_inv:
  assumes "phys_inv pa" "frame_of a < MAXIMUM_PHYSICAL_PAGES" "push (free_page_stack pa) a = (r, s)"
  shows "phys_inv (pa\<lparr> free_page_stack := s \<rparr>)"
proof -
  have "stack_inv (free_page_stack pa)" using assms(1) by (simp add: phys_inv_def)
  from stk.push_cases [OF this assms(3)] have "stack_inv s"
    "stack_contents s = stack_contents (free_page_stack pa) @ [a] \<or> s = free_page_stack pa"
    by (auto split: if_splits)
  then show ?thesis using assms(1,2) unfolding phys_inv_def by auto
qed

lemma phys_inv_register:
  assumes "phys_inv pa"
  shows "phys_inv (register_physical_page pa a ty)"
proof (cases "frame_of a < MAXIMUM_PHYSICAL_PAGES")
  case True
  obtain r s where p: "push (free_page_stack pa) a = (r, s)" by (cases "push (free_page_stack pa) a")
  then have "snd (push_if_free_page (free_page_stack pa) a ty) = (if is_free ty then s else free_page_stack pa)"
    by (simp add: push_if_free_page_def split: sum.splits)
  then show ?thesis
    using True push_keeps_phys_inv [OF assms True p] assms
    by (simp add: register_physical_page_def Let_def phys_inv_def)
qed (use assms in \<open>simp add: register_physical_page_def Let_def\<close>)

text \<open>An allocation takes the page on top of the stack.\<close>

lemma allocate_page_as_cases:
  assumes "phys_inv pa"
  obtains (empty) "stack_contents (free_page_stack pa) = []" "allocate_page_as ty pa mem = Some (Err OutOfMemory, pa, mem)"
  | (stale) a s where "stack_contents (free_page_stack pa) = stack_contents s @ [a]" "frame_of a < MAXIMUM_PHYSICAL_PAGES"
      "page_type_table pa ! frame_of a \<noteq> Free" "phys_inv (pa\<lparr> free_page_stack := s \<rparr>)"
      "allocate_page_as ty pa mem = Some (Err DoubleFree, pa\<lparr> free_page_stack := s \<rparr>, mem)"
  | (page) a s where "stack_contents (free_page_stack pa) = stack_contents s @ [a]" "frame_of a < MAXIMUM_PHYSICAL_PAGES"
      "page_type_table pa ! frame_of a = Free" "phys_inv (pa\<lparr> free_page_stack := s \<rparr>)"
      "allocate_page_as ty pa mem = Some (Ok a,
        pa\<lparr> free_page_stack := s, page_type_table := (page_type_table pa)[frame_of a := ty] \<rparr>,
        zero_page_at_address a mem)"
proof -
  obtain v s where p: "pop (free_page_stack pa) = (v, s)" by (cases "pop (free_page_stack pa)")
  have si: "stack_inv (free_page_stack pa)" using assms by (simp add: phys_inv_def)
  note c = stk.pop_cases [OF si p]
  show thesis
  proof (cases v)
    case None
    then show thesis
      using c p by (intro empty) (simp_all add: allocate_page_as_def pop_free_page_address_def ok_or_def)
  next
    case (Some a)
    have top: "stack_contents (free_page_stack pa) = stack_contents s @ [a]" using c Some by simp
    have fr: "frame_of a < MAXIMUM_PHYSICAL_PAGES" "phys_inv (pa\<lparr> free_page_stack := s \<rparr>)"
      using assms top c by (simp_all add: phys_inv_def)
    have len: "length (page_type_table pa) = MAXIMUM_PHYSICAL_PAGES" using assms by (simp add: phys_inv_def)
    show thesis
    proof (cases "page_type_table pa ! frame_of a = Free")
      case True
      then show thesis
        using p Some fr len by (intro page [OF top fr(1) True fr(2)])
          (simp add: allocate_page_as_def pop_free_page_address_def ok_or_def verify_page_is_free_def Let_def)
    next
      case False
      then show thesis
        using p Some fr len by (intro stale [OF top fr(1) False fr(2)])
          (simp add: allocate_page_as_def pop_free_page_address_def ok_or_def verify_page_is_free_def Let_def)
    qed
  qed
qed

lemma phys_inv_types:
  "phys_inv (pa\<lparr> page_type_table := (page_type_table pa)[i := ty] \<rparr>) = phys_inv pa"
  by (simp add: phys_inv_def)

lemma allocate_page_as_inv:
  assumes "phys_inv pa"
  shows "\<exists>r pa' mem'. allocate_page_as ty pa mem = Some (r, pa', mem') \<and> phys_inv pa'"
  using assms
proof (cases rule: allocate_page_as_cases [of pa ty mem])
  case (page a s)
  then show ?thesis using phys_inv_types [of "pa\<lparr> free_page_stack := s \<rparr>" "frame_of a" ty] by simp
qed (use assms in auto)

text \<open>Deallocation on every branch.\<close>

lemma deallocate_page_eq:
  assumes "phys_inv pa" "frame_of a < MAXIMUM_PHYSICAL_PAGES" "push (free_page_stack pa) a = (r, s)"
  shows "deallocate_page pa mem a =
    (if page_type_table pa ! frame_of a = Free then Some (Err DoubleFree, pa, mem)
     else if page_type_table pa ! frame_of a = Kernel then Some (Err ForbiddenFree, pa, mem)
     else Some (case r of Err _ \<Rightarrow> Err PoolExhausted | Ok _ \<Rightarrow> Ok (),
       pa\<lparr> page_type_table := (page_type_table pa)[frame_of a := Free],
           page_owner_table := (page_owner_table pa)[frame_of a := PROCESS_IDENTIFIER_NONE],
           free_page_stack := s \<rparr>, zero_page_at_address a mem))"
proof -
  have "\<not> length (page_type_table pa) \<le> frame_of a" using assms(1,2) by (simp add: phys_inv_def)
  then show ?thesis using assms(3) by (simp add: deallocate_page_def reject_invalid_deallocation_def Let_def)
qed

lemma deallocate_page_inv:
  assumes "phys_inv pa" "frame_of a < MAXIMUM_PHYSICAL_PAGES"
  shows "\<exists>r pa' mem'. deallocate_page pa mem a = Some (r, pa', mem') \<and> phys_inv pa'"
proof -
  obtain r s where p: "push (free_page_stack pa) a = (r, s)" by (cases "push (free_page_stack pa) a")
  show ?thesis
    using push_keeps_phys_inv [OF assms p] assms(1)
    by (simp add: deallocate_page_eq [OF assms p] phys_inv_def)
qed

section \<open>Runs of the physical allocator\<close>

datatype page_op = AllocUser | AllocKernel | Dealloc u64

datatype page_out = Allocated u64 | Freed | Failed AllocationError

fun page_step :: "PhysicalAllocator \<Rightarrow> phys_memory \<Rightarrow> page_op \<Rightarrow> (page_out \<times> PhysicalAllocator \<times> phys_memory) option" where
  "page_step pa mem AllocUser =
     map_option (\<lambda>(r, pa', mem'). (case r of Ok a \<Rightarrow> Allocated a | Err e \<Rightarrow> Failed e, pa', mem')) (allocate_user_page pa mem)"
| "page_step pa mem AllocKernel =
     map_option (\<lambda>(r, pa', mem'). (case r of Ok a \<Rightarrow> Allocated a | Err e \<Rightarrow> Failed e, pa', mem')) (allocate_kernel_page pa mem)"
| "page_step pa mem (Dealloc a) =
     map_option (\<lambda>(r, pa', mem'). (case r of Ok _ \<Rightarrow> Freed | Err e \<Rightarrow> Failed e, pa', mem')) (deallocate_page pa mem a)"

fun page_run :: "PhysicalAllocator \<Rightarrow> phys_memory \<Rightarrow> page_op list \<Rightarrow> (page_out list \<times> PhysicalAllocator \<times> phys_memory) option" where
  "page_run pa mem [] = Some ([], pa, mem)"
| "page_run pa mem (op # ops) =
     (case page_step pa mem op of
        None \<Rightarrow> None
      | Some (out, pa', mem') \<Rightarrow>
        map_option (\<lambda>(outs, pa'', mem''). (out # outs, pa'', mem'')) (page_run pa' mem' ops))"

text \<open>The page is in range, and freeing it is not among the operations.\<close>

definition leaves_alone :: "usize \<Rightarrow> page_op \<Rightarrow> bool" where
  "leaves_alone f op = (case op of Dealloc a \<Rightarrow> frame_of a < MAXIMUM_PHYSICAL_PAGES \<and> frame_of a \<noteq> f | _ \<Rightarrow> True)"

lemma alloc_keeps_held:
  assumes "phys_inv pa" "page_type_table pa ! f \<noteq> Free" "ty \<noteq> Free"
  shows "\<exists>r pa' mem'. allocate_page_as ty pa mem = Some (r, pa', mem') \<and> phys_inv pa' \<and>
    page_type_table pa' ! f \<noteq> Free \<and> (\<forall>b. r = Ok b \<longrightarrow> frame_of b \<noteq> f)"
  using assms(1)
proof (cases rule: allocate_page_as_cases [of pa ty mem])
  case (page a s)
  have "length (page_type_table pa) = MAXIMUM_PHYSICAL_PAGES" using assms(1) by (simp add: phys_inv_def)
  then show ?thesis
    using page assms(2,3) phys_inv_types [of "pa\<lparr> free_page_stack := s \<rparr>" "frame_of a" ty]
    by (auto simp: nth_list_update)
qed (use assms in auto)

lemma page_step_keeps_held:
  assumes "phys_inv pa" "page_type_table pa ! f \<noteq> Free" "leaves_alone f op"
  shows "\<exists>out pa' mem'. page_step pa mem op = Some (out, pa', mem') \<and> phys_inv pa' \<and>
    page_type_table pa' ! f \<noteq> Free \<and> (\<forall>b. out = Allocated b \<longrightarrow> frame_of b \<noteq> f)"
proof (cases op)
  case AllocUser
  obtain r pa' mem' where r: "allocate_page_as UserOwned pa mem = Some (r, pa', mem')" "phys_inv pa'"
    "page_type_table pa' ! f \<noteq> Free" "\<forall>b. r = Ok b \<longrightarrow> frame_of b \<noteq> f"
    using alloc_keeps_held [OF assms(1,2), of UserOwned mem] by auto
  then show ?thesis using AllocUser by (cases r) (simp_all add: allocate_user_page_def)
next
  case AllocKernel
  obtain r pa' mem' where r: "allocate_page_as Kernel pa mem = Some (r, pa', mem')" "phys_inv pa'"
    "page_type_table pa' ! f \<noteq> Free" "\<forall>b. r = Ok b \<longrightarrow> frame_of b \<noteq> f"
    using alloc_keeps_held [OF assms(1,2), of Kernel mem] by auto
  then show ?thesis using AllocKernel by (cases r) (simp_all add: allocate_kernel_page_def)
next
  case (Dealloc a)
  then have a: "frame_of a < MAXIMUM_PHYSICAL_PAGES" "frame_of a \<noteq> f" using assms(3) by (simp_all add: leaves_alone_def)
  from deallocate_page_inv [OF assms(1) a(1), of mem] obtain r pa' mem' where
    d: "deallocate_page pa mem a = Some (r, pa', mem')" "phys_inv pa'" by blast
  obtain r' s where p: "push (free_page_stack pa) a = (r', s)" by (cases "push (free_page_stack pa) a")
  have "page_type_table pa' ! f = page_type_table pa ! f"
    using d(1) a deallocate_page_eq [OF assms(1) a(1) p, of mem] by (auto split: if_splits)
  then show ?thesis using d assms(2) Dealloc by (cases r) simp_all
qed

lemma page_run_keeps_held:
  "phys_inv pa \<Longrightarrow> page_type_table pa ! f \<noteq> Free \<Longrightarrow> list_all (leaves_alone f) ops \<Longrightarrow>
   \<exists>outs pa' mem'. page_run pa mem ops = Some (outs, pa', mem') \<and> (\<forall>b. Allocated b \<in> set outs \<longrightarrow> frame_of b \<noteq> f)"
proof (induction ops arbitrary: pa mem)
  case (Cons op ops)
  then obtain out pa1 mem1 where s: "page_step pa mem op = Some (out, pa1, mem1)" "phys_inv pa1"
    "page_type_table pa1 ! f \<noteq> Free" "\<forall>b. out = Allocated b \<longrightarrow> frame_of b \<noteq> f"
    using page_step_keeps_held [of pa f op mem] by auto
  from Cons.IH [OF s(2,3), of mem1] Cons.prems(3) obtain outs pa' mem' where
    "page_run pa1 mem1 ops = Some (outs, pa', mem')" "\<forall>b. Allocated b \<in> set outs \<longrightarrow> frame_of b \<noteq> f" by auto
  then show ?case using s by auto
qed simp

section \<open>The object pool\<close>

definition pool_ok :: "'a PoolAllocator \<Rightarrow> bool" where
  "pool_ok p \<longleftrightarrow> length (backing_storage p) = length (slot_is_allocated p) \<and>
     allocated_count p = length (filter (\<lambda>b. b) (slot_is_allocated p))"

lemma pool_ok_new: "pool_ok (new_pool uninit)"
  by (simp add: pool_ok_def new_pool_def)

lemma length_filter_update:
  "i < length bs \<Longrightarrow> length (filter (\<lambda>b. b) (bs[i := v])) + of_bool (bs ! i) = length (filter (\<lambda>b. b) bs) + of_bool v"
proof (induction bs arbitrary: i)
  case (Cons b bs)
  show ?case
  proof (cases i)
    case (Suc k)
    then show ?thesis using Cons.IH [of k] Cons.prems by simp
  qed simp
qed simp

lemma length_filter_set:
  assumes "i < length bs" "\<not> bs ! i"
  shows "length (filter (\<lambda>b. b) (bs[i := True])) = Suc (length (filter (\<lambda>b. b) bs))"
  using length_filter_update [OF assms(1), of True] assms(2) by simp

lemma length_filter_clear:
  assumes "i < length bs" "bs ! i"
  shows "length (filter (\<lambda>b. b) (bs[i := False])) = length (filter (\<lambda>b. b) bs) - 1"
  using length_filter_update [OF assms(1), of False] assms(2) by simp

lemma allocate_cases:
  assumes "pool_ok p"
  obtains (full) "\<forall>j < length (slot_is_allocated p). slot_is_allocated p ! j" "allocate zero p = (Err PoolExhausted, p)"
  | (slot) i where "i < length (slot_is_allocated p)" "\<not> slot_is_allocated p ! i" "\<forall>j < i. slot_is_allocated p ! j"
      "allocate zero p = (Ok (i, zero), \<lparr> backing_storage = (backing_storage p)[i := zero],
        slot_is_allocated = (slot_is_allocated p)[i := True], allocated_count = allocated_count p + 1 \<rparr>)"
proof (cases "position (\<lambda>b. \<not> b) (slot_is_allocated p)")
  case None
  then have "allocate zero p = (Err PoolExhausted, p)"
    by (simp add: allocate_def find_first_free_slot_index_def ok_or_def)
  moreover have "slot_is_allocated p ! j" if "j < length (slot_is_allocated p)" for j
    using None that nth_mem [of j "slot_is_allocated p"] by (auto simp: position_None)
  ultimately show thesis by (intro full) simp_all
next
  case (Some i)
  note i = position_Some [OF Some]
  have "i < length (backing_storage p)" using i assms by (simp add: pool_ok_def)
  then have "allocate zero p = (Ok (i, zero), \<lparr> backing_storage = (backing_storage p)[i := zero],
      slot_is_allocated = (slot_is_allocated p)[i := True], allocated_count = allocated_count p + 1 \<rparr>)"
    using Some by (simp add: allocate_def find_first_free_slot_index_def ok_or_def mark_slot_as_allocated_def
        increment_allocated_count_def zero_slot_memory_def Let_def)
  then show thesis using i by (intro slot [of i]) simp_all
qed

section \<open>Regions as sets of addresses\<close>

definition addresses :: "Region \<Rightarrow> nat set" where
  "addresses r = {unat (region_start r)..<unat (region_start r) + region_pages r * PAGE_SIZE_IN_BYTES}"

lemma kv_partition_eq:
  assumes "i < 8"
  shows "\<exists>a. kv_partition i = Some a \<and> unat (region_start a) = unat KV_REGION_START + i * 2 ^ 26 \<and> region_pages a = 2 ^ 14"
proof -
  have page: "unat (of_nat PAGE_SIZE_IN_BYTES :: u64) = 2 ^ 12" by (simp add: PAGE_SIZE_IN_BYTES_def)
  have pages: "unat (of_nat (2 ^ 14 * i) :: u64) = 2 ^ 14 * i"
    using assms by (intro unat_of_nat_small) simp
  obtain off :: u64 where off: "checked_mul (of_nat (2 ^ 14 * i)) (of_nat PAGE_SIZE_IN_BYTES) = Some off"
    unfolding checked_mul_def pages page using assms by simp
  have "unat off = 2 ^ 14 * i * 2 ^ 12" using checked_mul_Some [OF off] unfolding pages page by (rule conjunct2)
  then have uoff: "unat off = i * 2 ^ 26" by simp
  have base: "unat KV_REGION_START = 0xFFFF980000000000" by (simp add: KV_REGION_START_def)
  obtain a where a: "checked_add KV_REGION_START off = Some a"
    unfolding checked_add_def base uoff using assms by simp
  have "kv_partition i = Some \<lparr> region_start = a, region_pages = 2 ^ 14 \<rparr>"
    using assms off a
    by (simp add: kv_partition_def KV_PARTITION_COUNT_def KV_PARTITION_PAGES_def usize_checked_mul_def usize_max_def)
  then show ?thesis using checked_add_Some [OF a, THEN conjunct2] uoff by simp
qed

lemma ivl_disjoint: "b \<le> (a' :: nat) \<or> b' \<le> a \<Longrightarrow> {x + a..<x + b} \<inter> {x + a'..<x + b'} = {}"
  by (auto simp: disjoint_iff)

lemma reserved_regions_disjoint: "reserved_regions_are_disjoint"
  by (simp add: reserved_regions_are_disjoint_def established_regions_def overlaps_def end_exclusive_def
      length_in_bytes_def weights_region_def kv_region_def span_def checked_mul_def checked_add_def
      saturating_add_def saturating_sub_def usize_saturating_mul_def usize_max_def
      WEIGHTS_REGION_START_def WEIGHTS_REGION_PAGES_def KV_REGION_START_def KV_PARTITION_PAGES_def
      KV_PARTITION_COUNT_def PAGE_SIZE_IN_BYTES_def KERNEL_STACK_REGION_START_def KERNEL_STACK_REGION_END_def
      POOL_REGION_START_def POOL_REGION_END_def DIRECT_MAP_REGION_START_def DIRECT_MAP_REGION_END_def Let_def)

lemma end_exclusive_exact:
  assumes "region_pages r < 2 ^ 64"
  shows "end_exclusive r = (let e = unat (region_start r) + region_pages r * 4096 in
    if e < 2 ^ 64 then Some (of_nat e) else None)"
proof -
  have u: "unat (of_nat (region_pages r) :: u64) = region_pages r" using assms by (simp add: unat_of_nat_small)
  have "checked_mul (of_nat (region_pages r)) (of_nat PAGE_SIZE_IN_BYTES) =
      (if region_pages r * 4096 < 2 ^ 64 then Some (of_nat (region_pages r * 4096) :: u64) else None)"
    using u by (simp add: checked_mul_def PAGE_SIZE_IN_BYTES_def)
  then show ?thesis
    by (auto simp: end_exclusive_def length_in_bytes_def checked_add_def Let_def unat_of_nat_small simp del: of_nat_mult)
qed

lemma overlaps_exact:
  assumes "0 < region_pages r" "region_pages r < 2 ^ 64" "0 < region_pages s" "region_pages s < 2 ^ 64"
  shows "overlaps r s \<longleftrightarrow> 2 ^ 64 \<le> unat (region_start r) + region_pages r * 4096 \<or>
     2 ^ 64 \<le> unat (region_start s) + region_pages s * 4096 \<or> addresses r \<inter> addresses s \<noteq> {}"
proof -
  let ?a = "unat (region_start r)" and ?b = "unat (region_start s)"
  let ?m = "region_pages r * 4096" and ?n = "region_pages s * 4096"
  have pos: "0 < ?m" "0 < ?n" using assms by simp_all
  have meet: "addresses r \<inter> addresses s \<noteq> {} \<longleftrightarrow> ?a < ?b + ?n \<and> ?b < ?a + ?m"
  proof
    assume "?a < ?b + ?n \<and> ?b < ?a + ?m"
    then have "max ?a ?b \<in> addresses r \<inter> addresses s" using pos by (auto simp: addresses_def PAGE_SIZE_IN_BYTES_def)
    then show "addresses r \<inter> addresses s \<noteq> {}" by blast
  qed (auto simp: addresses_def PAGE_SIZE_IN_BYTES_def)
  show ?thesis
    unfolding meet
    by (auto simp: overlaps_def end_exclusive_exact [OF assms(2)] end_exclusive_exact [OF assms(4)] Let_def
        word_less_nat_alt unat_of_nat_small simp del: of_nat_add of_nat_mult)
qed

lemmas region_constants = WEIGHTS_REGION_START_def WEIGHTS_REGION_PAGES_def KV_REGION_START_def KV_PARTITION_PAGES_def
  KV_PARTITION_COUNT_def PAGE_SIZE_IN_BYTES_def KERNEL_STACK_REGION_START_def KERNEL_STACK_REGION_END_def
  POOL_REGION_START_def POOL_REGION_END_def DIRECT_MAP_REGION_START_def DIRECT_MAP_REGION_END_def

lemma regions_pairwise_disjoint:
  "sorted_wrt (\<lambda>a b. addresses a \<inter> addresses b = {}) (weights_region # kv_region # established_regions)"
  by (simp add: established_regions_def addresses_def weights_region_def kv_region_def span_def saturating_add_def
      saturating_sub_def usize_saturating_mul_def usize_max_def region_constants Let_def ivl_disjoint)

text \<open>Two small machines: one registered page, free or already given to a process.\<close>

lemma frame_examples: "frame_of 0x1000 = 1" "frame_of 0x2000 = 2"
  by (simp_all add: compute_page_frame_number_def PAGE_SIZE_IN_BYTES_def)

lemma one_free_page:
  "\<exists>pa1. allocate_user_page (register_physical_page new_physical_allocator 0x1000 Free) mem
     = Some (Ok 0x1000, pa1, zero_page_at_address 0x1000 mem)"
proof -
  have "(1 :: nat) < MAXIMUM_PHYSICAL_PAGES" by (simp add: MAXIMUM_PHYSICAL_PAGES_def)
  then show ?thesis
    by (simp add: register_physical_page_def new_physical_allocator_def push_if_free_page_def push_def new_stack_def
        allocate_user_page_def allocate_page_as_def pop_free_page_address_def pop_def ok_or_def
        verify_page_is_free_def frame_examples Let_def)
qed

lemma one_held_page:
  fixes pa :: PhysicalAllocator
  defines "pa \<equiv> register_physical_page new_physical_allocator 0x1000 UserOwned"
  shows "stack_contents (free_page_stack pa) = []" "0 < stack_capacity (free_page_stack pa)"
    "page_type_table pa ! frame_of 0x1000 = UserOwned" "frame_of 0x1000 < MAXIMUM_PHYSICAL_PAGES"
proof -
  have "(1 :: nat) < MAXIMUM_PHYSICAL_PAGES" by (simp add: MAXIMUM_PHYSICAL_PAGES_def)
  then show "stack_contents (free_page_stack pa) = []" "0 < stack_capacity (free_page_stack pa)"
    "page_type_table pa ! frame_of 0x1000 = UserOwned" "frame_of 0x1000 < MAXIMUM_PHYSICAL_PAGES"
    by (simp_all add: pa_def register_physical_page_def new_physical_allocator_def push_if_free_page_def
        new_stack_def frame_examples stack_contents_def stack_capacity_def)
qed

section \<open>Properties\<close>

text \<open>
  C25. A page handed out is not handed out again while it is held. After an allocation of either kind
  returns a page, whose bytes are then all zero, any later run of allocations and of frees of other
  pages goes through without a panic and never returns an address in the same frame.
\<close>

theorem held_page_is_not_reissued:
  assumes "phys_inv pa" "allocate_user_page pa mem = Some (Ok a, pa1, mem1) \<or> allocate_kernel_page pa mem = Some (Ok a, pa1, mem1)"
    "list_all (leaves_alone (compute_page_frame_number a)) ops"
  shows "(\<forall>k < 4096. mem1 (a + DIRECT_MAP_REGION_START + of_nat k) = 0) \<and>
    (\<exists>outs pa2 mem2. page_run pa1 mem1 ops = Some (outs, pa2, mem2) \<and>
      (\<forall>b. Allocated b \<in> set outs \<longrightarrow> compute_page_frame_number b \<noteq> compute_page_frame_number a))"
proof -
  from assms(2) obtain ty where ty: "ty \<noteq> Free" "allocate_page_as ty pa mem = Some (Ok a, pa1, mem1)"
    by (auto simp: allocate_user_page_def allocate_kernel_page_def)
  from assms(1) have *: "phys_inv pa1 \<and> page_type_table pa1 ! frame_of a \<noteq> Free \<and> mem1 = zero_page_at_address a mem"
  proof (cases rule: allocate_page_as_cases [of pa ty mem])
    case (page b s)
    have "length (page_type_table pa) = MAXIMUM_PHYSICAL_PAGES" using assms(1) by (simp add: phys_inv_def)
    then show ?thesis using page ty phys_inv_types [of "pa\<lparr> free_page_stack := s \<rparr>" "frame_of b" ty] by simp
  qed (use ty in simp_all)
  have "mem1 (a + DIRECT_MAP_REGION_START + of_nat k) = 0" if "k < 4096" for k
    using * that by (simp add: zero_page_at_address_def Let_def PAGE_SIZE_IN_BYTES_def unat_of_nat_small)
  moreover have "\<exists>outs pa2 mem2. page_run pa1 mem1 ops = Some (outs, pa2, mem2) \<and>
      (\<forall>b. Allocated b \<in> set outs \<longrightarrow> frame_of b \<noteq> frame_of a)"
    using * assms(3) by (intro page_run_keeps_held) auto
  ultimately show ?thesis by blast
qed

theorem held_page_is_not_reissued_witness:
  "\<exists>pa1 mem1. allocate_user_page (register_physical_page new_physical_allocator 0x1000 Free) (\<lambda>_. 7) = Some (Ok 0x1000, pa1, mem1) \<and>
     (\<exists>outs pa2 mem2. page_run pa1 mem1 [AllocKernel, Dealloc 0x2000, AllocUser] = Some (outs, pa2, mem2) \<and>
       (\<forall>b. Allocated b \<in> set outs \<longrightarrow> compute_page_frame_number b \<noteq> 1))"
proof -
  let ?pa = "register_physical_page new_physical_allocator 0x1000 Free"
  obtain pa1 mem1 where a: "allocate_user_page ?pa (\<lambda>_. 7) = Some (Ok 0x1000, pa1, mem1)" using one_free_page by blast
  have "list_all (leaves_alone (compute_page_frame_number 0x1000)) [AllocKernel, Dealloc 0x2000, AllocUser]"
    by (simp add: leaves_alone_def frame_examples MAXIMUM_PHYSICAL_PAGES_def)
  from held_page_is_not_reissued [OF phys_inv_register [OF phys_inv_new] disjI1 [OF a] this] a
  show ?thesis by (auto simp: frame_examples)
qed

text \<open>
  C26. Deallocation, on every branch. An address outside the page tables panics. A free page is refused as a double free
  and a kernel page as a forbidden free, both without effect. Any other page is zeroed and becomes Free and unowned, and
  the tables and the memory are otherwise unchanged; it goes on top of the free stack, unless that is full, which is
  reported as PoolExhausted with the stack as it was. Freeing the page again is then refused, and if it went on the
  stack the next allocation returns this very page.
\<close>

theorem deallocation_outcomes:
  assumes "phys_inv pa"
  shows "if MAXIMUM_PHYSICAL_PAGES \<le> compute_page_frame_number a then deallocate_page pa mem a = None
    else case page_type_table pa ! compute_page_frame_number a of
      Free \<Rightarrow> deallocate_page pa mem a = Some (Err DoubleFree, pa, mem)
    | Kernel \<Rightarrow> deallocate_page pa mem a = Some (Err ForbiddenFree, pa, mem)
    | _ \<Rightarrow> let stack = stack_contents (free_page_stack pa); room = length stack < stack_capacity (free_page_stack pa) in
        \<exists>pa' mem'. deallocate_page pa mem a = Some (if room then Ok () else Err PoolExhausted, pa', mem') \<and>
        page_type_table pa' = (page_type_table pa)[compute_page_frame_number a := Free] \<and>
        page_owner_table pa' = (page_owner_table pa)[compute_page_frame_number a := PROCESS_IDENTIFIER_NONE] \<and>
        stack_contents (free_page_stack pa') = stack @ (if room then [a] else []) \<and>
        (\<forall>x. mem' x = (if unat (x - (a + DIRECT_MAP_REGION_START)) < 4096 then 0 else mem x)) \<and>
        deallocate_page pa' mem' a = Some (Err DoubleFree, pa', mem') \<and>
        (room \<longrightarrow> (\<exists>pa'' mem''. allocate_user_page pa' mem' = Some (Ok a, pa'', mem'')))"
proof (cases "MAXIMUM_PHYSICAL_PAGES \<le> frame_of a")
  case True
  then show ?thesis using assms by (simp add: deallocate_page_def phys_inv_def)
next
  case in_range: False
  then have fr: "frame_of a < MAXIMUM_PHYSICAL_PAGES" by simp
  obtain r s where p: "push (free_page_stack pa) a = (r, s)" by (cases "push (free_page_stack pa) a")
  let ?room = "length (stack_contents (free_page_stack pa)) < stack_capacity (free_page_stack pa)"
  have si: "stack_inv (free_page_stack pa)" and len: "length (page_type_table pa) = MAXIMUM_PHYSICAL_PAGES"
    using assms by (simp_all add: phys_inv_def)
  have rs: "r = (if ?room then Ok () else Err OutOfMemory)"
    "stack_contents s = stack_contents (free_page_stack pa) @ (if ?room then [a] else [])"
    using stk.push_cases [OF si p] by (simp_all split: if_splits)
  let ?pa = "pa\<lparr> page_type_table := (page_type_table pa)[frame_of a := Free],
    page_owner_table := (page_owner_table pa)[frame_of a := PROCESS_IDENTIFIER_NONE], free_page_stack := s \<rparr>"
  have inv: "phys_inv ?pa" using push_keeps_phys_inv [OF assms fr p] by (simp add: phys_inv_def)
  have free: "page_type_table ?pa ! frame_of a = Free" using fr len by simp
  have alloc: "\<exists>pa'' mem''. allocate_user_page ?pa mem' = Some (Ok a, pa'', mem'')" if room: "?room" for mem'
  proof -
    obtain s' where "pop s = (Some a, s')" using stk.push_pop [OF si, of a s] p rs(1) room by auto
    then show ?thesis using fr len by (simp add: allocate_user_page_def allocate_page_as_def pop_free_page_address_def
        ok_or_def verify_page_is_free_def Let_def)
  qed
  obtain r2 s2 where p2: "push (free_page_stack ?pa) a = (r2, s2)" by (cases "push (free_page_stack ?pa) a")
  have again: "deallocate_page ?pa mem' a = Some (Err DoubleFree, ?pa, mem')" for mem'
    using deallocate_page_eq [OF inv fr p2, of mem'] free by simp
  have zero: "zero_page_at_address a mem x = (if unat (x - (a + DIRECT_MAP_REGION_START)) < 4096 then 0 else mem x)" for x
    by (simp add: zero_page_at_address_def Let_def PAGE_SIZE_IN_BYTES_def)
  have freed: "\<exists>pa' mem'. deallocate_page pa mem a = Some (if ?room then Ok () else Err PoolExhausted, pa', mem') \<and>
        page_type_table pa' = (page_type_table pa)[frame_of a := Free] \<and>
        page_owner_table pa' = (page_owner_table pa)[frame_of a := PROCESS_IDENTIFIER_NONE] \<and>
        stack_contents (free_page_stack pa') = stack_contents (free_page_stack pa) @ (if ?room then [a] else []) \<and>
        (\<forall>x. mem' x = (if unat (x - (a + DIRECT_MAP_REGION_START)) < 4096 then 0 else mem x)) \<and>
        deallocate_page pa' mem' a = Some (Err DoubleFree, pa', mem') \<and>
        (?room \<longrightarrow> (\<exists>pa'' mem''. allocate_user_page pa' mem' = Some (Ok a, pa'', mem'')))"
    if "page_type_table pa ! frame_of a \<noteq> Free" "page_type_table pa ! frame_of a \<noteq> Kernel"
  proof (rule exI [of _ ?pa], rule exI [of _ "zero_page_at_address a mem"], intro conjI allI impI)
    show "deallocate_page pa mem a = Some (if ?room then Ok () else Err PoolExhausted, ?pa, zero_page_at_address a mem)"
      using deallocate_page_eq [OF assms fr p, of mem] that rs(1) by simp
  qed (use again alloc zero rs(2) in simp_all)
  show ?thesis
    using deallocate_page_eq [OF assms fr p, of mem] freed in_range
    by (cases "page_type_table pa ! frame_of a") (simp_all add: Let_def)
qed

theorem deallocation_outcomes_witness:
  "\<exists>pa' mem'. deallocate_page (register_physical_page new_physical_allocator 0x1000 UserOwned) (\<lambda>_. 7) 0x1000
       = Some (Ok (), pa', mem') \<and>
     deallocate_page pa' mem' 0x1000 = Some (Err DoubleFree, pa', mem') \<and>
     (\<exists>pa'' mem''. allocate_user_page pa' mem' = Some (Ok 0x1000, pa'', mem''))"
  using deallocation_outcomes [OF phys_inv_register [OF phys_inv_new], where mem = "\<lambda>_. 7" and a1 = "0x1000" and ty1 = UserOwned and a = "0x1000"]
    one_held_page by (auto simp: Let_def)

text \<open>
  The object pool: allocation returns the lowest free slot, zeroed, marks it and counts it, and
  fails exactly when every slot is taken; freeing succeeds exactly for a taken slot, which it zeroes
  and releases; failures change nothing and the count always equals the number of taken slots.
\<close>

lemma pool_allocator_outcomes:
  assumes "pool_ok p"
  shows "(case allocate zero p of
      (Ok (i, v), p') \<Rightarrow> i < length (slot_is_allocated p) \<and> \<not> slot_is_allocated p ! i \<and>
        (\<forall>j < i. slot_is_allocated p ! j) \<and> v = zero \<and> pool_ok p' \<and>
        slot_is_allocated p' = (slot_is_allocated p)[i := True] \<and> backing_storage p' = (backing_storage p)[i := zero]
    | (Err e, p') \<Rightarrow> e = PoolExhausted \<and> p' = p \<and> (\<forall>j < length (slot_is_allocated p). slot_is_allocated p ! j)) \<and>
   (case deallocate zero p k of
      (Ok _, p') \<Rightarrow> k < length (slot_is_allocated p) \<and> slot_is_allocated p ! k \<and> pool_ok p' \<and>
        slot_is_allocated p' = (slot_is_allocated p)[k := False] \<and> backing_storage p' = (backing_storage p)[k := zero]
    | (Err e, p') \<Rightarrow> e = DoubleFree \<and> p' = p \<and> (k < length (slot_is_allocated p) \<longrightarrow> \<not> slot_is_allocated p ! k))"
  (is "?A \<and> ?D")
proof
  from assms show ?A
    by (cases rule: allocate_cases [of p zero]) (use assms in \<open>auto simp: pool_ok_def length_filter_set\<close>)
  show ?D
    using assms
    by (auto simp: deallocate_def validate_slot_index_is_allocated_def pool_ok_def zero_slot_memory_def
        mark_slot_as_free_def decrement_allocated_count_def length_filter_clear)
qed

text \<open>
  C27. The reserved regions are isolated. The overlap test answers, for any two regions that are not empty, exactly
  whether an end is past the last address or they share an address. The weights region, the key-value region and the
  three established kernel regions pairwise share no address, and the compile-time assertion holds. Each of the eight
  key-value partitions lies inside the key-value region, distinct partitions share no address, and there is no
  ninth partition.
\<close>

theorem reserved_regions_are_isolated:
  assumes "0 < region_pages r" "region_pages r < 2 ^ 64" "0 < region_pages s" "region_pages s < 2 ^ 64"
  shows "(overlaps r s \<longleftrightarrow> 2 ^ 64 \<le> unat (region_start r) + region_pages r * 4096 \<or>
       2 ^ 64 \<le> unat (region_start s) + region_pages s * 4096 \<or> addresses r \<inter> addresses s \<noteq> {}) \<and>
   sorted_wrt (\<lambda>a b. addresses a \<inter> addresses b = {}) (weights_region # kv_region # established_regions) \<and>
   reserved_regions_are_disjoint \<and>
   (\<forall>i. case kv_partition i of
      None \<Rightarrow> 8 \<le> i
    | Some a \<Rightarrow> i < 8 \<and> addresses a \<noteq> {} \<and> addresses a \<subseteq> addresses kv_region \<and>
        (\<forall>j. case kv_partition j of None \<Rightarrow> 8 \<le> j | Some b \<Rightarrow> if j = i then b = a else addresses a \<inter> addresses b = {}))"
proof -
  have kv: "addresses kv_region = {unat KV_REGION_START..<unat KV_REGION_START + 8 * 2 ^ 26}"
    by (simp add: addresses_def kv_region_def KV_PARTITION_PAGES_def KV_PARTITION_COUNT_def PAGE_SIZE_IN_BYTES_def
        usize_saturating_mul_def usize_max_def)
  have none: "kv_partition i = None \<longleftrightarrow> 8 \<le> i" for i
    using kv_partition_eq [of i] by (auto simp: kv_partition_def KV_PARTITION_COUNT_def not_le)
  have some: "addresses a = {unat KV_REGION_START + i * 2 ^ 26..<unat KV_REGION_START + (i + 1) * 2 ^ 26}"
    if "kv_partition i = Some a" for i a
  proof -
    have "i < 8" using that none [of i] by (metis not_le option.distinct(1))
    from kv_partition_eq [OF this] that show ?thesis by (simp add: addresses_def PAGE_SIZE_IN_BYTES_def algebra_simps)
  qed
  have disj: "addresses a \<inter> addresses b = {}" if "kv_partition i = Some a" "kv_partition j = Some b" "i \<noteq> j" for i j a b
  proof -
    have "i + 1 \<le> j \<or> j + 1 \<le> i" using that(3) by auto
    then have "(i + 1) * 2 ^ 26 \<le> j * (2 ^ 26 :: nat) \<or> (j + 1) * 2 ^ 26 \<le> i * (2 ^ 26 :: nat)"
      by (metis mult_le_mono1)
    then show ?thesis unfolding some [OF that(1)] some [OF that(2)] by (simp only: ivl_disjoint)
  qed
  have sub: "i < 8 \<and> addresses a \<noteq> {} \<and> addresses a \<subseteq> addresses kv_region" if "kv_partition i = Some a" for i a
  proof -
    have "i + 1 \<le> 8" using that none [of i] by (cases "8 \<le> i") auto
    then have "(i + 1) * 2 ^ 26 \<le> 8 * (2 ^ 26 :: nat)" by (rule mult_le_mono1)
    then show ?thesis using \<open>i + 1 \<le> 8\<close> unfolding some [OF that] kv by simp
  qed
  show ?thesis
  proof (intro conjI allI)
    show "overlaps r s \<longleftrightarrow> 2 ^ 64 \<le> unat (region_start r) + region_pages r * 4096 \<or>
       2 ^ 64 \<le> unat (region_start s) + region_pages s * 4096 \<or> addresses r \<inter> addresses s \<noteq> {}"
      by (rule overlaps_exact [OF assms])
    show "sorted_wrt (\<lambda>a b. addresses a \<inter> addresses b = {}) (weights_region # kv_region # established_regions)"
      by (rule regions_pairwise_disjoint)
    show "reserved_regions_are_disjoint" by (rule reserved_regions_disjoint)
  next
    fix i
    show "case kv_partition i of None \<Rightarrow> 8 \<le> i
      | Some a \<Rightarrow> i < 8 \<and> addresses a \<noteq> {} \<and> addresses a \<subseteq> addresses kv_region \<and>
        (\<forall>j. case kv_partition j of None \<Rightarrow> 8 \<le> j | Some b \<Rightarrow> if j = i then b = a else addresses a \<inter> addresses b = {})"
    proof (cases "kv_partition i")
      case (Some a)
      have "case kv_partition j of None \<Rightarrow> 8 \<le> j | Some b \<Rightarrow> if j = i then b = a else addresses a \<inter> addresses b = {}" for j
        using none [of j] Some disj [OF Some, of j] by (cases "kv_partition j") auto
      then show ?thesis using Some sub [OF Some] by simp
    qed (use none [of i] in simp)
  qed
qed

theorem reserved_regions_are_isolated_witness:
  "(overlaps weights_region kv_region \<longleftrightarrow> addresses weights_region \<inter> addresses kv_region \<noteq> {}) \<and>
   sorted_wrt (\<lambda>a b. addresses a \<inter> addresses b = {}) (weights_region # kv_region # established_regions)"
  using reserved_regions_are_isolated [of weights_region kv_region]
  by (simp add: weights_region_def kv_region_def WEIGHTS_REGION_PAGES_def WEIGHTS_REGION_START_def KV_REGION_START_def
      KV_PARTITION_PAGES_def KV_PARTITION_COUNT_def usize_saturating_mul_def usize_max_def)

end
