(* ===== verification/Wire_Bytes.thy ===== *)
theory Wire_Bytes
  imports Kernel_Prelude
begin

text \<open>
  Byte strings and the fixed-width integer encodings of the Rust standard library
  (\<open>to_be_bytes\<close>, \<open>from_be_bytes\<close> and their little-endian variants), which the wire formats and the
  image loaders share. A slice is a list of bytes; \<open>slice_get\<close> is \<open>get(a..b)\<close>.
\<close>

type_synonym bytes = "u8 list"

definition slice_get :: "'a list \<Rightarrow> usize \<Rightarrow> usize \<Rightarrow> 'a list option" where
  "slice_get xs a b = (if a \<le> b \<and> b \<le> length xs then Some (take (b - a) (drop a xs)) else None)"

section \<open>Big-endian numbers\<close>

fun be_bytes :: "nat \<Rightarrow> nat \<Rightarrow> bytes" where
  "be_bytes 0 k = []"
| "be_bytes (Suc n) k = be_bytes n (k div 256) @ [of_nat k]"

lemma be_bytes_numeral: "be_bytes (numeral n) k = be_bytes (pred_numeral n) (k div 256) @ [of_nat k]"
  unfolding numeral_eq_Suc [of n] by (rule be_bytes.simps)

definition be_value :: "bytes \<Rightarrow> nat" where
  "be_value bs = foldl (\<lambda>a b. a * 256 + unat b) 0 bs"

lemma be_value_snoc [simp]: "be_value [] = 0" "be_value (bs @ [b]) = be_value bs * 256 + unat b"
  by (simp_all add: be_value_def)

lemma length_be_bytes [simp]: "length (be_bytes n k) = n"
  by (induction n arbitrary: k) simp_all

lemma unat_less_exp: "unat (w :: 'a::len word) < 2 ^ LENGTH('a)"
  by (rule unsigned_less)

lemma unat_of_nat_u8: "unat (of_nat k :: u8) = k mod 256"
  by (simp add: unat_of_nat)

lemma be_value_be_bytes: "be_value (be_bytes n k) = k mod 256 ^ n"
proof (induction n arbitrary: k)
  case (Suc n)
  have "k mod 256 ^ Suc n = (k div 256) mod 256 ^ n * 256 + k mod 256"
    by (simp add: mod_mult2_eq)
  then show ?case by (simp add: Suc unat_of_nat_u8)
qed simp

lemma be_bytes_be_value: "be_bytes (length bs) (be_value bs) = bs"
proof (induction bs rule: rev_induct)
  case (snoc b bs)
  have "unat b < 256" using unat_less_exp [of b] by simp
  then have "(be_value bs * 256 + unat b) div 256 = be_value bs" "unat (of_nat (be_value bs * 256 + unat b) :: u8) = unat b"
    by (simp_all only: unat_of_nat_u8) simp_all
  then have "(be_value bs * 256 + unat b) div 256 = be_value bs" "of_nat (be_value bs * 256 + unat b) = b"
    by (simp_all only: unat_inj)
  with snoc show ?case by simp
qed simp

lemma be_value_less: "be_value bs < 256 ^ length bs"
proof (induction bs rule: rev_induct)
  case (snoc b bs)
  have "unat b < 256" using unat_less_exp [of b] by simp
  with snoc show ?case by simp
qed simp

definition u16_to_be_bytes :: "u16 \<Rightarrow> bytes" where "u16_to_be_bytes w = be_bytes 2 (unat w)"
definition u32_to_be_bytes :: "u32 \<Rightarrow> bytes" where "u32_to_be_bytes w = be_bytes 4 (unat w)"
definition u64_to_be_bytes :: "u64 \<Rightarrow> bytes" where "u64_to_be_bytes w = be_bytes 8 (unat w)"
definition u16_from_be_bytes :: "bytes \<Rightarrow> u16" where "u16_from_be_bytes bs = of_nat (be_value bs)"
definition u32_from_be_bytes :: "bytes \<Rightarrow> u32" where "u32_from_be_bytes bs = of_nat (be_value bs)"
definition u64_from_be_bytes :: "bytes \<Rightarrow> u64" where "u64_from_be_bytes bs = of_nat (be_value bs)"
definition u16_from_le_bytes :: "bytes \<Rightarrow> u16" where "u16_from_le_bytes bs = of_nat (be_value (rev bs))"
definition u32_from_le_bytes :: "bytes \<Rightarrow> u32" where "u32_from_le_bytes bs = of_nat (be_value (rev bs))"
definition u64_from_le_bytes :: "bytes \<Rightarrow> u64" where "u64_from_le_bytes bs = of_nat (be_value (rev bs))"
definition u16_to_le_bytes :: "u16 \<Rightarrow> bytes" where "u16_to_le_bytes w = rev (be_bytes 2 (unat w))"
definition u32_to_le_bytes :: "u32 \<Rightarrow> bytes" where "u32_to_le_bytes w = rev (be_bytes 4 (unat w))"
definition u64_to_le_bytes :: "u64 \<Rightarrow> bytes" where "u64_to_le_bytes w = rev (be_bytes 8 (unat w))"

lemmas byte_conversions = u16_to_be_bytes_def u32_to_be_bytes_def u64_to_be_bytes_def
  u16_from_be_bytes_def u32_from_be_bytes_def u64_from_be_bytes_def
  u16_to_le_bytes_def u32_to_le_bytes_def u64_to_le_bytes_def
  u16_from_le_bytes_def u32_from_le_bytes_def u64_from_le_bytes_def

lemma length_to_be_bytes [simp]:
  "length (u16_to_be_bytes a) = 2" "length (u32_to_be_bytes b) = 4" "length (u64_to_be_bytes c) = 8"
  "length (u16_to_le_bytes a) = 2" "length (u32_to_le_bytes b) = 4" "length (u64_to_le_bytes c) = 8"
  by (simp_all add: byte_conversions)

lemma from_to_be_bytes [simp]:
  "u16_from_be_bytes (u16_to_be_bytes a) = a" "u32_from_be_bytes (u32_to_be_bytes b) = b"
  "u64_from_be_bytes (u64_to_be_bytes c) = c" "u16_from_le_bytes (u16_to_le_bytes a) = a"
  "u32_from_le_bytes (u32_to_le_bytes b) = b" "u64_from_le_bytes (u64_to_le_bytes c) = c"
  using unat_less_exp [of a] unat_less_exp [of b] unat_less_exp [of c]
  by (simp_all add: byte_conversions be_value_be_bytes)

text \<open>A value fits its width, so encoding what was decoded gives the bytes back.\<close>

lemma be_value_fits:
  assumes "length bs = n" "n * 8 = LENGTH('a::len)"
  shows "unat (of_nat (be_value bs) :: 'a word) = be_value bs"
proof -
  have "(256 :: nat) ^ n = 2 ^ (n * 8)" using power_mult [of "2 :: nat" 8 n] by (simp add: mult.commute)
  then have "be_value bs < 2 ^ LENGTH('a)" using be_value_less [of bs] assms by simp
  then show ?thesis by (rule unat_of_nat_small)
qed

lemma to_from_be_bytes:
  "length bs = 2 \<Longrightarrow> u16_to_be_bytes (u16_from_be_bytes bs) = bs"
  "length bs = 4 \<Longrightarrow> u32_to_be_bytes (u32_from_be_bytes bs) = bs"
  "length bs = 8 \<Longrightarrow> u64_to_be_bytes (u64_from_be_bytes bs) = bs"
  using be_bytes_be_value [of bs] by (simp_all add: byte_conversions be_value_fits)

lemma to_from_le_bytes:
  "length bs = 2 \<Longrightarrow> u16_to_le_bytes (u16_from_le_bytes bs) = bs"
  "length bs = 4 \<Longrightarrow> u32_to_le_bytes (u32_from_le_bytes bs) = bs"
  "length bs = 8 \<Longrightarrow> u64_to_le_bytes (u64_from_le_bytes bs) = bs"
  using be_bytes_be_value [of "rev bs"] by (simp_all add: byte_conversions be_value_fits)

end
