(* ===== verification/Bsp_Codec.thy ===== *)
theory Bsp_Codec
  imports Wire_Bytes
begin

text \<open>
  The wire format of the serving protocol, crate \<open>bsp\<close>: the error taxonomy (\<open>error.rs\<close>), the field
  reader and the response writer (\<open>raw.rs\<close>), the client requests (\<open>message.rs\<close>), the administration
  verbs (\<open>admin.rs\<close>), the handshake messages (\<open>handshake.rs\<close>), the responses (\<open>response.rs\<close>) and the
  record layer (\<open>record.rs\<close>).

  A reader method returns the value together with the advanced reader; a failing method returns only
  its error, because every caller abandons the reader then. A writer method returns its result together
  with the writer, whose buffer keeps what was written before a failure.
\<close>

section \<open>Limits\<close>

definition BSP_MAGIC :: bytes where "BSP_MAGIC = [0x42, 0x53, 0x50, 0x32]"
definition BSP_VERSION_MAJOR :: u8 where "BSP_VERSION_MAJOR = 2"
definition BSP_VERSION_MINOR :: u8 where "BSP_VERSION_MINOR = 0"
definition BSP_RESERVED :: u16 where "BSP_RESERVED = 0"
definition LEN_CLIENT_HELLO :: usize where "LEN_CLIENT_HELLO = 64"
definition LEN_SERVER_HELLO :: usize where "LEN_SERVER_HELLO = 64"
definition LEN_CLIENT_AUTH :: usize where "LEN_CLIENT_AUTH = 32"
definition LEN_PSK :: usize where "LEN_PSK = 32"
definition LEN_HANDLE :: usize where "LEN_HANDLE = 16"
definition LEN_SELECTOR :: usize where "LEN_SELECTOR = 16"
definition LEN_NONCE :: usize where "LEN_NONCE = 32"
definition LEN_CONFIRM :: usize where "LEN_CONFIRM = 32"
definition LEN_WEIGHTS_DIGEST :: usize where "LEN_WEIGHTS_DIGEST = 32"
definition BSP_MAX_RECORD_PLAINTEXT :: usize where "BSP_MAX_RECORD_PLAINTEXT = 4096"
definition MAX_PROMPT_BYTES :: u32 where "MAX_PROMPT_BYTES = 16384"
definition MAX_PROMPT_CHUNK :: usize where "MAX_PROMPT_CHUNK = 4032"
definition MAX_TOKEN_CHUNK :: usize where "MAX_TOKEN_CHUNK = 512"
definition MAX_TOKENS_REQUESTED :: u32 where "MAX_TOKENS_REQUESTED = 4096"
definition MAX_AUDIT_CHUNK :: usize where "MAX_AUDIT_CHUNK = 1024"
definition MAX_AUDIT_RECORDS :: u16 where "MAX_AUDIT_RECORDS = 64"
definition MAX_RECORD_SEQ :: u32 where "MAX_RECORD_SEQ = - 1"

definition TAG_INFER_BEGIN :: u8 where "TAG_INFER_BEGIN = 0x01"
definition TAG_PROMPT_CHUNK :: u8 where "TAG_PROMPT_CHUNK = 0x02"
definition TAG_INFER_COMMIT :: u8 where "TAG_INFER_COMMIT = 0x03"
definition TAG_CANCEL :: u8 where "TAG_CANCEL = 0x04"
definition TAG_CLOSE :: u8 where "TAG_CLOSE = 0x05"
definition TAG_ENROLL_KEY :: u8 where "TAG_ENROLL_KEY = 0x11"
definition TAG_REVOKE_KEY :: u8 where "TAG_REVOKE_KEY = 0x12"
definition TAG_LOAD_WEIGHTS :: u8 where "TAG_LOAD_WEIGHTS = 0x13"
definition TAG_READ_AUDIT_LOG :: u8 where "TAG_READ_AUDIT_LOG = 0x14"
definition TAG_RESTART_SERVER :: u8 where "TAG_RESTART_SERVER = 0x15"
definition TAG_REBOOT :: u8 where "TAG_REBOOT = 0x16"

lemmas bsp_tags = TAG_INFER_BEGIN_def TAG_PROMPT_CHUNK_def TAG_INFER_COMMIT_def TAG_CANCEL_def TAG_CLOSE_def
  TAG_ENROLL_KEY_def TAG_REVOKE_KEY_def TAG_LOAD_WEIGHTS_def TAG_READ_AUDIT_LOG_def TAG_RESTART_SERVER_def
  TAG_REBOOT_def

section \<open>Errors\<close>

datatype Disposition = Drop | ErrorKeep

datatype ErrorCode =
    BadType | Limit | Busy | NoRequest | Incomplete | StateCode | NoCapacity | NoSuchKey | Forbidden
  | NoSuchWeights | BadTarget | Duplicate

definition error_code_to_wire :: "ErrorCode \<Rightarrow> u16" where
  "error_code_to_wire c =
     (case c of
        BadType \<Rightarrow> 0x0001 | Limit \<Rightarrow> 0x0002 | Busy \<Rightarrow> 0x0003 | NoRequest \<Rightarrow> 0x0004
      | Incomplete \<Rightarrow> 0x0005 | StateCode \<Rightarrow> 0x0006 | NoCapacity \<Rightarrow> 0x0007 | NoSuchKey \<Rightarrow> 0x0008
      | Forbidden \<Rightarrow> 0x0009 | NoSuchWeights \<Rightarrow> 0x000a | BadTarget \<Rightarrow> 0x000b | Duplicate \<Rightarrow> 0x000c)"

datatype BspError =
    OffsetOverflow | TruncatedMessageBody | TrailingBytesAfterBody | TruncatedVarBytesLength
  | VarBytesLengthExceedsMaximum | TruncatedVarBytesValue
  | ClientHelloLengthMismatch | ServerHelloLengthMismatch | ClientAuthLengthMismatch | BadMagic
  | UnsupportedVersionMajor | UnsupportedVersionMinor | ReservedFieldNonZero | HandshakeMessageInWrongState
  | EstablishBeforeAuthentication
  | PacketLengthBelowMinimum | PacketLengthAboveMaximum | RecordExceedsAvailableBytes
  | RecordPlaintextLengthMismatch | PaddingLengthExceedsPacket | PaddingBelowMinimum
  | RecordPlaintextNotBlockAligned | PayloadExceedsRecordPlaintext | SequenceExhausted
  | EmptyMessage | UnknownMessageType | WrongSessionTypeRange | WrongDirectionTag | MaxTokensExceedsLimit
  | PromptLengthExceedsLimit | RequestAlreadyInFlight | RequestIdMismatch | PromptChunkExceedsDeclaredLength
  | PromptChunkExceedsPromptBuffer | PromptIncomplete | MessageInvalidInState | DataMessageBeforeEstablished
  | SessionClosed
  | InvalidEnrollRole | UnknownRestartTarget | AuditRecordCountExceedsLimit
  | OutputBufferTooSmall | TokenChunkExceedsMaximum | AuditChunkExceedsMaximum | ResponseExceedsRecordPlaintext

definition error_code :: "BspError \<Rightarrow> ErrorCode option" where
  "error_code e =
     (case e of
        MaxTokensExceedsLimit \<Rightarrow> Some Limit
      | PromptLengthExceedsLimit \<Rightarrow> Some Limit
      | AuditRecordCountExceedsLimit \<Rightarrow> Some Limit
      | RequestAlreadyInFlight \<Rightarrow> Some Busy
      | RequestIdMismatch \<Rightarrow> Some NoRequest
      | PromptIncomplete \<Rightarrow> Some Incomplete
      | MessageInvalidInState \<Rightarrow> Some StateCode
      | UnknownRestartTarget \<Rightarrow> Some BadTarget
      | _ \<Rightarrow> None)"

definition disposition :: "BspError \<Rightarrow> Disposition" where
  "disposition e = (case error_code e of Some _ \<Rightarrow> ErrorKeep | None \<Rightarrow> Drop)"

definition attributed_tag :: "BspError \<Rightarrow> u8 option" where
  "attributed_tag e =
     (case e of
        MaxTokensExceedsLimit \<Rightarrow> Some TAG_INFER_BEGIN
      | PromptLengthExceedsLimit \<Rightarrow> Some TAG_INFER_BEGIN
      | PromptChunkExceedsDeclaredLength \<Rightarrow> Some TAG_PROMPT_CHUNK
      | PromptChunkExceedsPromptBuffer \<Rightarrow> Some TAG_PROMPT_CHUNK
      | InvalidEnrollRole \<Rightarrow> Some TAG_ENROLL_KEY
      | UnknownRestartTarget \<Rightarrow> Some TAG_RESTART_SERVER
      | AuditRecordCountExceedsLimit \<Rightarrow> Some TAG_READ_AUDIT_LOG
      | _ \<Rightarrow> None)"

section \<open>The field reader\<close>

definition VAR_BYTES_LENGTH_PREFIX :: usize where "VAR_BYTES_LENGTH_PREFIX = 2"

definition require_exact_length :: "usize \<Rightarrow> usize \<Rightarrow> BspError \<Rightarrow> (unit, BspError) result" where
  "require_exact_length actual expected reason = (if actual = expected then Ok () else Err reason)"

record FieldReader =
  reader_bytes :: bytes
  reader_offset :: usize

type_synonym 'a read_result = "('a \<times> FieldReader, BspError) result"

definition new_reader :: "bytes \<Rightarrow> FieldReader" where
  "new_reader bs = \<lparr> reader_bytes = bs, reader_offset = 0 \<rparr>"

definition reader_take :: "usize \<Rightarrow> FieldReader \<Rightarrow> bytes read_result" where
  "reader_take count r =
     (case usize_checked_add (reader_offset r) count of
        None \<Rightarrow> Err OffsetOverflow
      | Some e \<Rightarrow>
        (case slice_get (reader_bytes r) (reader_offset r) e of
           None \<Rightarrow> Err TruncatedMessageBody
         | Some field \<Rightarrow> Ok (field, r\<lparr> reader_offset := e \<rparr>)))"

definition take_fixed :: "usize \<Rightarrow> FieldReader \<Rightarrow> bytes read_result" where
  "take_fixed n r = and_then (reader_take n r)
     (\<lambda>(field, r). if length field = n then Ok (field, r) else Err TruncatedMessageBody)"

definition take_u8 :: "FieldReader \<Rightarrow> u8 read_result" where
  "take_u8 r = and_then (reader_take 1 r)
     (\<lambda>(field, r). case field of [] \<Rightarrow> Err TruncatedMessageBody | b # _ \<Rightarrow> Ok (b, r))"

definition take_u16 :: "FieldReader \<Rightarrow> u16 read_result" where
  "take_u16 r = and_then (take_fixed 2 r) (\<lambda>(field, r). Ok (u16_from_be_bytes field, r))"

definition take_u32 :: "FieldReader \<Rightarrow> u32 read_result" where
  "take_u32 r = and_then (take_fixed 4 r) (\<lambda>(field, r). Ok (u32_from_be_bytes field, r))"

definition take_u64 :: "FieldReader \<Rightarrow> u64 read_result" where
  "take_u64 r = and_then (take_fixed 8 r) (\<lambda>(field, r). Ok (u64_from_be_bytes field, r))"

definition take_array :: "usize \<Rightarrow> FieldReader \<Rightarrow> bytes read_result" where
  "take_array n r = take_fixed n r"

definition require_remaining :: "usize \<Rightarrow> BspError \<Rightarrow> FieldReader \<Rightarrow> (unit, BspError) result" where
  "require_remaining count reason r =
     (case usize_checked_sub (length (reader_bytes r)) (reader_offset r) of
        None \<Rightarrow> Err OffsetOverflow
      | Some remaining \<Rightarrow> if remaining < count then Err reason else Ok ())"

definition take_bounded_var_bytes :: "usize \<Rightarrow> FieldReader \<Rightarrow> bytes read_result" where
  "take_bounded_var_bytes maximum r =
     and_then (require_remaining VAR_BYTES_LENGTH_PREFIX TruncatedVarBytesLength r) (\<lambda>_.
     and_then (take_u16 r) (\<lambda>(d, r).
     let declared = unat d in
     if declared > maximum then Err VarBytesLengthExceedsMaximum
     else and_then (require_remaining declared TruncatedVarBytesValue r) (\<lambda>_. reader_take declared r)))"

definition reader_finish :: "FieldReader \<Rightarrow> (unit, BspError) result" where
  "reader_finish r = (if reader_offset r = length (reader_bytes r) then Ok () else Err TrailingBytesAfterBody)"

section \<open>Client requests\<close>

datatype TagRange = ClientInbound | AdminInbound | ClientOutbound | AdminOutbound | Unassigned

definition TAG_RANGE_SHIFT :: nat where "TAG_RANGE_SHIFT = 4"

definition tag_range_of :: "u8 \<Rightarrow> TagRange" where
  "tag_range_of tag =
     (let range = drop_bit TAG_RANGE_SHIFT tag in
      if range = 0x0 then ClientInbound
      else if range = 0x1 then AdminInbound
      else if range = 0x8 then ClientOutbound
      else if range = 0x9 then AdminOutbound
      else Unassigned)"

definition range_violation :: "TagRange \<Rightarrow> BspError" where
  "range_violation actual =
     (case actual of
        ClientInbound \<Rightarrow> WrongSessionTypeRange
      | AdminInbound \<Rightarrow> WrongSessionTypeRange
      | ClientOutbound \<Rightarrow> WrongDirectionTag
      | AdminOutbound \<Rightarrow> WrongDirectionTag
      | Unassigned \<Rightarrow> UnknownMessageType)"

definition require_tag_range :: "u8 \<Rightarrow> TagRange \<Rightarrow> (unit, BspError) result" where
  "require_tag_range tag expected =
     (if tag_range_of tag = expected then Ok () else Err (range_violation (tag_range_of tag)))"

definition split_tag :: "bytes \<Rightarrow> (u8 \<times> bytes, BspError) result" where
  "split_tag payload = (case payload of [] \<Rightarrow> Err EmptyMessage | tag # body \<Rightarrow> Ok (tag, body))"

record InferBegin =
  begin_request_id :: u32
  max_tokens :: u32
  temperature :: u16
  top_p :: u16
  prompt_total_length :: u32

definition infer_begin_read_fields :: "FieldReader \<Rightarrow> InferBegin read_result" where
  "infer_begin_read_fields r =
     and_then (take_u32 r) (\<lambda>(request_id, r).
     and_then (take_u32 r) (\<lambda>(tokens, r).
     and_then (take_u16 r) (\<lambda>(temp, r).
     and_then (take_u16 r) (\<lambda>(p, r).
     and_then (take_u32 r) (\<lambda>(total, r).
     Ok (\<lparr> begin_request_id = request_id, max_tokens = tokens, temperature = temp, top_p = p,
           prompt_total_length = total \<rparr>, r))))))"

definition infer_begin_check_limits :: "InferBegin \<Rightarrow> (unit, BspError) result" where
  "infer_begin_check_limits b =
     (if max_tokens b > MAX_TOKENS_REQUESTED then Err MaxTokensExceedsLimit
      else if prompt_total_length b > MAX_PROMPT_BYTES then Err PromptLengthExceedsLimit
      else Ok ())"

definition infer_begin_decode :: "bytes \<Rightarrow> (InferBegin, BspError) result" where
  "infer_begin_decode body =
     and_then (infer_begin_read_fields (new_reader body)) (\<lambda>(decoded, r).
     and_then (reader_finish r) (\<lambda>_.
     and_then (infer_begin_check_limits decoded) (\<lambda>_. Ok decoded)))"

datatype ClientRequest =
    InferBegin InferBegin
  | PromptChunk u32 bytes
  | InferCommit u32
  | Cancel u32
  | Close

definition decode_request_id_only :: "bytes \<Rightarrow> (u32, BspError) result" where
  "decode_request_id_only body =
     and_then (take_u32 (new_reader body)) (\<lambda>(request_id, r).
     and_then (reader_finish r) (\<lambda>_. Ok request_id))"

definition decode_prompt_chunk :: "bytes \<Rightarrow> (ClientRequest, BspError) result" where
  "decode_prompt_chunk body =
     and_then (take_u32 (new_reader body)) (\<lambda>(request_id, r).
     and_then (take_bounded_var_bytes MAX_PROMPT_CHUNK r) (\<lambda>(chunk, r).
     and_then (reader_finish r) (\<lambda>_. Ok (PromptChunk request_id chunk))))"

definition decode_close :: "bytes \<Rightarrow> (ClientRequest, BspError) result" where
  "decode_close body = and_then (reader_finish (new_reader body)) (\<lambda>_. Ok Close)"

definition client_request_dispatch :: "u8 \<Rightarrow> bytes \<Rightarrow> (ClientRequest, BspError) result" where
  "client_request_dispatch tag body =
     (if tag = TAG_INFER_BEGIN then and_then (infer_begin_decode body) (\<lambda>b. Ok (InferBegin b))
      else if tag = TAG_PROMPT_CHUNK then decode_prompt_chunk body
      else if tag = TAG_INFER_COMMIT then and_then (decode_request_id_only body) (\<lambda>i. Ok (InferCommit i))
      else if tag = TAG_CANCEL then and_then (decode_request_id_only body) (\<lambda>i. Ok (Cancel i))
      else if tag = TAG_CLOSE then decode_close body
      else Err UnknownMessageType)"

definition client_request_decode :: "bytes \<Rightarrow> (ClientRequest, BspError) result" where
  "client_request_decode payload =
     and_then (split_tag payload) (\<lambda>(tag, body).
     and_then (require_tag_range tag ClientInbound) (\<lambda>_. client_request_dispatch tag body))"

definition client_request_id :: "ClientRequest \<Rightarrow> u32 option" where
  "client_request_id r =
     (case r of InferBegin b \<Rightarrow> Some (begin_request_id b) | PromptChunk i _ \<Rightarrow> Some i
      | InferCommit i \<Rightarrow> Some i | Cancel i \<Rightarrow> Some i | Close \<Rightarrow> None)"

section \<open>Administration verbs\<close>

datatype CredentialRole = ClientRole | AdminRole

definition credential_role_from_wire :: "u8 \<Rightarrow> (CredentialRole, BspError) result" where
  "credential_role_from_wire v = (if v = 0x01 then Ok ClientRole else if v = 0x02 then Ok AdminRole else Err InvalidEnrollRole)"

definition credential_role_to_wire :: "CredentialRole \<Rightarrow> u8" where
  "credential_role_to_wire r = (case r of ClientRole \<Rightarrow> 0x01 | AdminRole \<Rightarrow> 0x02)"

datatype RestartTarget = Servd | Inferd | Auditd | Gpud

definition restart_target_from_wire :: "u8 \<Rightarrow> (RestartTarget, BspError) result" where
  "restart_target_from_wire v =
     (if v = 0x01 then Ok Servd else if v = 0x02 then Ok Inferd else if v = 0x03 then Ok Auditd
      else if v = 0x04 then Ok Gpud else Err UnknownRestartTarget)"

definition restart_target_to_wire :: "RestartTarget \<Rightarrow> u8" where
  "restart_target_to_wire t = (case t of Servd \<Rightarrow> 0x01 | Inferd \<Rightarrow> 0x02 | Auditd \<Rightarrow> 0x03 | Gpud \<Rightarrow> 0x04)"

datatype AdminVerb =
    EnrollKey u32 CredentialRole bytes
  | RevokeKey u32 bytes
  | LoadWeights u32 bytes
  | ReadAuditLog u32 u64 u16
  | RestartServer u32 RestartTarget
  | Reboot u32

definition decode_enroll_key :: "bytes \<Rightarrow> (AdminVerb, BspError) result" where
  "decode_enroll_key body =
     and_then (take_u32 (new_reader body)) (\<lambda>(request_id, r).
     and_then (take_u8 r) (\<lambda>(wire_role, r).
     and_then (credential_role_from_wire wire_role) (\<lambda>role.
     and_then (take_array LEN_PSK r) (\<lambda>(key_material, r).
     and_then (reader_finish r) (\<lambda>_. Ok (EnrollKey request_id role key_material))))))"

definition decode_revoke_key :: "bytes \<Rightarrow> (AdminVerb, BspError) result" where
  "decode_revoke_key body =
     and_then (take_u32 (new_reader body)) (\<lambda>(request_id, r).
     and_then (take_array LEN_HANDLE r) (\<lambda>(handle, r).
     and_then (reader_finish r) (\<lambda>_. Ok (RevokeKey request_id handle))))"

definition decode_load_weights :: "bytes \<Rightarrow> (AdminVerb, BspError) result" where
  "decode_load_weights body =
     and_then (take_u32 (new_reader body)) (\<lambda>(request_id, r).
     and_then (take_array LEN_WEIGHTS_DIGEST r) (\<lambda>(digest, r).
     and_then (reader_finish r) (\<lambda>_. Ok (LoadWeights request_id digest))))"

definition admit_audit_request :: "u32 \<Rightarrow> u64 \<Rightarrow> u16 \<Rightarrow> (AdminVerb, BspError) result" where
  "admit_audit_request request_id cursor max_records =
     (if max_records > MAX_AUDIT_RECORDS then Err AuditRecordCountExceedsLimit
      else Ok (ReadAuditLog request_id cursor max_records))"

definition decode_read_audit_log :: "bytes \<Rightarrow> (AdminVerb, BspError) result" where
  "decode_read_audit_log body =
     and_then (take_u32 (new_reader body)) (\<lambda>(request_id, r).
     and_then (take_u64 r) (\<lambda>(cursor, r).
     and_then (take_u16 r) (\<lambda>(max_records, r).
     and_then (reader_finish r) (\<lambda>_. admit_audit_request request_id cursor max_records))))"

definition decode_restart_server :: "bytes \<Rightarrow> (AdminVerb, BspError) result" where
  "decode_restart_server body =
     and_then (take_u32 (new_reader body)) (\<lambda>(request_id, r).
     and_then (take_u8 r) (\<lambda>(wire_target, r).
     and_then (restart_target_from_wire wire_target) (\<lambda>target.
     and_then (reader_finish r) (\<lambda>_. Ok (RestartServer request_id target)))))"

definition admin_verb_dispatch :: "u8 \<Rightarrow> bytes \<Rightarrow> (AdminVerb, BspError) result" where
  "admin_verb_dispatch tag body =
     (if tag = TAG_ENROLL_KEY then decode_enroll_key body
      else if tag = TAG_REVOKE_KEY then decode_revoke_key body
      else if tag = TAG_LOAD_WEIGHTS then decode_load_weights body
      else if tag = TAG_READ_AUDIT_LOG then decode_read_audit_log body
      else if tag = TAG_RESTART_SERVER then decode_restart_server body
      else if tag = TAG_REBOOT then and_then (decode_request_id_only body) (\<lambda>i. Ok (Reboot i))
      else Err UnknownMessageType)"

definition admin_verb_decode :: "bytes \<Rightarrow> (AdminVerb, BspError) result" where
  "admin_verb_decode payload =
     and_then (split_tag payload) (\<lambda>(tag, body).
     and_then (require_tag_range tag AdminInbound) (\<lambda>_. admin_verb_dispatch tag body))"

definition admin_request_id :: "AdminVerb \<Rightarrow> u32" where
  "admin_request_id v =
     (case v of EnrollKey i _ _ \<Rightarrow> i | RevokeKey i _ \<Rightarrow> i | LoadWeights i _ \<Rightarrow> i | ReadAuditLog i _ _ \<Rightarrow> i
      | RestartServer i _ \<Rightarrow> i | Reboot i \<Rightarrow> i)"

section \<open>Handshake messages\<close>

record ClientHello =
  chain_counter :: u64
  client_nonce :: bytes
  key_selector :: bytes

definition check_magic :: "FieldReader \<Rightarrow> unit read_result" where
  "check_magic r = and_then (take_array 4 r) (\<lambda>(magic, r). if magic \<noteq> BSP_MAGIC then Err BadMagic else Ok ((), r))"

definition check_versions :: "FieldReader \<Rightarrow> unit read_result" where
  "check_versions r =
     and_then (take_u8 r) (\<lambda>(major, r).
     if major \<noteq> BSP_VERSION_MAJOR then Err UnsupportedVersionMajor
     else and_then (take_u8 r) (\<lambda>(minor, r).
       if minor \<noteq> BSP_VERSION_MINOR then Err UnsupportedVersionMinor else Ok ((), r)))"

definition check_reserved :: "FieldReader \<Rightarrow> unit read_result" where
  "check_reserved r = and_then (take_u16 r) (\<lambda>(v, r). if v \<noteq> BSP_RESERVED then Err ReservedFieldNonZero else Ok ((), r))"

definition check_preamble :: "FieldReader \<Rightarrow> unit read_result" where
  "check_preamble r = and_then (check_magic r) (\<lambda>(_, r). and_then (check_versions r) (\<lambda>(_, r). check_reserved r))"

definition client_hello_decode_body :: "FieldReader \<Rightarrow> (ClientHello, BspError) result" where
  "client_hello_decode_body r =
     and_then (take_u64 r) (\<lambda>(counter, r).
     and_then (take_array LEN_NONCE r) (\<lambda>(nonce, r).
     and_then (take_array LEN_SELECTOR r) (\<lambda>(selector, r).
     Ok \<lparr> chain_counter = counter, client_nonce = nonce, key_selector = selector \<rparr>)))"

definition client_hello_decode :: "bytes \<Rightarrow> (ClientHello, BspError) result" where
  "client_hello_decode bs =
     and_then (require_exact_length (length bs) LEN_CLIENT_HELLO ClientHelloLengthMismatch) (\<lambda>_.
     and_then (check_preamble (new_reader bs)) (\<lambda>(_, r). client_hello_decode_body r))"

record ServerHello =
  server_nonce :: bytes
  server_confirm :: bytes

definition server_hello_decode :: "bytes \<Rightarrow> (ServerHello, BspError) result" where
  "server_hello_decode bs =
     and_then (require_exact_length (length bs) LEN_SERVER_HELLO ServerHelloLengthMismatch) (\<lambda>_.
     and_then (take_array LEN_NONCE (new_reader bs)) (\<lambda>(nonce, r).
     and_then (take_array LEN_CONFIRM r) (\<lambda>(confirm, r).
     Ok \<lparr> server_nonce = nonce, server_confirm = confirm \<rparr>)))"

record ClientAuth =
  client_confirm :: bytes

definition client_auth_decode :: "bytes \<Rightarrow> (ClientAuth, BspError) result" where
  "client_auth_decode bs =
     and_then (require_exact_length (length bs) LEN_CLIENT_AUTH ClientAuthLengthMismatch) (\<lambda>_.
     and_then (take_array LEN_CONFIRM (new_reader bs)) (\<lambda>(confirm, r). Ok \<lparr> client_confirm = confirm \<rparr>))"

section \<open>The response writer\<close>

record ResponseWriter =
  writer_buffer :: bytes
  writer_written :: usize

type_synonym 'a write_result = "('a, BspError) result \<times> ResponseWriter"

definition and_write :: "'a write_result \<Rightarrow> (ResponseWriter \<Rightarrow> 'b write_result) \<Rightarrow> 'b write_result" where
  "and_write m f = (case m of (Err e, w) \<Rightarrow> (Err e, w) | (Ok _, w) \<Rightarrow> f w)"

definition new_writer :: "bytes \<Rightarrow> ResponseWriter" where
  "new_writer out = \<lparr> writer_buffer = out, writer_written = 0 \<rparr>"

text \<open>\<open>reserve\<close> returns a mutable sub-slice: here its bounds.\<close>

definition reserve :: "usize \<Rightarrow> ResponseWriter \<Rightarrow> (usize \<times> usize) write_result" where
  "reserve count w =
     (let start = writer_written w in
      case usize_checked_add start count of
        None \<Rightarrow> (Err OffsetOverflow, w)
      | Some e \<Rightarrow>
        if e > length (writer_buffer w) then (Err OutputBufferTooSmall, w)
        else
          (let w' = w\<lparr> writer_written := e \<rparr> in
           case slice_get (writer_buffer w') start e of
             None \<Rightarrow> (Err OutputBufferTooSmall, w')
           | Some _ \<Rightarrow> (Ok (start, e), w')))"

definition push_bytes :: "bytes \<Rightarrow> ResponseWriter \<Rightarrow> unit write_result" where
  "push_bytes value w =
     (case reserve (length value) w of
        (Err e, w') \<Rightarrow> (Err e, w')
      | (Ok (start, e), w') \<Rightarrow>
        (Ok (), w'\<lparr> writer_buffer := take start (writer_buffer w') @ value @ drop e (writer_buffer w') \<rparr>))"

definition push_u8 :: "u8 \<Rightarrow> ResponseWriter \<Rightarrow> unit write_result" where
  "push_u8 value w = push_bytes [value] w"

definition push_u16 :: "u16 \<Rightarrow> ResponseWriter \<Rightarrow> unit write_result" where
  "push_u16 value w = push_bytes (u16_to_be_bytes value) w"

definition push_u32 :: "u32 \<Rightarrow> ResponseWriter \<Rightarrow> unit write_result" where
  "push_u32 value w = push_bytes (u32_to_be_bytes value) w"

definition push_u64 :: "u64 \<Rightarrow> ResponseWriter \<Rightarrow> unit write_result" where
  "push_u64 value w = push_bytes (u64_to_be_bytes value) w"

definition push_bounded_var_bytes :: "bytes \<Rightarrow> usize \<Rightarrow> BspError \<Rightarrow> ResponseWriter \<Rightarrow> unit write_result" where
  "push_bounded_var_bytes value maximum reason w =
     (if length value > maximum then (Err reason, w)
      else if length value > 0xFFFF then (Err reason, w)
      else and_write (push_u16 (of_nat (length value)) w) (push_bytes value))"

definition writer_finish :: "ResponseWriter \<Rightarrow> usize" where
  "writer_finish w = writer_written w"

definition server_hello_encode :: "ServerHello \<Rightarrow> bytes \<Rightarrow> (usize, BspError) result \<times> bytes" where
  "server_hello_encode h out =
     (case and_write (push_bytes (server_nonce h) (new_writer out)) (push_bytes (server_confirm h)) of
        (Err e, w) \<Rightarrow> (Err e, writer_buffer w)
      | (Ok _, w) \<Rightarrow> (Ok (writer_finish w), writer_buffer w))"

section \<open>Responses\<close>

definition TAG_ACCEPTED :: u8 where "TAG_ACCEPTED = 0x81"
definition TAG_TOKEN_CHUNK :: u8 where "TAG_TOKEN_CHUNK = 0x82"
definition TAG_STREAM_END :: u8 where "TAG_STREAM_END = 0x83"
definition TAG_CLIENT_ERROR :: u8 where "TAG_CLIENT_ERROR = 0x8e"
definition TAG_CLIENT_BYE :: u8 where "TAG_CLIENT_BYE = 0x8f"
definition TAG_ADMIN_OK :: u8 where "TAG_ADMIN_OK = 0x90"
definition TAG_KEY_ENROLLED :: u8 where "TAG_KEY_ENROLLED = 0x91"
definition TAG_AUDIT_CHUNK :: u8 where "TAG_AUDIT_CHUNK = 0x92"
definition TAG_ADMIN_ERROR :: u8 where "TAG_ADMIN_ERROR = 0x9e"
definition TAG_ADMIN_BYE :: u8 where "TAG_ADMIN_BYE = 0x9f"

lemmas bsp_response_tags = TAG_ACCEPTED_def TAG_TOKEN_CHUNK_def TAG_STREAM_END_def TAG_CLIENT_ERROR_def
  TAG_CLIENT_BYE_def TAG_ADMIN_OK_def TAG_KEY_ENROLLED_def TAG_AUDIT_CHUNK_def TAG_ADMIN_ERROR_def TAG_ADMIN_BYE_def

datatype FinishReason = FinishOk | FinishLength | FinishCancelled | FinishModelError

definition finish_reason_to_wire :: "FinishReason \<Rightarrow> u8" where
  "finish_reason_to_wire r = (case r of FinishOk \<Rightarrow> 0 | FinishLength \<Rightarrow> 1 | FinishCancelled \<Rightarrow> 2 | FinishModelError \<Rightarrow> 3)"

definition finish_reason_from_wire :: "u8 \<Rightarrow> (FinishReason, BspError) result" where
  "finish_reason_from_wire v =
     (if v = 0 then Ok FinishOk else if v = 1 then Ok FinishLength else if v = 2 then Ok FinishCancelled
      else if v = 3 then Ok FinishModelError else Err UnknownMessageType)"

datatype ClientResponse =
    Accepted u32
  | TokenChunk u32 bytes
  | StreamEnd u32 FinishReason
  | ClientError u32 u16
  | ClientBye

definition write_tagged_request_id :: "u8 \<Rightarrow> u32 \<Rightarrow> ResponseWriter \<Rightarrow> unit write_result" where
  "write_tagged_request_id tag request_id w = and_write (push_u8 tag w) (push_u32 request_id)"

definition write_error :: "u8 \<Rightarrow> u32 \<Rightarrow> u16 \<Rightarrow> ResponseWriter \<Rightarrow> unit write_result" where
  "write_error tag request_id code w = and_write (write_tagged_request_id tag request_id w) (push_u16 code)"

definition write_token_chunk :: "u32 \<Rightarrow> bytes \<Rightarrow> ResponseWriter \<Rightarrow> unit write_result" where
  "write_token_chunk request_id tokens w =
     and_write (push_u8 TAG_TOKEN_CHUNK w) (\<lambda>w.
     and_write (push_u32 request_id w) (push_bounded_var_bytes tokens MAX_TOKEN_CHUNK TokenChunkExceedsMaximum))"

definition write_stream_end :: "u32 \<Rightarrow> FinishReason \<Rightarrow> ResponseWriter \<Rightarrow> unit write_result" where
  "write_stream_end request_id reason w =
     and_write (push_u8 TAG_STREAM_END w) (\<lambda>w.
     and_write (push_u32 request_id w) (push_u8 (finish_reason_to_wire reason)))"

definition client_response_write_into :: "ClientResponse \<Rightarrow> ResponseWriter \<Rightarrow> unit write_result" where
  "client_response_write_into r w =
     (case r of
        Accepted request_id \<Rightarrow> write_tagged_request_id TAG_ACCEPTED request_id w
      | TokenChunk request_id tokens \<Rightarrow> write_token_chunk request_id tokens w
      | StreamEnd request_id reason \<Rightarrow> write_stream_end request_id reason w
      | ClientError request_id code \<Rightarrow> write_error TAG_CLIENT_ERROR request_id code w
      | ClientBye \<Rightarrow> push_u8 TAG_CLIENT_BYE w)"

definition check_response_bound :: "usize \<Rightarrow> (unit, BspError) result" where
  "check_response_bound written =
     (if written > BSP_MAX_RECORD_PLAINTEXT then Err ResponseExceedsRecordPlaintext else Ok ())"

definition client_response_encode :: "ClientResponse \<Rightarrow> bytes \<Rightarrow> (usize, BspError) result \<times> bytes" where
  "client_response_encode r out =
     (case client_response_write_into r (new_writer out) of
        (Err e, w) \<Rightarrow> (Err e, writer_buffer w)
      | (Ok _, w) \<Rightarrow>
        (let written = writer_finish w
         in (and_then (check_response_bound written) (\<lambda>_. Ok written), writer_buffer w)))"

datatype AdminResponse =
    AdminOk u32 u16
  | KeyEnrolled u32 bytes
  | AuditChunk u32 u64 bytes
  | AdminError u32 u16
  | AdminBye

definition write_admin_ok :: "u32 \<Rightarrow> u16 \<Rightarrow> ResponseWriter \<Rightarrow> unit write_result" where
  "write_admin_ok request_id status w =
     and_write (push_u8 TAG_ADMIN_OK w) (\<lambda>w. and_write (push_u32 request_id w) (push_u16 status))"

definition write_key_enrolled :: "u32 \<Rightarrow> bytes \<Rightarrow> ResponseWriter \<Rightarrow> unit write_result" where
  "write_key_enrolled request_id handle w =
     and_write (push_u8 TAG_KEY_ENROLLED w) (\<lambda>w. and_write (push_u32 request_id w) (push_bytes handle))"

definition write_audit_chunk :: "u32 \<Rightarrow> u64 \<Rightarrow> bytes \<Rightarrow> ResponseWriter \<Rightarrow> unit write_result" where
  "write_audit_chunk request_id next_cursor records w =
     and_write (push_u8 TAG_AUDIT_CHUNK w) (\<lambda>w.
     and_write (push_u32 request_id w) (\<lambda>w.
     and_write (push_u64 next_cursor w) (push_bounded_var_bytes records MAX_AUDIT_CHUNK AuditChunkExceedsMaximum)))"

definition admin_response_write_into :: "AdminResponse \<Rightarrow> ResponseWriter \<Rightarrow> unit write_result" where
  "admin_response_write_into r w =
     (case r of
        AdminOk request_id status \<Rightarrow> write_admin_ok request_id status w
      | KeyEnrolled request_id handle \<Rightarrow> write_key_enrolled request_id handle w
      | AuditChunk request_id next_cursor records \<Rightarrow> write_audit_chunk request_id next_cursor records w
      | AdminError request_id code \<Rightarrow> write_error TAG_ADMIN_ERROR request_id code w
      | AdminBye \<Rightarrow> push_u8 TAG_ADMIN_BYE w)"

definition admin_response_encode :: "AdminResponse \<Rightarrow> bytes \<Rightarrow> (usize, BspError) result \<times> bytes" where
  "admin_response_encode r out =
     (case admin_response_write_into r (new_writer out) of
        (Err e, w) \<Rightarrow> (Err e, writer_buffer w)
      | (Ok _, w) \<Rightarrow>
        (let written = writer_finish w
         in (and_then (check_response_bound written) (\<lambda>_. Ok written), writer_buffer w)))"

section \<open>The record layer\<close>

definition RECORD_LENGTH_PREFIX_BYTES :: usize where "RECORD_LENGTH_PREFIX_BYTES = 4"
definition RECORD_TAG_BYTES :: usize where "RECORD_TAG_BYTES = 16"
definition MIN_PACKET_LENGTH :: u32 where "MIN_PACKET_LENGTH = 2"
definition MAX_PACKET_LENGTH :: u32 where "MAX_PACKET_LENGTH = 35000"
definition RECORD_PLAINTEXT_BLOCK :: usize where "RECORD_PLAINTEXT_BLOCK = 8"
definition MIN_RECORD_PADDING :: usize where "MIN_RECORD_PADDING = 4"
definition PADDING_LENGTH_FIELD :: usize where "PADDING_LENGTH_FIELD = 1"

type_synonym PacketLength = u32

definition packet_length_decode :: "bytes \<Rightarrow> (PacketLength, BspError) result" where
  "packet_length_decode field =
     (let value = u32_from_be_bytes field in
      if value < MIN_PACKET_LENGTH then Err PacketLengthBelowMinimum
      else if value > MAX_PACKET_LENGTH then Err PacketLengthAboveMaximum
      else Ok value)"

definition record_length :: "PacketLength \<Rightarrow> (usize, BspError) result" where
  "record_length p =
     and_then (ok_or (usize_checked_add (unat p) RECORD_LENGTH_PREFIX_BYTES) OffsetOverflow) (\<lambda>with_prefix.
     ok_or (usize_checked_add with_prefix RECORD_TAG_BYTES) OffsetOverflow)"

record DataRecord =
  record_ciphertext :: bytes
  record_tag :: bytes
  record_total_length :: usize

definition split_point :: "PacketLength \<Rightarrow> (usize, BspError) result" where
  "split_point p = ok_or (usize_checked_add RECORD_LENGTH_PREFIX_BYTES (unat p)) OffsetOverflow"

definition split_data_record :: "bytes \<Rightarrow> PacketLength \<Rightarrow> (DataRecord, BspError) result" where
  "split_data_record stream p =
     and_then (record_length p) (\<lambda>total_length.
     and_then (split_point p) (\<lambda>ciphertext_end.
     and_then (ok_or (slice_get stream RECORD_LENGTH_PREFIX_BYTES ciphertext_end) RecordExceedsAvailableBytes) (\<lambda>ciphertext.
     and_then (ok_or (slice_get stream ciphertext_end total_length) RecordExceedsAvailableBytes) (\<lambda>tag.
     Ok \<lparr> record_ciphertext = ciphertext, record_tag = tag, record_total_length = total_length \<rparr>))))"

definition check_plaintext_shape :: "bytes \<Rightarrow> PacketLength \<Rightarrow> (unit, BspError) result" where
  "check_plaintext_shape plaintext p =
     (if length plaintext \<noteq> unat p then Err RecordPlaintextLengthMismatch
      else if length plaintext mod RECORD_PLAINTEXT_BLOCK \<noteq> 0 then Err RecordPlaintextNotBlockAligned
      else Ok ())"

definition payload_end_offset :: "usize \<Rightarrow> usize \<Rightarrow> (usize, BspError) result" where
  "payload_end_offset plaintext_length padding_length =
     and_then (ok_or (usize_checked_add padding_length PADDING_LENGTH_FIELD) OffsetOverflow) (\<lambda>consumed.
     if consumed > plaintext_length then Err PaddingLengthExceedsPacket
     else if padding_length < MIN_RECORD_PADDING then Err PaddingBelowMinimum
     else ok_or (usize_checked_sub plaintext_length padding_length) PaddingLengthExceedsPacket)"

definition check_payload_bound :: "usize \<Rightarrow> (unit, BspError) result" where
  "check_payload_bound payload_length =
     (if payload_length > BSP_MAX_RECORD_PLAINTEXT then Err PayloadExceedsRecordPlaintext else Ok ())"

definition decode_record_plaintext :: "bytes \<Rightarrow> PacketLength \<Rightarrow> (bytes, BspError) result" where
  "decode_record_plaintext plaintext p =
     and_then (check_plaintext_shape plaintext p) (\<lambda>_.
     case plaintext of
       [] \<Rightarrow> Err EmptyMessage
     | first # _ \<Rightarrow>
       and_then (payload_end_offset (length plaintext) (unat first)) (\<lambda>payload_end.
       and_then (ok_or (slice_get plaintext PADDING_LENGTH_FIELD payload_end) PaddingLengthExceedsPacket) (\<lambda>payload.
       and_then (check_payload_bound (length payload)) (\<lambda>_. Ok payload))))"

definition padding_from_block_count :: "usize \<Rightarrow> usize \<Rightarrow> (usize, BspError) result" where
  "padding_from_block_count blocks payload_length =
     and_then (ok_or (usize_checked_mul blocks RECORD_PLAINTEXT_BLOCK) OffsetOverflow) (\<lambda>total.
     and_then (ok_or (usize_checked_sub total payload_length) OffsetOverflow) (\<lambda>rest.
     ok_or (usize_checked_sub rest PADDING_LENGTH_FIELD) OffsetOverflow))"

definition padding_for :: "usize \<Rightarrow> (usize, BspError) result" where
  "padding_for payload_length =
     and_then (ok_or (usize_checked_add payload_length PADDING_LENGTH_FIELD) OffsetOverflow) (\<lambda>with_field.
     and_then (ok_or (usize_checked_add with_field MIN_RECORD_PADDING) OffsetOverflow) (\<lambda>minimum.
     and_then (ok_or (usize_checked_add minimum RECORD_PLAINTEXT_BLOCK) OffsetOverflow) (\<lambda>rounded.
     and_then (ok_or (usize_checked_sub rounded 1) OffsetOverflow) (\<lambda>up.
     padding_from_block_count (up div RECORD_PLAINTEXT_BLOCK) payload_length))))"

function write_padding_loop :: "usize \<Rightarrow> usize \<Rightarrow> ResponseWriter \<Rightarrow> unit write_result" where
  "write_padding_loop written count w =
     (if written < count then
        and_write (push_u8 0 w) (\<lambda>w.
          case usize_checked_add written 1 of
            None \<Rightarrow> (Err OffsetOverflow, w)
          | Some n \<Rightarrow> write_padding_loop n count w)
      else (Ok (), w))"
  by pat_completeness auto
termination by (relation "measure (\<lambda>(written, count, _). count - written)") (auto simp: usize_checked_add_def split: if_splits)

declare write_padding_loop.simps [simp del]

definition write_padding :: "usize \<Rightarrow> ResponseWriter \<Rightarrow> unit write_result" where
  "write_padding count w = write_padding_loop 0 count w"

definition encode_record_plaintext :: "bytes \<Rightarrow> bytes \<Rightarrow> (usize, BspError) result \<times> bytes" where
  "encode_record_plaintext payload out =
     (case and_then (check_payload_bound (length payload)) (\<lambda>_. padding_for (length payload)) of
        Err e \<Rightarrow> (Err e, out)
      | Ok padding_length \<Rightarrow>
        if padding_length > 0xFF then (Err OffsetOverflow, out)
        else
          (case and_write (push_u8 (of_nat padding_length) (new_writer out)) (\<lambda>w.
                and_write (push_bytes payload w) (write_padding padding_length)) of
             (Err e, w) \<Rightarrow> (Err e, writer_buffer w)
           | (Ok _, w) \<Rightarrow> (Ok (writer_finish w), writer_buffer w)))"

record SequenceCounter =
  sequence_value :: u32

definition new_sequence_counter :: SequenceCounter where
  "new_sequence_counter = \<lparr> sequence_value = 0 \<rparr>"

definition sequence_counter_at :: "u32 \<Rightarrow> SequenceCounter" where
  "sequence_counter_at v = \<lparr> sequence_value = v \<rparr>"

definition sequence_nonce :: "SequenceCounter \<Rightarrow> bytes" where
  "sequence_nonce c = u64_to_be_bytes (ucast (sequence_value c))"

definition sequence_advance :: "SequenceCounter \<Rightarrow> (unit, BspError) result \<times> SequenceCounter" where
  "sequence_advance c =
     (if sequence_value c \<ge> MAX_RECORD_SEQ then (Err SequenceExhausted, c)
      else
        (case checked_add (sequence_value c) 1 of
           None \<Rightarrow> (Err SequenceExhausted, c)
         | Some v \<Rightarrow> (Ok (), c\<lparr> sequence_value := v \<rparr>)))"

definition sequence_is_exhausted :: "SequenceCounter \<Rightarrow> bool" where
  "sequence_is_exhausted c \<longleftrightarrow> sequence_value c \<ge> MAX_RECORD_SEQ"

end
