(* ===== verification/Bsp_Wire.thy ===== *)
theory Bsp_Wire
  imports Bsp_Codec
begin

text \<open>
  The decoders of the serving protocol accept exactly the wire format. A reader method is a field of
  the format: it reads one encoded value off the remaining bytes and succeeds on nothing else
  (locale \<open>wire_field\<close>). Decoders are sequences of fields, so what they accept is computed by
  composition (\<open>accepts\<close>).
\<close>

section \<open>Readers by their remaining bytes\<close>

definition remaining :: "FieldReader \<Rightarrow> bytes" where
  "remaining r = drop (reader_offset r) (reader_bytes r)"

definition reader_ok :: "FieldReader \<Rightarrow> bool" where
  "reader_ok r \<longleftrightarrow> reader_offset r \<le> length (reader_bytes r) \<and> length (reader_bytes r) \<le> usize_max"

lemma new_reader_ok [simp]: "length bs \<le> usize_max \<Longrightarrow> reader_ok (new_reader bs)" "remaining (new_reader bs) = bs"
  by (simp_all add: reader_ok_def remaining_def new_reader_def)

lemma reader_take_iff:
  assumes "reader_ok r"
  shows "reader_take n r = Ok (v, r') \<longleftrightarrow>
    length v = n \<and> r' = r\<lparr> reader_offset := reader_offset r + n \<rparr> \<and> (\<exists>ys. remaining r = v @ ys)"
proof (cases "reader_offset r + n \<le> length (reader_bytes r)")
  case True
  then have "reader_take n r = Ok (take n (remaining r), r\<lparr> reader_offset := reader_offset r + n \<rparr>)" "n \<le> length (remaining r)"
    using assms by (simp_all add: reader_take_def usize_checked_add_def slice_get_def reader_ok_def remaining_def)
  then show ?thesis by (auto simp: min_def) (metis append_take_drop_id)
next
  case False
  then have "\<nexists>x. reader_take n r = Ok x" "length (remaining r) < n"
    using assms by (auto simp: reader_take_def usize_checked_add_def slice_get_def reader_ok_def remaining_def)
  then show ?thesis by auto
qed

lemma reader_advance:
  assumes "reader_ok r" "remaining r = v @ ys"
  shows "reader_ok (r\<lparr> reader_offset := reader_offset r + length v \<rparr>)"
    "remaining (r\<lparr> reader_offset := reader_offset r + length v \<rparr>) = ys"
proof -
  have "length (remaining r) = length v + length ys" using assms(2) by simp
  then show "reader_ok (r\<lparr> reader_offset := reader_offset r + length v \<rparr>)"
    using assms(1) unfolding reader_ok_def remaining_def by auto
  have "remaining (r\<lparr> reader_offset := reader_offset r + length v \<rparr>) = drop (length v) (remaining r)"
    by (simp add: remaining_def add.commute)
  then show "remaining (r\<lparr> reader_offset := reader_offset r + length v \<rparr>) = ys" using assms(2) by simp
qed

section \<open>Fields\<close>

text \<open>What a continuation accepts depends on the remaining bytes only.\<close>

definition accepts :: "(FieldReader \<Rightarrow> ('b, BspError) result) \<Rightarrow> (bytes \<Rightarrow> 'b \<Rightarrow> bool) \<Rightarrow> bool" where
  "accepts k L \<longleftrightarrow> (\<forall>r x. reader_ok r \<longrightarrow> (k r = Ok x \<longleftrightarrow> L (remaining r) x))"

locale wire_field =
  fixes rd :: "FieldReader \<Rightarrow> 'a read_result"
    and enc :: "'a \<Rightarrow> bytes"
    and valid :: "'a \<Rightarrow> bool"
  assumes reads: "reader_ok r \<Longrightarrow> valid v \<Longrightarrow> remaining r = enc v @ ys \<Longrightarrow>
      \<exists>r'. rd r = Ok (v, r') \<and> reader_ok r' \<and> remaining r' = ys"
    and only: "reader_ok r \<Longrightarrow> rd r = Ok (v, r') \<Longrightarrow> valid v \<and> reader_ok r' \<and> remaining r = enc v @ remaining r'"
begin

lemma accepts_bind:
  assumes "\<And>v. accepts (k v) (L v)"
  shows "accepts (\<lambda>r. and_then (rd r) (\<lambda>(v, r). k v r)) (\<lambda>bs x. \<exists>v ys. valid v \<and> bs = enc v @ ys \<and> L v ys x)"
  unfolding accepts_def
proof (intro allI impI iffI)
  fix r x
  assume ok: "reader_ok r"
  { assume "and_then (rd r) (\<lambda>(v, r). k v r) = Ok x"
    then obtain v r' where v: "rd r = Ok (v, r')" "k v r' = Ok x" by (auto simp: and_then_Inr)
    from only [OF ok v(1)] v(2) assms [of v] show "\<exists>v ys. valid v \<and> remaining r = enc v @ ys \<and> L v ys x"
      unfolding accepts_def by blast }
  { assume "\<exists>v ys. valid v \<and> remaining r = enc v @ ys \<and> L v ys x"
    then obtain v ys where v: "valid v" "remaining r = enc v @ ys" "L v ys x" by blast
    from reads [OF ok v(1,2)] obtain r' where "rd r = Ok (v, r')" "reader_ok r'" "remaining r' = ys" by blast
    then show "and_then (rd r) (\<lambda>(v, r). k v r) = Ok x"
      using v(3) assms [of v] unfolding accepts_def by simp }
qed

end

lemma accepts_finish:
  "accepts (\<lambda>r. and_then (reader_finish r) (\<lambda>_. c)) (\<lambda>bs x. bs = [] \<and> c = Ok x)"
  by (auto simp: accepts_def reader_finish_def reader_ok_def remaining_def)

lemma accepts_pure:
  "(\<And>a. accepts (k a) (L a)) \<Longrightarrow> accepts (\<lambda>r. and_then c (\<lambda>a. k a r)) (\<lambda>bs x. \<exists>a. c = Ok a \<and> L a bs x)"
  by (auto simp: accepts_def and_then_Inr)

lemma accepts_done: "accepts (\<lambda>r. c) (\<lambda>bs x. c = Ok x)"
  by (simp add: accepts_def)

lemma accepts_new:
  "accepts k L \<Longrightarrow> length bs \<le> usize_max \<Longrightarrow> k (new_reader bs) = Ok x \<longleftrightarrow> L bs x"
  by (simp add: accepts_def)

lemma take_fixed_iff:
  assumes "reader_ok r"
  shows "take_fixed n r = Ok (v, r') \<longleftrightarrow>
    length v = n \<and> r' = r\<lparr> reader_offset := reader_offset r + n \<rparr> \<and> (\<exists>ys. remaining r = v @ ys)"
  unfolding take_fixed_def by (auto simp: and_then_Inr reader_take_iff [OF assms] split: if_splits)

text \<open>A fixed field whose bytes determine the value and conversely.\<close>

lemma wire_fieldI:
  assumes "\<And>r v r'. reader_ok r \<Longrightarrow> rd r = Ok (v, r') \<longleftrightarrow>
    valid v \<and> r' = r\<lparr> reader_offset := reader_offset r + length (enc v) \<rparr> \<and> (\<exists>ys. remaining r = enc v @ ys)"
  shows "wire_field rd enc valid"
proof
  fix r v ys
  assume "reader_ok r" "valid v" "remaining r = enc v @ ys"
  then show "\<exists>r'. rd r = Ok (v, r') \<and> reader_ok r' \<and> remaining r' = ys"
    using assms [of r v] reader_advance [of r "enc v" ys] by blast
next
  fix r v r'
  assume r: "reader_ok r" "rd r = Ok (v, r')"
  then obtain ys where "valid v" "r' = r\<lparr> reader_offset := reader_offset r + length (enc v) \<rparr>" "remaining r = enc v @ ys"
    using assms by blast
  then show "valid v \<and> reader_ok r' \<and> remaining r = enc v @ remaining r'"
    using reader_advance [OF r(1)] by simp
qed

interpretation farray: wire_field "take_array n" "\<lambda>v. v" "\<lambda>v. length v = n" for n
  by (rule wire_fieldI) (auto simp: take_array_def take_fixed_iff)

interpretation fu8: wire_field take_u8 "\<lambda>b. [b]" "\<lambda>_. True"
proof (rule wire_fieldI)
  fix r v r'
  assume ok: "reader_ok r"
  show "take_u8 r = Ok (v, r') \<longleftrightarrow> True \<and> r' = r\<lparr> reader_offset := reader_offset r + length [v] \<rparr> \<and>
      (\<exists>ys. remaining r = [v] @ ys)" (is "?l \<longleftrightarrow> ?r")
  proof
    assume ?l
    then obtain f r1 where "reader_take 1 r = Ok (f, r1)"
      "(case f of [] \<Rightarrow> Err TruncatedMessageBody | b # _ \<Rightarrow> Ok (b, r1)) = Ok (v, r')"
      unfolding take_u8_def by (auto simp: and_then_Inr)
    then show ?r by (auto simp: reader_take_iff [OF ok] split: list.split_asm)
  next
    assume ?r
    then have "reader_take 1 r = Ok ([v], r')" by (simp add: reader_take_iff [OF ok])
    then show ?l by (simp add: take_u8_def)
  qed
qed

lemma take_word_iff:
  assumes "reader_ok r" "\<And>v. length (to v) = n" "\<And>v. from (to v) = v" "\<And>bs. length bs = n \<Longrightarrow> to (from bs) = bs"
  shows "and_then (take_fixed n r) (\<lambda>(field, r). Ok (from field, r)) = Ok (v, r') \<longleftrightarrow>
    True \<and> r' = r\<lparr> reader_offset := reader_offset r + length (to v) \<rparr> \<and> (\<exists>ys. remaining r = to v @ ys)"
proof -
  have conv: "to v = f" if "length f = n" "from f = v" for f
    using assms(4) that by metis
  show ?thesis (is "?l \<longleftrightarrow> ?r")
  proof
    assume ?l
    then obtain f where "take_fixed n r = Ok (f, r')" "from f = v" by (auto simp: and_then_Inr)
    then show ?r using conv by (auto simp: take_fixed_iff [OF assms(1)])
  next
    assume ?r
    then have "take_fixed n r = Ok (to v, r')" by (simp add: take_fixed_iff [OF assms(1)] assms(2))
    then show ?l by (simp add: assms(3))
  qed
qed

interpretation fu16: wire_field take_u16 u16_to_be_bytes "\<lambda>_. True"
  unfolding take_u16_def by (rule wire_fieldI, rule take_word_iff) (simp_all add: to_from_be_bytes)

interpretation fu32: wire_field take_u32 u32_to_be_bytes "\<lambda>_. True"
  unfolding take_u32_def by (rule wire_fieldI, rule take_word_iff) (simp_all add: to_from_be_bytes)

interpretation fu64: wire_field take_u64 u64_to_be_bytes "\<lambda>_. True"
  unfolding take_u64_def by (rule wire_fieldI, rule take_word_iff) (simp_all add: to_from_be_bytes)

lemma require_remaining_iff:
  "reader_ok r \<Longrightarrow> require_remaining n e r = Ok u \<longleftrightarrow> n \<le> length (remaining r)"
  by (auto simp: require_remaining_def usize_checked_sub_def reader_ok_def remaining_def)

interpretation fvar: wire_field "take_bounded_var_bytes m" "\<lambda>v. u16_to_be_bytes (of_nat (length v)) @ v"
  "\<lambda>v. length v \<le> m \<and> length v < 2 ^ 16" for m
proof
  fix r v ys
  assume ok: "reader_ok r" and v: "length v \<le> m \<and> length v < 2 ^ 16"
    and rem: "remaining r = (u16_to_be_bytes (of_nat (length v)) @ v) @ ys"
  then have req: "require_remaining VAR_BYTES_LENGTH_PREFIX TruncatedVarBytesLength r = Ok ()"
    by (simp add: require_remaining_iff VAR_BYTES_LENGTH_PREFIX_def)
  from fu16.reads [OF ok, of "of_nat (length v)" "v @ ys"] rem
  obtain r1 where r1: "take_u16 r = Ok (of_nat (length v), r1)" "reader_ok r1" "remaining r1 = v @ ys" by auto
  have u: "unat (of_nat (length v) :: u16) = length v" using v by (intro unat_of_nat_small) simp
  have "reader_take (length v) r1 = Ok (v, r1\<lparr> reader_offset := reader_offset r1 + length v \<rparr>)"
    "require_remaining (length v) TruncatedVarBytesValue r1 = Ok ()"
    using r1 by (simp_all add: reader_take_iff require_remaining_iff)
  then have "take_bounded_var_bytes m r = Ok (v, r1\<lparr> reader_offset := reader_offset r1 + length v \<rparr>)"
    using v by (simp add: take_bounded_var_bytes_def req r1(1) u)
  then show "\<exists>r'. take_bounded_var_bytes m r = Ok (v, r') \<and> reader_ok r' \<and> remaining r' = ys"
    using reader_advance [OF r1(2,3)] by blast
next
  fix r v r'
  assume ok: "reader_ok r" and t: "take_bounded_var_bytes m r = Ok (v, r')"
  from t obtain d r1 where d: "take_u16 r = Ok (d, r1)" "unat d \<le> m" "reader_take (unat d) r1 = Ok (v, r')"
    unfolding take_bounded_var_bytes_def by (auto simp: and_then_Inr Let_def split: if_splits)
  from fu16.only [OF ok d(1)] have r1: "reader_ok r1" "remaining r = u16_to_be_bytes d @ remaining r1" by simp_all
  from d(3) obtain ys where v: "length v = unat d" "r' = r1\<lparr> reader_offset := reader_offset r1 + unat d \<rparr>" "remaining r1 = v @ ys"
    by (auto simp: reader_take_iff [OF r1(1)])
  have "length v < 2 ^ 16" "of_nat (length v) = d" using v(1) unat_less_exp [of d] by simp_all
  then show "(length v \<le> m \<and> length v < 2 ^ 16) \<and> reader_ok r' \<and>
      remaining r = (u16_to_be_bytes (of_nat (length v)) @ v) @ remaining r'"
    using reader_advance [OF r1(1) v(3)] r1 v d(2) by simp
qed

text \<open>The preamble is three constant fields.\<close>

lemma check_field:
  assumes "wire_field rd enc valid" "valid v" "\<And>r. ck r = and_then (rd r) (\<lambda>(x, r). if x \<noteq> v then Err e else Ok ((), r))"
  shows "wire_field ck (\<lambda>_. enc v) (\<lambda>_. True)"
proof
  fix r u ys
  assume "reader_ok r" "remaining r = enc v @ ys"
  then obtain r' where "rd r = Ok (v, r')" "reader_ok r'" "remaining r' = ys"
    using wire_field.reads [OF assms(1)] assms(2) by blast
  then show "\<exists>r'. ck r = Ok (u, r') \<and> reader_ok r' \<and> remaining r' = ys" by (simp add: assms(3))
next
  fix r u r'
  assume "reader_ok r" "ck r = Ok (u, r')"
  then have "rd r = Ok (v, r')" unfolding assms(3) by (auto simp: and_then_Inr split: if_splits)
  then show "True \<and> reader_ok r' \<and> remaining r = enc v @ remaining r'"
    using wire_field.only [OF assms(1) \<open>reader_ok r\<close>] by blast
qed

interpretation fmagic: wire_field check_magic "\<lambda>_. BSP_MAGIC" "\<lambda>_. True"
  by (rule check_field [OF farray.wire_field_axioms]) (simp_all add: check_magic_def BSP_MAGIC_def)

interpretation freserved: wire_field check_reserved "\<lambda>_. u16_to_be_bytes BSP_RESERVED" "\<lambda>_. True"
  by (rule check_field [OF fu16.wire_field_axioms]) (simp_all add: check_reserved_def)

interpretation fmajor: wire_field
  "\<lambda>r. and_then (take_u8 r) (\<lambda>(x, r). if x \<noteq> BSP_VERSION_MAJOR then Err UnsupportedVersionMajor else Ok ((), r))"
  "\<lambda>_. [BSP_VERSION_MAJOR]" "\<lambda>_. True"
  by (rule check_field [OF fu8.wire_field_axioms]) simp_all

interpretation fminor: wire_field
  "\<lambda>r. and_then (take_u8 r) (\<lambda>(x, r). if x \<noteq> BSP_VERSION_MINOR then Err UnsupportedVersionMinor else Ok ((), r))"
  "\<lambda>_. [BSP_VERSION_MINOR]" "\<lambda>_. True"
  by (rule check_field [OF fu8.wire_field_axioms]) simp_all

lemma check_versions_eq:
  "check_versions r = and_then
     (and_then (take_u8 r) (\<lambda>(x, r). if x \<noteq> BSP_VERSION_MAJOR then Err UnsupportedVersionMajor else Ok ((), r)))
     (\<lambda>(_, r). and_then (take_u8 r) (\<lambda>(x, r). if x \<noteq> BSP_VERSION_MINOR then Err UnsupportedVersionMinor else Ok ((), r)))"
  unfolding check_versions_def by (cases "take_u8 r") auto

section \<open>The wire format\<close>

fun client_request_bytes :: "ClientRequest \<Rightarrow> bytes" where
  "client_request_bytes (InferBegin b) = 0x01 # u32_to_be_bytes (begin_request_id b) @ u32_to_be_bytes (max_tokens b) @
     u16_to_be_bytes (temperature b) @ u16_to_be_bytes (top_p b) @ u32_to_be_bytes (prompt_total_length b)"
| "client_request_bytes (PromptChunk i chunk) = 0x02 # u32_to_be_bytes i @ u16_to_be_bytes (of_nat (length chunk)) @ chunk"
| "client_request_bytes (InferCommit i) = 0x03 # u32_to_be_bytes i"
| "client_request_bytes (Cancel i) = 0x04 # u32_to_be_bytes i"
| "client_request_bytes Close = [0x05]"

fun client_request_ok :: "ClientRequest \<Rightarrow> bool" where
  "client_request_ok (InferBegin b) \<longleftrightarrow> max_tokens b \<le> 4096 \<and> prompt_total_length b \<le> 16384"
| "client_request_ok (PromptChunk i chunk) \<longleftrightarrow> length chunk \<le> 4032"
| "client_request_ok _ \<longleftrightarrow> True"

fun admin_verb_bytes :: "AdminVerb \<Rightarrow> bytes" where
  "admin_verb_bytes (EnrollKey i role key) = 0x11 # u32_to_be_bytes i @ credential_role_to_wire role # key"
| "admin_verb_bytes (RevokeKey i handle) = 0x12 # u32_to_be_bytes i @ handle"
| "admin_verb_bytes (LoadWeights i digest) = 0x13 # u32_to_be_bytes i @ digest"
| "admin_verb_bytes (ReadAuditLog i cursor n) = 0x14 # u32_to_be_bytes i @ u64_to_be_bytes cursor @ u16_to_be_bytes n"
| "admin_verb_bytes (RestartServer i target) = 0x15 # u32_to_be_bytes i @ [restart_target_to_wire target]"
| "admin_verb_bytes (Reboot i) = 0x16 # u32_to_be_bytes i"

fun admin_verb_ok :: "AdminVerb \<Rightarrow> bool" where
  "admin_verb_ok (EnrollKey i role key) \<longleftrightarrow> length key = 32"
| "admin_verb_ok (RevokeKey i handle) \<longleftrightarrow> length handle = 16"
| "admin_verb_ok (LoadWeights i digest) \<longleftrightarrow> length digest = 32"
| "admin_verb_ok (ReadAuditLog i cursor n) \<longleftrightarrow> n \<le> 64"
| "admin_verb_ok _ \<longleftrightarrow> True"

definition preamble :: bytes where
  "preamble = [0x42, 0x53, 0x50, 0x32, 2, 0, 0, 0]"

lemma preamble_eq: "preamble = BSP_MAGIC @ [BSP_VERSION_MAJOR] @ [BSP_VERSION_MINOR] @ u16_to_be_bytes BSP_RESERVED"
proof -
  have "u16_to_be_bytes BSP_RESERVED = [0, 0]" by (simp add: u16_to_be_bytes_def BSP_RESERVED_def numeral_2_eq_2)
  then show ?thesis by (simp add: preamble_def BSP_MAGIC_def BSP_VERSION_MAJOR_def BSP_VERSION_MINOR_def)
qed

definition client_hello_bytes :: "ClientHello \<Rightarrow> bytes" where
  "client_hello_bytes h = preamble @ u64_to_be_bytes (chain_counter h) @ client_nonce h @ key_selector h"

definition client_hello_ok :: "ClientHello \<Rightarrow> bool" where
  "client_hello_ok h \<longleftrightarrow> length (client_nonce h) = 32 \<and> length (key_selector h) = 16"

section \<open>What the decoders accept\<close>

lemma and_then_assoc: "and_then (and_then m f) g = and_then m (\<lambda>x. and_then (f x) g)"
  by (cases m) simp_all

lemma role_from_wire_iff: "credential_role_from_wire w = Ok role \<longleftrightarrow> w = credential_role_to_wire role"
  by (cases role) (auto simp: credential_role_from_wire_def credential_role_to_wire_def)

lemma target_from_wire_iff: "restart_target_from_wire w = Ok target \<longleftrightarrow> w = restart_target_to_wire target"
  by (cases target) (auto simp: restart_target_from_wire_def restart_target_to_wire_def)

lemma admit_audit_request_iff: "admit_audit_request i c n = Ok q \<longleftrightarrow> n \<le> 64 \<and> q = ReadAuditLog i c n"
  by (auto simp: admit_audit_request_def MAX_AUDIT_RECORDS_def)

lemma check_limits_iff:
  "and_then (infer_begin_check_limits b) (\<lambda>_. Ok b) = Ok b' \<longleftrightarrow> b' = b \<and> max_tokens b \<le> 4096 \<and> prompt_total_length b \<le> 16384"
  by (auto simp: infer_begin_check_limits_def MAX_TOKENS_REQUESTED_def MAX_PROMPT_BYTES_def)

lemma decode_request_id_only_iff:
  "length body \<le> usize_max \<Longrightarrow> decode_request_id_only body = Ok i \<longleftrightarrow> body = u32_to_be_bytes i"
  unfolding decode_request_id_only_def
  by (subst accepts_new [OF fu32.accepts_bind [OF accepts_finish]]) auto

lemma decode_prompt_chunk_iff:
  "length body \<le> usize_max \<Longrightarrow> decode_prompt_chunk body = Ok q \<longleftrightarrow>
    (\<exists>i chunk. q = PromptChunk i chunk \<and> length chunk \<le> 4032 \<and>
       body = u32_to_be_bytes i @ u16_to_be_bytes (of_nat (length chunk)) @ chunk)"
  unfolding decode_prompt_chunk_def
  by (subst accepts_new [OF fu32.accepts_bind [OF fvar.accepts_bind [OF accepts_finish]]]) (auto simp: MAX_PROMPT_CHUNK_def)

lemma infer_begin_decode_iff:
  "length body \<le> usize_max \<Longrightarrow> infer_begin_decode body = Ok b \<longleftrightarrow>
    max_tokens b \<le> 4096 \<and> prompt_total_length b \<le> 16384 \<and>
    body = u32_to_be_bytes (begin_request_id b) @ u32_to_be_bytes (max_tokens b) @ u16_to_be_bytes (temperature b) @
      u16_to_be_bytes (top_p b) @ u32_to_be_bytes (prompt_total_length b)"
proof -
  assume len: "length body \<le> usize_max"
  have "infer_begin_decode body =
     and_then (take_u32 (new_reader body)) (\<lambda>(i, r). and_then (take_u32 r) (\<lambda>(t, r). and_then (take_u16 r) (\<lambda>(te, r).
     and_then (take_u16 r) (\<lambda>(p, r). and_then (take_u32 r) (\<lambda>(n, r). and_then (reader_finish r) (\<lambda>_.
     and_then (infer_begin_check_limits (InferBegin.make i t te p n)) (\<lambda>_. Ok (InferBegin.make i t te p n))))))))"
    unfolding infer_begin_decode_def infer_begin_read_fields_def InferBegin.make_def
    by (simp add: and_then_def split: sum.splits prod.splits)
  also have "\<dots> = Ok b \<longleftrightarrow> (\<exists>i t te p n. body = u32_to_be_bytes i @ u32_to_be_bytes t @ u16_to_be_bytes te @ u16_to_be_bytes p @
      u32_to_be_bytes n \<and> b = InferBegin.make i t te p n \<and> t \<le> 4096 \<and> n \<le> 16384)"
    by (subst accepts_new [OF fu32.accepts_bind [OF fu32.accepts_bind [OF fu16.accepts_bind
        [OF fu16.accepts_bind [OF fu32.accepts_bind [OF accepts_finish]]]]] len])
      (auto simp: check_limits_iff InferBegin.make_def)
  finally show ?thesis by (cases b) (auto simp: InferBegin.make_def)
qed

lemma decode_enroll_key_iff:
  "length body \<le> usize_max \<Longrightarrow> decode_enroll_key body = Ok q \<longleftrightarrow>
    (\<exists>i role key. q = EnrollKey i role key \<and> length key = 32 \<and> body = u32_to_be_bytes i @ credential_role_to_wire role # key)"
  unfolding decode_enroll_key_def
  by (subst accepts_new [OF fu32.accepts_bind [OF fu8.accepts_bind [OF accepts_pure [OF farray.accepts_bind [OF accepts_finish]]]]])
    (auto simp: role_from_wire_iff LEN_PSK_def)

lemma decode_revoke_key_iff:
  "length body \<le> usize_max \<Longrightarrow> decode_revoke_key body = Ok q \<longleftrightarrow>
    (\<exists>i handle. q = RevokeKey i handle \<and> length handle = 16 \<and> body = u32_to_be_bytes i @ handle)"
  unfolding decode_revoke_key_def
  by (subst accepts_new [OF fu32.accepts_bind [OF farray.accepts_bind [OF accepts_finish]]]) (auto simp: LEN_HANDLE_def)

lemma decode_load_weights_iff:
  "length body \<le> usize_max \<Longrightarrow> decode_load_weights body = Ok q \<longleftrightarrow>
    (\<exists>i digest. q = LoadWeights i digest \<and> length digest = 32 \<and> body = u32_to_be_bytes i @ digest)"
  unfolding decode_load_weights_def
  by (subst accepts_new [OF fu32.accepts_bind [OF farray.accepts_bind [OF accepts_finish]]]) (auto simp: LEN_WEIGHTS_DIGEST_def)

lemma decode_read_audit_log_iff:
  "length body \<le> usize_max \<Longrightarrow> decode_read_audit_log body = Ok q \<longleftrightarrow>
    (\<exists>i cursor n. q = ReadAuditLog i cursor n \<and> n \<le> 64 \<and> body = u32_to_be_bytes i @ u64_to_be_bytes cursor @ u16_to_be_bytes n)"
  unfolding decode_read_audit_log_def
  by (subst accepts_new [OF fu32.accepts_bind [OF fu64.accepts_bind [OF fu16.accepts_bind [OF accepts_finish]]]])
    (auto simp: admit_audit_request_iff)

lemma decode_restart_server_iff:
  "length body \<le> usize_max \<Longrightarrow> decode_restart_server body = Ok q \<longleftrightarrow>
    (\<exists>i target. q = RestartServer i target \<and> body = u32_to_be_bytes i @ [restart_target_to_wire target])"
  unfolding decode_restart_server_def
  by (subst accepts_new [OF fu32.accepts_bind [OF fu8.accepts_bind [OF accepts_pure [OF accepts_finish]]]])
    (auto simp: target_from_wire_iff)

lemma client_request_dispatch_iff:
  "client_request_dispatch tag body = Ok q \<longleftrightarrow>
    (case q of
       InferBegin b \<Rightarrow> tag = 1 \<and> infer_begin_decode body = Ok b
     | PromptChunk i chunk \<Rightarrow> tag = 2 \<and> decode_prompt_chunk body = Ok q
     | InferCommit i \<Rightarrow> tag = 3 \<and> decode_request_id_only body = Ok i
     | Cancel i \<Rightarrow> tag = 4 \<and> decode_request_id_only body = Ok i
     | Close \<Rightarrow> tag = 5 \<and> body = [])"
proof -
  have chunk: "\<exists>i chunk. q = PromptChunk i chunk" if "decode_prompt_chunk body = Ok q" for q
    using that by (auto simp: decode_prompt_chunk_def and_then_Inr)
  have close: "decode_close body = Ok q \<longleftrightarrow> body = [] \<and> q = Close" for q
    by (auto simp: decode_close_def reader_finish_def new_reader_def)
  show ?thesis
    by (cases q; cases "tag = 2")
      (auto simp: client_request_dispatch_def bsp_tags and_then_Inr close split: if_splits dest: chunk)
qed

lemma tag_range_requests:
  "tag \<in> {1, 2, 3, 4, 5} \<Longrightarrow> require_tag_range tag ClientInbound = Ok ()"
  by (auto simp: require_tag_range_def tag_range_of_def TAG_RANGE_SHIFT_def)

lemma tag_range_verbs:
  "tag \<in> {0x11, 0x12, 0x13, 0x14, 0x15, 0x16} \<Longrightarrow> require_tag_range tag AdminInbound = Ok ()"
  by (auto simp: require_tag_range_def tag_range_of_def TAG_RANGE_SHIFT_def)

lemma client_request_decode_iff:
  assumes "length payload \<le> usize_max"
  shows "client_request_decode payload = Ok q \<longleftrightarrow> client_request_ok q \<and> payload = client_request_bytes q"
proof (cases payload)
  case Nil
  then show ?thesis by (cases q) (simp_all add: client_request_decode_def split_tag_def)
next
  case (Cons tag body)
  have len: "length body \<le> usize_max" using assms Cons by simp
  have "client_request_decode payload = Ok q \<longleftrightarrow>
      require_tag_range tag ClientInbound = Ok () \<and> client_request_dispatch tag body = Ok q"
    using Cons by (simp add: client_request_decode_def split_tag_def and_then_Inr)
  also have "\<dots> \<longleftrightarrow> client_request_dispatch tag body = Ok q"
    using tag_range_requests [of tag] by (auto simp: client_request_dispatch_iff split: ClientRequest.splits)
  finally show ?thesis
    using Cons by (cases q) (auto simp: client_request_dispatch_iff infer_begin_decode_iff [OF len]
        decode_prompt_chunk_iff [OF len] decode_request_id_only_iff [OF len])
qed

lemma admin_verb_dispatch_iff:
  "admin_verb_dispatch tag body = Ok q \<longleftrightarrow>
    tag = 0x11 \<and> decode_enroll_key body = Ok q \<or> tag = 0x12 \<and> decode_revoke_key body = Ok q \<or>
    tag = 0x13 \<and> decode_load_weights body = Ok q \<or> tag = 0x14 \<and> decode_read_audit_log body = Ok q \<or>
    tag = 0x15 \<and> decode_restart_server body = Ok q \<or>
    tag = 0x16 \<and> (\<exists>i. q = Reboot i \<and> decode_request_id_only body = Ok i)"
  by (auto simp: admin_verb_dispatch_def bsp_tags and_then_Inr)

lemma admin_verb_decode_iff:
  assumes "length payload \<le> usize_max"
  shows "admin_verb_decode payload = Ok q \<longleftrightarrow> admin_verb_ok q \<and> payload = admin_verb_bytes q"
proof (cases payload)
  case Nil
  then show ?thesis by (cases q) (simp_all add: admin_verb_decode_def split_tag_def)
next
  case (Cons tag body)
  have len: "length body \<le> usize_max" using assms Cons by simp
  have "admin_verb_decode payload = Ok q \<longleftrightarrow>
      require_tag_range tag AdminInbound = Ok () \<and> admin_verb_dispatch tag body = Ok q"
    using Cons by (simp add: admin_verb_decode_def split_tag_def and_then_Inr)
  also have "\<dots> \<longleftrightarrow> admin_verb_dispatch tag body = Ok q"
    using tag_range_verbs [of tag] unfolding admin_verb_dispatch_iff by auto
  finally show ?thesis
    using Cons by (cases q) (auto simp: admin_verb_dispatch_iff decode_enroll_key_iff [OF len] decode_revoke_key_iff [OF len]
        decode_load_weights_iff [OF len] decode_read_audit_log_iff [OF len] decode_restart_server_iff [OF len]
        decode_request_id_only_iff [OF len])
qed

lemma client_hello_decode_iff:
  "client_hello_decode bs = Ok h \<longleftrightarrow> client_hello_ok h \<and> bs = client_hello_bytes h"
proof (cases "length bs = 64")
  case True
  then have len: "length bs \<le> usize_max" by (simp add: usize_max_def)
  let ?major = "\<lambda>r. and_then (take_u8 r) (\<lambda>(x, r). if x \<noteq> BSP_VERSION_MAJOR then Err UnsupportedVersionMajor else Ok ((), r))"
  let ?minor = "\<lambda>r. and_then (take_u8 r) (\<lambda>(x, r). if x \<noteq> BSP_VERSION_MINOR then Err UnsupportedVersionMinor else Ok ((), r))"
  have "client_hello_decode bs = and_then (check_magic (new_reader bs)) (\<lambda>(_, r). and_then (?major r) (\<lambda>(_, r).
      and_then (?minor r) (\<lambda>(_, r). and_then (check_reserved r) (\<lambda>(_, r). and_then (take_u64 r) (\<lambda>(c, r).
      and_then (take_array LEN_NONCE r) (\<lambda>(n, r). and_then (take_array LEN_SELECTOR r) (\<lambda>(s, r). Ok (ClientHello.make c n s))))))))"
    using True unfolding client_hello_decode_def check_preamble_def check_versions_eq client_hello_decode_body_def ClientHello.make_def
    by (simp add: require_exact_length_def LEN_CLIENT_HELLO_def and_then_assoc case_prod_unfold)
  also have "\<dots> = Ok h \<longleftrightarrow> (\<exists>c n s ws. bs = BSP_MAGIC @ [BSP_VERSION_MAJOR] @ [BSP_VERSION_MINOR] @ u16_to_be_bytes BSP_RESERVED @
      u64_to_be_bytes c @ n @ s @ ws \<and> length n = 32 \<and> length s = 16 \<and> h = ClientHello.make c n s)"
    (is "_ \<longleftrightarrow> ?R")
  proof (subst accepts_new [OF fmagic.accepts_bind [OF fmajor.accepts_bind [OF fminor.accepts_bind [OF freserved.accepts_bind
        [OF fu64.accepts_bind [OF farray.accepts_bind [OF farray.accepts_bind [OF accepts_done]]]]]]] len], rule iffI)
    assume ?R
    then obtain c n s ws where R: "bs = BSP_MAGIC @ [BSP_VERSION_MAJOR] @ [BSP_VERSION_MINOR] @ u16_to_be_bytes BSP_RESERVED @
      u64_to_be_bytes c @ n @ s @ ws" "length n = LEN_NONCE" "length s = LEN_SELECTOR" "h = ClientHello.make c n s"
      by (auto simp: LEN_NONCE_def LEN_SELECTOR_def)
    show "\<exists>v ys. True \<and> bs = BSP_MAGIC @ ys \<and> (\<exists>v ysa. True \<and> ys = [BSP_VERSION_MAJOR] @ ysa \<and> (\<exists>v ys. True \<and>
        ysa = [BSP_VERSION_MINOR] @ ys \<and> (\<exists>v ysa. True \<and> ys = u16_to_be_bytes BSP_RESERVED @ ysa \<and> (\<exists>v ys. True \<and>
        ysa = u64_to_be_bytes v @ ys \<and> (\<exists>va ysa. length va = LEN_NONCE \<and> ys = va @ ysa \<and> (\<exists>vb ys. length vb = LEN_SELECTOR \<and>
        ysa = vb @ ys \<and> Ok (ClientHello.make v va vb) = Ok h))))))"
      by (intro exI conjI, (rule TrueI | rule R(1-3) | rule refl | simp add: R(4))+)
  qed (auto simp: LEN_NONCE_def LEN_SELECTOR_def)
  also have "\<dots> \<longleftrightarrow> client_hello_ok h \<and> bs = client_hello_bytes h" (is "?R \<longleftrightarrow> _")
  proof
    assume ?R
    then obtain c n s ws where R: "bs = preamble @ u64_to_be_bytes c @ n @ s @ ws" "length n = 32" "length s = 16"
      "h = ClientHello.make c n s" by (auto simp: preamble_eq)
    then have "ws = []" using True by (simp add: preamble_def)
    then show "client_hello_ok h \<and> bs = client_hello_bytes h"
      using R by (simp add: client_hello_ok_def client_hello_bytes_def ClientHello.make_def )
  next
    assume "client_hello_ok h \<and> bs = client_hello_bytes h"
    then have "bs = preamble @ u64_to_be_bytes (chain_counter h) @ client_nonce h @ key_selector h @ []"
      "length (client_nonce h) = 32" "length (key_selector h) = 16"
      "h = ClientHello.make (chain_counter h) (client_nonce h) (key_selector h)"
      by (simp_all add: client_hello_ok_def client_hello_bytes_def ClientHello.make_def preamble_def)
    then show ?R unfolding preamble_eq append_assoc by blast
  qed
  finally show ?thesis .
next
  case False
  then show ?thesis
    by (auto simp: client_hello_decode_def require_exact_length_def LEN_CLIENT_HELLO_def client_hello_bytes_def client_hello_ok_def
        preamble_def)
qed

end
