(* ===== verification/Bsp_Records.thy ===== *)
theory Bsp_Records
  imports Bsp_Codec
begin

text \<open>
  The writing side of the serving protocol and the record layer. A writer routine emits a fixed byte
  string into the caller's buffer (\<open>emits\<close>); routines in sequence emit the concatenation.
\<close>

section \<open>Emitting bytes\<close>

definition writer_ok :: "ResponseWriter \<Rightarrow> bool" where
  "writer_ok w \<longleftrightarrow> writer_written w \<le> length (writer_buffer w) \<and> length (writer_buffer w) \<le> usize_max"

definition appended :: "ResponseWriter \<Rightarrow> bytes \<Rightarrow> ResponseWriter" where
  "appended w v = w\<lparr> writer_buffer := take (writer_written w) (writer_buffer w) @ v @
     drop (writer_written w + length v) (writer_buffer w), writer_written := writer_written w + length v \<rparr>"

definition fits :: "ResponseWriter \<Rightarrow> bytes \<Rightarrow> bool" where
  "fits w v \<longleftrightarrow> writer_written w + length v \<le> length (writer_buffer w)"

definition emits :: "(ResponseWriter \<Rightarrow> unit write_result) \<Rightarrow> bytes \<Rightarrow> bool" where
  "emits f v \<longleftrightarrow> (\<forall>w. writer_ok w \<longrightarrow>
     (if fits w v then f w = (Ok (), appended w v) else is_err (fst (f w))))"

lemma new_writer_ok [simp]:
  "length out \<le> usize_max \<Longrightarrow> writer_ok (new_writer out)"
  "fits (new_writer out) v \<longleftrightarrow> length v \<le> length out"
  "writer_buffer (appended (new_writer out) v) = v @ drop (length v) out"
  "writer_written (appended (new_writer out) v) = length v"
  by (simp_all add: writer_ok_def new_writer_def fits_def appended_def)

lemma appended_ok: "writer_ok w \<Longrightarrow> fits w v \<Longrightarrow> writer_ok (appended w v)"
  by (auto simp: writer_ok_def fits_def appended_def)

lemma appended_append:
  assumes "fits w a"
  shows "appended (appended w a) b = appended w (a @ b)"
proof -
  have "min (length (writer_buffer w)) (writer_written w) = writer_written w"
    using assms by (simp add: fits_def)
  then show ?thesis by (simp add: appended_def ac_simps)
qed

lemma fits_appended: "fits w a \<Longrightarrow> fits (appended w a) b \<longleftrightarrow> fits w (a @ b)"
  by (auto simp: fits_def appended_def)

lemma fits_prefix: "fits w (a @ b) \<Longrightarrow> fits w a"
  by (simp add: fits_def)

lemma emits_push_bytes: "emits (push_bytes v) v"
  by (auto simp: emits_def push_bytes_def reserve_def usize_checked_add_def slice_get_def fits_def writer_ok_def
      appended_def is_err_def Let_def)

lemma emits_push [intro]:
  "emits (push_u8 b) [b]" "emits (push_u16 x) (u16_to_be_bytes x)" "emits (push_u32 y) (u32_to_be_bytes y)"
  "emits (push_u64 z) (u64_to_be_bytes z)" "emits (push_bytes v) v"
  using emits_push_bytes by (simp_all add: push_u8_def [abs_def] push_u16_def [abs_def] push_u32_def [abs_def] push_u64_def [abs_def])

lemma emits_seq:
  assumes "emits f a" "emits g b"
  shows "emits (\<lambda>w. and_write (f w) g) (a @ b)"
  unfolding emits_def
proof (intro allI impI)
  fix w
  assume ok: "writer_ok w"
  show "if fits w (a @ b) then and_write (f w) g = (Ok (), appended w (a @ b))
    else is_err (fst (and_write (f w) g))"
  proof (cases "fits w a")
    case True
    then have "f w = (Ok (), appended w a)" using assms(1) ok by (simp add: emits_def)
    moreover have "if fits w (a @ b) then g (appended w a) = (Ok (), appended w (a @ b))
        else is_err (fst (g (appended w a)))"
      using assms(2) appended_ok [OF ok True] fits_appended [OF True, of b] appended_append [OF True, of b]
      by (auto simp: emits_def)
    ultimately show ?thesis by (simp add: and_write_def)
  next
    case False
    then have "is_err (fst (f w))" using assms(1) ok by (simp add: emits_def)
    then show ?thesis using False fits_prefix [of w a b]
      by (cases "f w") (auto simp: and_write_def is_err_def split: sum.splits)
  qed
qed

lemma emits_var_bytes:
  assumes "length v \<le> m" "length v < 2 ^ 16"
  shows "emits (push_bounded_var_bytes v m e) (u16_to_be_bytes (of_nat (length v)) @ v)"
proof -
  have "push_bounded_var_bytes v m e = (\<lambda>w. and_write (push_u16 (of_nat (length v)) w) (push_bytes v))"
    using assms by (auto simp: push_bounded_var_bytes_def)
  then show ?thesis using emits_seq [OF emits_push(2,5)] by simp
qed

lemma emits_padding_loop: "k \<le> count \<Longrightarrow> count \<le> usize_max \<Longrightarrow> emits (write_padding_loop k count) (replicate (count - k) 0)"
proof (induction "count - k" arbitrary: k)
  case 0
  then show ?case
    by (subst write_padding_loop.simps) (auto simp: emits_def write_padding_loop.simps appended_def fits_def writer_ok_def)
next
  case (Suc n)
  then have "write_padding_loop k count = (\<lambda>w. and_write (push_u8 0 w) (write_padding_loop (k + 1) count))"
    by (intro ext, subst write_padding_loop.simps) (auto simp: usize_checked_add_def)
  moreover have "emits (write_padding_loop (k + 1) count) (replicate (count - (k + 1)) 0)" using Suc by simp
  moreover have "replicate (count - k) 0 = [0 :: u8] @ replicate (count - (k + 1)) 0"
    using Suc by (cases "count - k") auto
  ultimately show ?case using emits_seq [OF emits_push(1) [of 0]] by simp
qed

lemma emits_padding: "count \<le> usize_max \<Longrightarrow> emits (write_padding count) (replicate count 0)"
  using emits_padding_loop [of 0 count] by (simp add: write_padding_def [abs_def])

section \<open>Responses on the wire\<close>

fun client_response_bytes :: "ClientResponse \<Rightarrow> bytes" where
  "client_response_bytes (Accepted i) = 0x81 # u32_to_be_bytes i"
| "client_response_bytes (TokenChunk i t) = 0x82 # u32_to_be_bytes i @ u16_to_be_bytes (of_nat (length t)) @ t"
| "client_response_bytes (StreamEnd i f) = 0x83 # u32_to_be_bytes i @ [finish_reason_to_wire f]"
| "client_response_bytes (ClientError i c) = 0x8e # u32_to_be_bytes i @ u16_to_be_bytes c"
| "client_response_bytes ClientBye = [0x8f]"

fun client_response_ok :: "ClientResponse \<Rightarrow> bool" where
  "client_response_ok (TokenChunk i t) \<longleftrightarrow> length t \<le> 512"
| "client_response_ok _ \<longleftrightarrow> True"

fun admin_response_bytes :: "AdminResponse \<Rightarrow> bytes" where
  "admin_response_bytes (AdminOk i s) = 0x90 # u32_to_be_bytes i @ u16_to_be_bytes s"
| "admin_response_bytes (KeyEnrolled i h) = 0x91 # u32_to_be_bytes i @ h"
| "admin_response_bytes (AuditChunk i c d) = 0x92 # u32_to_be_bytes i @ u64_to_be_bytes c @ u16_to_be_bytes (of_nat (length d)) @ d"
| "admin_response_bytes (AdminError i c) = 0x9e # u32_to_be_bytes i @ u16_to_be_bytes c"
| "admin_response_bytes AdminBye = [0x9f]"

fun admin_response_ok :: "AdminResponse \<Rightarrow> bool" where
  "admin_response_ok (AuditChunk i c d) \<longleftrightarrow> length d \<le> 1024"
| "admin_response_ok (KeyEnrolled i h) \<longleftrightarrow> length h = 16"
| "admin_response_ok _ \<longleftrightarrow> True"

lemma emits_tagged: "emits (\<lambda>w. and_write (push_u8 t w) (push_u32 i)) (t # u32_to_be_bytes i)"
  using emits_seq [OF emits_push(1,3)] by simp

lemma emits_tagged_rest:
  assumes "emits g b"
  shows "emits (\<lambda>w. and_write (push_u8 t w) (\<lambda>w. and_write (push_u32 i w) g)) (t # u32_to_be_bytes i @ b)"
  using emits_seq [OF emits_push(1) emits_seq [OF emits_push(3) assms]] by simp

lemma client_response_emits: "client_response_ok r \<Longrightarrow> emits (client_response_write_into r) (client_response_bytes r)"
proof (induction r rule: client_response_bytes.induct)
  case (1 i)
  then show ?case using emits_tagged [of TAG_ACCEPTED i]
    by (simp add: client_response_write_into_def [abs_def] write_tagged_request_id_def TAG_ACCEPTED_def)
next
  case (2 i t)
  then have "emits (push_bounded_var_bytes t MAX_TOKEN_CHUNK TokenChunkExceedsMaximum) (u16_to_be_bytes (of_nat (length t)) @ t)"
    by (intro emits_var_bytes) (simp_all add: MAX_TOKEN_CHUNK_def)
  from emits_tagged_rest [OF this, of TAG_TOKEN_CHUNK i] show ?case
    by (simp add: client_response_write_into_def [abs_def] write_token_chunk_def TAG_TOKEN_CHUNK_def)
next
  case (3 i f)
  then show ?case using emits_tagged_rest [OF emits_push(1), of TAG_STREAM_END i]
    by (simp add: client_response_write_into_def [abs_def] write_stream_end_def TAG_STREAM_END_def)
next
  case (4 i c)
  then show ?case using emits_seq [OF emits_tagged emits_push(2), of TAG_CLIENT_ERROR i c]
    by (simp add: client_response_write_into_def [abs_def] write_error_def write_tagged_request_id_def TAG_CLIENT_ERROR_def)
next
  case 5
  then show ?case using emits_push(1) [of TAG_CLIENT_BYE]
    by (simp add: client_response_write_into_def [abs_def] TAG_CLIENT_BYE_def)
qed

lemma admin_response_emits: "admin_response_ok r \<Longrightarrow> emits (admin_response_write_into r) (admin_response_bytes r)"
proof (induction r rule: admin_response_bytes.induct)
  case (1 i s)
  then show ?case using emits_tagged_rest [OF emits_push(2), of TAG_ADMIN_OK i s]
    by (simp add: admin_response_write_into_def [abs_def] write_admin_ok_def TAG_ADMIN_OK_def)
next
  case (2 i h)
  then show ?case using emits_tagged_rest [OF emits_push(5), of TAG_KEY_ENROLLED i h]
    by (simp add: admin_response_write_into_def [abs_def] write_key_enrolled_def TAG_KEY_ENROLLED_def)
next
  case (3 i c d)
  then have "emits (push_bounded_var_bytes d MAX_AUDIT_CHUNK AuditChunkExceedsMaximum) (u16_to_be_bytes (of_nat (length d)) @ d)"
    by (intro emits_var_bytes) (simp_all add: MAX_AUDIT_CHUNK_def)
  from emits_tagged_rest [OF emits_seq [OF emits_push(4) this], of TAG_AUDIT_CHUNK i c] show ?case
    by (simp add: admin_response_write_into_def [abs_def] write_audit_chunk_def TAG_AUDIT_CHUNK_def)
next
  case (4 i c)
  then show ?case using emits_seq [OF emits_tagged emits_push(2), of TAG_ADMIN_ERROR i c]
    by (simp add: admin_response_write_into_def [abs_def] write_error_def write_tagged_request_id_def TAG_ADMIN_ERROR_def)
next
  case 5
  then show ?case using emits_push(1) [of TAG_ADMIN_BYE]
    by (simp add: admin_response_write_into_def [abs_def] TAG_ADMIN_BYE_def)
qed

end
