(* ===== verification/Bsp_Session.thy ===== *)
theory Bsp_Session
  imports Bsp_Codec
begin

text \<open>
  The session state machine of the serving protocol (\<open>bsp/src/session.rs\<close>): the handshake states, the
  request phase, and the rule that a denial of disposition \<open>Drop\<close> closes the session.
\<close>

datatype SessionType = ClientSession | AdminSession

datatype SessionState = WaitHello | WaitClientAuth | AuthPending | Established | Closed

datatype RequestPhase =
    Idle
  | Collecting u32 u32 u32
  | Streaming u32

datatype InboundMessage = ClientMessage ClientRequest | AdminMessage AdminVerb

record Session =
  session_state :: SessionState
  session_type :: "SessionType option"
  session_request :: RequestPhase

definition new_session :: Session where
  "new_session = \<lparr> session_state = WaitHello, session_type = None, session_request = Idle \<rparr>"

section \<open>The request phase\<close>

definition require_matching_request_id :: "u32 \<Rightarrow> u32 \<Rightarrow> (unit, BspError) result" where
  "require_matching_request_id open_id offered = (if open_id = offered then Ok () else Err RequestIdMismatch)"

definition check_running_total :: "u32 \<Rightarrow> u32 \<Rightarrow> (unit, BspError) result" where
  "check_running_total running_total declared =
     (if running_total > declared then Err PromptChunkExceedsDeclaredLength
      else if running_total > MAX_PROMPT_BYTES then Err PromptChunkExceedsPromptBuffer
      else Ok ())"

definition collecting :: "RequestPhase \<Rightarrow> (u32 \<times> u32 \<times> u32, BspError) result" where
  "collecting p =
     (case p of
        Collecting request_id declared_length accumulated_length \<Rightarrow> Ok (request_id, declared_length, accumulated_length)
      | Idle \<Rightarrow> Err MessageInvalidInState
      | Streaming _ \<Rightarrow> Err MessageInvalidInState)"

definition u32_try_from :: "usize \<Rightarrow> u32 option" where
  "u32_try_from n = (if n < 2 ^ 32 then Some (of_nat n) else None)"

definition admit_begin :: "RequestPhase \<Rightarrow> (unit, BspError) result" where
  "admit_begin p = (if p = Idle then Ok () else Err RequestAlreadyInFlight)"

definition admit_chunk :: "RequestPhase \<Rightarrow> u32 \<Rightarrow> usize \<Rightarrow> (unit, BspError) result" where
  "admit_chunk p request_id chunk_length =
     and_then (collecting p) (\<lambda>(open_id, declared, accumulated).
     and_then (require_matching_request_id open_id request_id) (\<lambda>_.
     and_then (ok_or (u32_try_from chunk_length) OffsetOverflow) (\<lambda>added.
     and_then (ok_or (checked_add accumulated added) PromptChunkExceedsPromptBuffer) (\<lambda>total.
     check_running_total total declared))))"

definition admit_commit :: "RequestPhase \<Rightarrow> u32 \<Rightarrow> (unit, BspError) result" where
  "admit_commit p request_id =
     and_then (collecting p) (\<lambda>(open_id, declared, accumulated).
     and_then (require_matching_request_id open_id request_id) (\<lambda>_.
     if accumulated \<noteq> declared then Err PromptIncomplete else Ok ()))"

definition admit_cancel :: "RequestPhase \<Rightarrow> u32 \<Rightarrow> (unit, BspError) result" where
  "admit_cancel p request_id =
     (case p of
        Collecting open_id _ _ \<Rightarrow> require_matching_request_id open_id request_id
      | Streaming open_id \<Rightarrow> require_matching_request_id open_id request_id
      | Idle \<Rightarrow> Err MessageInvalidInState)"

definition admit :: "RequestPhase \<Rightarrow> ClientRequest \<Rightarrow> (unit, BspError) result" where
  "admit p request =
     (case request of
        InferBegin _ \<Rightarrow> admit_begin p
      | PromptChunk request_id chunk \<Rightarrow> admit_chunk p request_id (length chunk)
      | InferCommit request_id \<Rightarrow> admit_commit p request_id
      | Cancel request_id \<Rightarrow> admit_cancel p request_id
      | Close \<Rightarrow> Ok ())"

definition accumulate :: "RequestPhase \<Rightarrow> usize \<Rightarrow> RequestPhase option" where
  "accumulate p chunk_length =
     (case collecting p of
        Err _ \<Rightarrow> None
      | Ok (request_id, declared_length, accumulated) \<Rightarrow>
        (case u32_try_from chunk_length of
           None \<Rightarrow> None
         | Some added \<Rightarrow>
           (case checked_add accumulated added of
              None \<Rightarrow> None
            | Some new_total \<Rightarrow> Some (Collecting request_id declared_length new_total))))"

definition next_phase :: "RequestPhase \<Rightarrow> ClientRequest \<Rightarrow> RequestPhase option" where
  "next_phase p request =
     (case request of
        InferBegin b \<Rightarrow> Some (Collecting (begin_request_id b) (prompt_total_length b) 0)
      | PromptChunk _ chunk \<Rightarrow> accumulate p (length chunk)
      | InferCommit request_id \<Rightarrow> Some (Streaming request_id)
      | Cancel _ \<Rightarrow> Some Idle
      | Close \<Rightarrow> None)"

section \<open>The session\<close>

definition close_session :: "Session \<Rightarrow> Session" where
  "close_session s = s\<lparr> session_state := Closed, session_type := None, session_request := Idle \<rparr>"

definition deny :: "BspError \<Rightarrow> Session \<Rightarrow> BspError \<times> Session" where
  "deny reason s = (if disposition reason = Drop then (reason, close_session s) else (reason, s))"

definition session_record :: "('a, BspError) result \<Rightarrow> Session \<Rightarrow> ('a, BspError) result \<times> Session" where
  "session_record outcome s =
     (case outcome of
        Ok v \<Rightarrow> (Ok v, s)
      | Err reason \<Rightarrow> (let (e, s') = deny reason s in (Err e, s')))"

definition require_state :: "SessionState \<Rightarrow> BspError \<Rightarrow> Session \<Rightarrow> (unit, BspError) result \<times> Session" where
  "require_state expected reason s =
     (if session_state s = expected then (Ok (), s) else (let (e, s') = deny reason s in (Err e, s')))"

definition require_established :: "Session \<Rightarrow> (unit, BspError) result \<times> Session" where
  "require_established s =
     (case session_state s of
        Established \<Rightarrow> (Ok (), s)
      | Closed \<Rightarrow> (let (e, s') = deny SessionClosed s in (Err e, s'))
      | _ \<Rightarrow> (let (e, s') = deny DataMessageBeforeEstablished s in (Err e, s')))"

definition accept_client_hello :: "bytes \<Rightarrow> Session \<Rightarrow> (ClientHello, BspError) result \<times> Session" where
  "accept_client_hello bs s =
     (case require_state WaitHello HandshakeMessageInWrongState s of
        (Err e, s) \<Rightarrow> (Err e, s)
      | (Ok _, s) \<Rightarrow>
        (case session_record (client_hello_decode bs) s of
           (Err e, s) \<Rightarrow> (Err e, s)
         | (Ok hello, s) \<Rightarrow> (Ok hello, s\<lparr> session_state := WaitClientAuth \<rparr>)))"

definition accept_client_auth :: "bytes \<Rightarrow> Session \<Rightarrow> (ClientAuth, BspError) result \<times> Session" where
  "accept_client_auth bs s =
     (case require_state WaitClientAuth HandshakeMessageInWrongState s of
        (Err e, s) \<Rightarrow> (Err e, s)
      | (Ok _, s) \<Rightarrow>
        (case session_record (client_auth_decode bs) s of
           (Err e, s) \<Rightarrow> (Err e, s)
         | (Ok auth, s) \<Rightarrow> (Ok auth, s\<lparr> session_state := AuthPending \<rparr>)))"

definition establish :: "SessionType \<Rightarrow> Session \<Rightarrow> (unit, BspError) result \<times> Session" where
  "establish t s =
     (case require_state AuthPending EstablishBeforeAuthentication s of
        (Err e, s) \<Rightarrow> (Err e, s)
      | (Ok _, s) \<Rightarrow> (Ok (), s\<lparr> session_type := Some t, session_state := Established \<rparr>))"

definition session_apply :: "ClientRequest \<Rightarrow> Session \<Rightarrow> Session" where
  "session_apply request s =
     (case next_phase (session_request s) request of
        Some phase \<Rightarrow> s\<lparr> session_request := phase \<rparr>
      | None \<Rightarrow> close_session s)"

definition accept_client_request :: "bytes \<Rightarrow> Session \<Rightarrow> (InboundMessage, BspError) result \<times> Session" where
  "accept_client_request payload s =
     (case session_record (client_request_decode payload) s of
        (Err e, s) \<Rightarrow> (Err e, s)
      | (Ok request, s) \<Rightarrow>
        (case session_record (admit (session_request s) request) s of
           (Err e, s) \<Rightarrow> (Err e, s)
         | (Ok _, s) \<Rightarrow> (Ok (ClientMessage request), session_apply request s)))"

definition accept_admin_verb :: "bytes \<Rightarrow> Session \<Rightarrow> (InboundMessage, BspError) result \<times> Session" where
  "accept_admin_verb payload s =
     (case session_record (admin_verb_decode payload) s of
        (Err e, s) \<Rightarrow> (Err e, s)
      | (Ok v, s) \<Rightarrow> (Ok (AdminMessage v), s))"

definition accept_message :: "bytes \<Rightarrow> Session \<Rightarrow> (InboundMessage, BspError) result \<times> Session" where
  "accept_message payload s =
     (case require_established s of
        (Err e, s) \<Rightarrow> (Err e, s)
      | (Ok _, s) \<Rightarrow>
        (case session_type s of
           Some ClientSession \<Rightarrow> accept_client_request payload s
         | Some AdminSession \<Rightarrow> accept_admin_verb payload s
         | None \<Rightarrow> (let (e, s') = deny DataMessageBeforeEstablished s in (Err e, s'))))"

end
