(* ===== verification/Bsp_Claims.thy ===== *)
theory Bsp_Claims
  imports Bsp_Wire Bsp_Records Bsp_Session
begin

text \<open>
  Properties of the serving protocol: what the decoders accept, that records and responses survive the
  round trip, and the discipline of the session state machine over arbitrary runs.
\<close>

section \<open>Records\<close>

lemma padding_for_eq:
  assumes "n \<le> 4096"
  shows "\<exists>p. padding_for n = Ok p \<and> 4 \<le> p \<and> p \<le> 11 \<and> (n + 1 + p) mod 8 = 0"
proof -
  define q where "q = (n + 12) div 8"
  have q: "8 * q \<le> n + 12" "n + 12 < 8 * q + 8" unfolding q_def by simp_all
  have steps: "usize_checked_add n 1 = Some (n + 1)" "usize_checked_add (n + 1) 4 = Some (n + 5)"
    "usize_checked_add (n + 5) 8 = Some (n + 13)" "usize_checked_sub (n + 13) 1 = Some (n + 12)"
    "usize_checked_mul q 8 = Some (8 * q)" "usize_checked_sub (8 * q) n = Some (8 * q - n)"
    "usize_checked_sub (8 * q - n) 1 = Some (8 * q - n - 1)"
    using assms q by (simp_all add: usize_checked_add_def usize_checked_sub_def usize_checked_mul_def usize_max_def)
  have "padding_for n = Ok (8 * q - n - 1)"
    unfolding padding_for_def padding_from_block_count_def PADDING_LENGTH_FIELD_def MIN_RECORD_PADDING_def
      RECORD_PLAINTEXT_BLOCK_def
    by (simp only: steps ok_or_simps and_then_simps flip: q_def)
  moreover have "(n + 1 + (8 * q - n - 1)) mod 8 = 0" using q by simp
  ultimately show ?thesis using q by (intro exI [of _ "8 * q - n - 1"]) auto
qed

lemma encode_record_eq:
  assumes "length payload \<le> 4096" "length payload + 12 \<le> length out" "length out \<le> usize_max"
    "padding_for (length payload) = Ok p" "p \<le> 11"
  shows "encode_record_plaintext payload out =
    (Ok (length payload + 1 + p), [of_nat p] @ payload @ replicate p 0 @ drop (length payload + 1 + p) out)"
proof -
  have "p \<le> usize_max" using assms(5) by (simp add: usize_max_def)
  then have "emits (\<lambda>w. and_write (push_u8 (of_nat p) w) (\<lambda>w. and_write (push_bytes payload w) (write_padding p)))
      ([of_nat p] @ payload @ replicate p 0)"
    by (intro emits_seq emits_padding emits_push)
  then have "and_write (push_u8 (of_nat p) (new_writer out)) (\<lambda>w. and_write (push_bytes payload w) (write_padding p)) =
      (Ok (), appended (new_writer out) ([of_nat p] @ payload @ replicate p 0))"
    using assms(2,3,5) by (simp add: emits_def)
  then show ?thesis
    using assms(1,4,5)
    by (simp add: encode_record_plaintext_def check_payload_bound_def BSP_MAX_RECORD_PLAINTEXT_def writer_finish_def
        add.commute)
qed

lemma decode_record_eq:
  assumes "length payload \<le> 4096" "4 \<le> p" "p \<le> 11" "(length payload + 1 + p) mod 8 = 0"
    and len: "unat n = length payload + 1 + p"
  shows "decode_record_plaintext ([of_nat p] @ payload @ replicate p 0) n = Ok payload"
proof -
  have p: "unat (of_nat p :: u8) = p" using assms(3) by (intro unat_of_nat_small) simp
  have "p + 1 \<le> usize_max" using assms(3) by (simp add: usize_max_def)
  then show ?thesis
    using assms(1-4)
    by (simp add: decode_record_plaintext_def check_plaintext_shape_def len p RECORD_PLAINTEXT_BLOCK_def payload_end_offset_def
        PADDING_LENGTH_FIELD_def MIN_RECORD_PADDING_def usize_checked_add_def usize_checked_sub_def slice_get_def
        check_payload_bound_def BSP_MAX_RECORD_PLAINTEXT_def)
qed

lemma split_data_record_eq:
  assumes "length c = n" "length t = 16" "n \<le> 35000"
  shows "split_data_record (u32_to_be_bytes (of_nat n) @ c @ t @ ys) (of_nat n) =
    Ok \<lparr> record_ciphertext = c, record_tag = t, record_total_length = n + 20 \<rparr>"
proof -
  have "unat (of_nat n :: u32) = n" using assms(3) by (intro unat_of_nat_small) simp
  moreover have "n + 4 \<le> usize_max" "n + 20 \<le> usize_max" using assms(3) by (simp_all add: usize_max_def)
  ultimately show ?thesis
    using assms(1,2)
    by (simp add: split_data_record_def record_length_def split_point_def RECORD_LENGTH_PREFIX_BYTES_def RECORD_TAG_BYTES_def
        usize_checked_add_def slice_get_def add.commute [of 4])
qed

text \<open>The nonces of successive records, until the counter refuses to advance.\<close>

fun record_nonces :: "nat \<Rightarrow> SequenceCounter \<Rightarrow> bytes list" where
  "record_nonces 0 c = []"
| "record_nonces (Suc k) c = sequence_nonce c #
     (case sequence_advance c of (Ok _, c') \<Rightarrow> record_nonces k c' | (Err _, _) \<Rightarrow> [])"

lemma sequence_advance_cases:
  "sequence_advance c = (if sequence_value c = - 1 then (Err SequenceExhausted, c)
     else (Ok (), \<lparr> sequence_value = sequence_value c + 1 \<rparr>)) \<and>
   (sequence_value c \<noteq> - 1 \<longrightarrow> unat (sequence_value c + 1) = unat (sequence_value c) + 1)"
proof (cases "sequence_value c = - 1")
  case False
  then have "unat (sequence_value c) \<noteq> unat (- 1 :: u32)" by (simp only: unat_inj) simp
  then have "unat (sequence_value c) + 1 < 2 ^ 32"
    using unat_less_exp [of "sequence_value c"] by (simp add: unsigned_minus_1_eq_mask mask_eq_exp_minus_1)
  then have "checked_add (sequence_value c) 1 = Some (sequence_value c + 1)" by (simp add: checked_add_def)
  moreover have "\<not> - 1 \<le> sequence_value c" using \<open>unat (sequence_value c) + 1 < 2 ^ 32\<close>
    by (simp add: word_le_nat_alt unsigned_minus_1_eq_mask mask_eq_exp_minus_1)
  ultimately show ?thesis
    using False checked_add_Some [of "sequence_value c" 1] by (simp add: sequence_advance_def MAX_RECORD_SEQ_def)
qed (simp add: sequence_advance_def MAX_RECORD_SEQ_def)

lemma record_nonces_range:
  "b \<in> set (record_nonces k c) \<Longrightarrow> \<exists>v. b = sequence_nonce (sequence_counter_at v) \<and> unat (sequence_value c) \<le> unat v"
proof (induction k arbitrary: c)
  case (Suc k)
  show ?case
  proof (cases "b = sequence_nonce c")
    case True
    then show ?thesis by (cases c) (auto simp: sequence_counter_at_def)
  next
    case False
    then have "sequence_value c \<noteq> - 1" "b \<in> set (record_nonces k \<lparr> sequence_value = sequence_value c + 1 \<rparr>)"
      using Suc.prems sequence_advance_cases [of c] by (auto split: if_splits)
    then show ?thesis using Suc.IH [of "\<lparr> sequence_value = sequence_value c + 1 \<rparr>"] sequence_advance_cases [of c] by force
  qed
qed simp

lemma sequence_nonce_inj: "sequence_nonce a = sequence_nonce b \<Longrightarrow> sequence_value a = sequence_value b"
proof -
  assume "sequence_nonce a = sequence_nonce b"
  then have "(ucast (sequence_value a) :: u64) = ucast (sequence_value b)"
    unfolding sequence_nonce_def by (metis from_to_be_bytes(3))
  then have "unat (ucast (sequence_value a) :: u64) = unat (ucast (sequence_value b) :: u64)" by simp
  then show ?thesis by (simp add: unat_ucast_up)
qed

lemma record_nonces_distinct: "distinct (record_nonces k c)"
proof (induction k arbitrary: c)
  case (Suc k)
  show ?case
  proof (cases "sequence_value c = - 1")
    case False
    let ?c = "\<lparr> sequence_value = sequence_value c + 1 \<rparr>"
    have "sequence_nonce c \<notin> set (record_nonces k ?c)"
    proof
      assume "sequence_nonce c \<in> set (record_nonces k ?c)"
      from record_nonces_range [OF this] obtain v where "sequence_nonce c = sequence_nonce (sequence_counter_at v)"
        "unat (sequence_value c + 1) \<le> unat v" by auto
      then show False using sequence_nonce_inj [of c "sequence_counter_at v"] sequence_advance_cases [of c] False
        by (simp add: sequence_counter_at_def)
    qed
    then show ?thesis using Suc.IH [of ?c] sequence_advance_cases [of c] False by simp
  qed (use sequence_advance_cases [of c] in simp)
qed simp

section \<open>Runs of a session\<close>

datatype session_op = OpHello bytes | OpAuth bytes | OpEstablish SessionType | OpMessage bytes | OpClose

datatype session_out =
    GotHello ClientHello | GotAuth ClientAuth | Granted | Got InboundMessage | Shut | Denied BspError

fun session_step :: "session_op \<Rightarrow> Session \<Rightarrow> session_out \<times> Session" where
  "session_step (OpHello bs) s = (case accept_client_hello bs s of (Ok h, s') \<Rightarrow> (GotHello h, s') | (Err e, s') \<Rightarrow> (Denied e, s'))"
| "session_step (OpAuth bs) s = (case accept_client_auth bs s of (Ok a, s') \<Rightarrow> (GotAuth a, s') | (Err e, s') \<Rightarrow> (Denied e, s'))"
| "session_step (OpEstablish t) s = (case establish t s of (Ok _, s') \<Rightarrow> (Granted, s') | (Err e, s') \<Rightarrow> (Denied e, s'))"
| "session_step (OpMessage p) s = (case accept_message p s of (Ok m, s') \<Rightarrow> (Got m, s') | (Err e, s') \<Rightarrow> (Denied e, s'))"
| "session_step OpClose s = (Shut, close_session s)"

fun session_run :: "session_op list \<Rightarrow> Session \<Rightarrow> session_out list \<times> Session" where
  "session_run [] s = ([], s)"
| "session_run (op # ops) s =
     (let (out, s1) = session_step op s; (outs, s2) = session_run ops s1 in (out # outs, s2))"

text \<open>The session after an admitted request.\<close>

lemma deny_eq: "deny e s = (e, if disposition e = Drop then close_session s else s)"
  by (simp add: deny_def)

lemmas session_ops = accept_client_hello_def accept_client_auth_def establish_def accept_message_def
  accept_client_request_def accept_admin_verb_def require_state_def require_established_def session_record_def deny_eq

lemma drop_errors [simp]:
  "disposition HandshakeMessageInWrongState = Drop" "disposition EstablishBeforeAuthentication = Drop"
  "disposition DataMessageBeforeEstablished = Drop" "disposition SessionClosed = Drop"
  by (simp_all add: disposition_def error_code_def)

lemma session_step_denied:
  assumes "session_step op s = (Denied e, s')"
  shows "s' = (if disposition e = Drop then close_session s else s)"
  using assms
  by (cases op) (auto simp: session_ops split: sum.splits prod.splits if_splits option.splits SessionType.splits SessionState.splits)

lemma close_session_simps [simp]:
  "session_state (close_session s) = Closed" "session_type (close_session s) = None" "session_request (close_session s) = Idle"
  by (simp_all add: close_session_def)

lemma closed_step:
  assumes "session_state s = Closed" "session_step op s = (out, s')"
  shows "session_state s' = Closed \<and> (case op of OpClose \<Rightarrow> out = Shut | _ \<Rightarrow> \<exists>e. out = Denied e \<and> disposition e = Drop)"
  using assms by (cases op) (auto simp: session_ops)

lemma closed_run:
  "session_state s = Closed \<Longrightarrow> session_run ops s = (outs, s') \<Longrightarrow> session_state s' = Closed \<and> (\<forall>out \<in> set outs. out = Shut \<or> (\<exists>e. out = Denied e))"
proof (induction ops arbitrary: s outs s')
  case (Cons op ops)
  obtain out s1 where st: "session_step op s = (out, s1)" by (cases "session_step op s")
  obtain os where r: "session_run ops s1 = (os, s')" "outs = out # os"
    using Cons.prems st by (auto split: prod.splits)
  from closed_step [OF Cons.prems(1) st] have "session_state s1 = Closed" "out = Shut \<or> (\<exists>e. out = Denied e)"
    by (auto split: session_op.splits)
  with Cons.IH [OF _ r(1)] r(2) show ?case by auto
qed simp

text \<open>Handshake decoding fails only with errors that close the session.\<close>

definition drops :: "('a, BspError) result \<Rightarrow> bool" where
  "drops m \<longleftrightarrow> (\<forall>e. m = Err e \<longrightarrow> disposition e = Drop)"

lemma drops_and_then [intro]: "drops m \<Longrightarrow> (\<And>x. drops (f x)) \<Longrightarrow> drops (and_then m f)"
  by (cases m) (auto simp: drops_def)

lemma drops_Ok [intro]: "drops (Ok x)"
  by (simp add: drops_def)

lemma drops_Err: "disposition e = Drop \<Longrightarrow> drops (Err e)"
  by (simp add: drops_def)

lemma drops_prod [intro]: "(\<And>a b. drops (f a b)) \<Longrightarrow> drops (case p of (a, b) \<Rightarrow> f a b)"
  by (cases p) simp

lemma drops_if [intro]: "drops a \<Longrightarrow> drops b \<Longrightarrow> drops (if c then a else b)"
  by simp

lemma drops_reader [intro]: "drops (reader_take n r)" "drops (take_fixed n r)" "drops (take_array n r)" "drops (take_u8 r)"
  "drops (take_u16 r)" "drops (take_u64 r)"
proof -
  show t: "drops (reader_take n r)" for n
    by (auto simp: reader_take_def drops_def disposition_def error_code_def split: option.splits)
  show f: "drops (take_fixed n r)" for n
    unfolding take_fixed_def by (intro drops_and_then t drops_prod drops_if drops_Ok drops_Err)
      (simp add: disposition_def error_code_def)
  then show "drops (take_array n r)" by (simp add: take_array_def)
  show "drops (take_u8 r)"
    unfolding take_u8_def by (intro drops_and_then t) (auto simp: drops_def disposition_def error_code_def split: list.splits)
  show "drops (take_u16 r)" "drops (take_u64 r)"
    unfolding take_u16_def take_u64_def by (intro drops_and_then f drops_prod drops_Ok)+
qed

lemma drops_client_hello: "drops (client_hello_decode bs)"
  unfolding client_hello_decode_def require_exact_length_def check_preamble_def check_magic_def check_versions_def check_reserved_def
    client_hello_decode_body_def
  by (intro drops_and_then drops_prod drops_if drops_Ok drops_reader drops_Err) (simp_all add: disposition_def error_code_def)

lemma drops_client_auth: "drops (client_auth_decode bs)"
  unfolding client_auth_decode_def require_exact_length_def
  by (intro drops_and_then drops_prod drops_if drops_Ok drops_reader drops_Err) (simp_all add: disposition_def error_code_def)

text \<open>Only a client hello leaves the first state, only a client authentication the second, only a grant the third.\<close>

lemma wait_hello_step:
  assumes "session_state s = WaitHello" "session_step op s = (out, s')" "session_state s' \<noteq> Closed"
  shows "\<exists>bs h. op = OpHello bs \<and> out = GotHello h \<and> client_hello_decode bs = Ok h \<and> s' = s\<lparr> session_state := WaitClientAuth \<rparr>"
  using assms drops_client_hello
  by (cases op) (auto simp: session_ops drops_def split: sum.splits if_splits)

lemma wait_auth_step:
  assumes "session_state s = WaitClientAuth" "session_step op s = (out, s')" "session_state s' \<noteq> Closed"
  shows "\<exists>bs a. op = OpAuth bs \<and> out = GotAuth a \<and> client_auth_decode bs = Ok a \<and> s' = s\<lparr> session_state := AuthPending \<rparr>"
  using assms drops_client_auth
  by (cases op) (auto simp: session_ops drops_def split: sum.splits if_splits)

lemma auth_pending_step:
  assumes "session_state s = AuthPending" "session_step op s = (out, s')" "session_state s' \<noteq> Closed"
  shows "\<exists>t. op = OpEstablish t \<and> out = Granted \<and> s' = s\<lparr> session_type := Some t, session_state := Established \<rparr>"
  using assms
  by (cases op) (auto simp: session_ops split: if_splits)

fun of_type :: "SessionType \<Rightarrow> InboundMessage \<Rightarrow> bool" where
  "of_type t (ClientMessage q) \<longleftrightarrow> t = ClientSession"
| "of_type t (AdminMessage v) \<longleftrightarrow> t = AdminSession"

lemma session_run_ConsE:
  assumes "session_run (op # ops) s = (outs, s')"
  obtains out s1 os where "session_step op s = (out, s1)" "session_run ops s1 = (os, s')" "outs = out # os"
  using assms by (auto split: prod.splits)

lemma got_needs_established: "session_step op s = (Got m, s') \<Longrightarrow> session_state s = Established"
  by (cases op) (auto simp: session_ops split: sum.splits prod.splits if_splits SessionState.splits)

lemma established_step:
  assumes "session_state s = Established" "session_type s = Some t" "session_step op s = (out, s')"
  shows "(session_state s' = Closed \<or> session_state s' = Established \<and> session_type s' = Some t \<and> (\<exists>p. op = OpMessage p)) \<and>
    (\<forall>m. out = Got m \<longrightarrow> of_type t m)"
  using assms
  by (cases op; cases t) (auto simp: session_ops session_apply_def split: sum.splits if_splits option.splits)

lemma established_run:
  "session_state s = Established \<Longrightarrow> session_type s = Some t \<Longrightarrow> session_run ops s = (outs, s') \<Longrightarrow> Got m \<in> set outs \<Longrightarrow> of_type t m"
proof (induction ops arbitrary: s outs)
  case (Cons op ops)
  from Cons.prems(3) obtain out s1 os where st: "session_step op s = (out, s1)" "session_run ops s1 = (os, s')" "outs = out # os"
    by (rule session_run_ConsE)
  note e = established_step [OF Cons.prems(1,2) st(1)]
  show ?case
  proof (cases "out = Got m")
    case False
    then have "Got m \<in> set os" using Cons.prems(4) st(3) by auto
    moreover have "session_state s1 \<noteq> Closed"
      using closed_run [OF _ st(2)] calculation by fastforce
    ultimately show ?thesis using Cons.IH [OF _ _ st(2)] e by blast
  qed (use e in blast)
qed simp

text \<open>One handshake step of a run that later accepts a message.\<close>

lemma handshake_step_of_run:
  assumes "session_run ops s = (outs, s')" "Got m \<in> set outs" "session_state s \<noteq> Established"
  obtains op ops1 out s1 os where "ops = op # ops1" "outs = out # os" "session_step op s = (out, s1)" "session_run ops1 s1 = (os, s')"
    "Got m \<in> set os" "session_state s1 \<noteq> Closed"
proof (cases ops)
  case (Cons op ops1)
  obtain out s1 os where st: "session_step op s = (out, s1)" "session_run ops1 s1 = (os, s')" "outs = out # os"
    using assms(1) unfolding Cons by (rule session_run_ConsE)
  have "out \<noteq> Got m" using got_needs_established st(1) assms(3) by blast
  then have "Got m \<in> set os" using assms(2) st(3) by auto
  moreover have "session_state s1 \<noteq> Closed" using closed_run [OF _ st(2)] calculation by fastforce
  ultimately show thesis using that Cons st by blast
qed (use assms in simp)

lemma accepted_message_needs_handshake:
  assumes "session_run ops new_session = (outs, s')" "Got m \<in> set outs"
  shows "\<exists>h a t msgs hello auth os. ops = OpHello h # OpAuth a # OpEstablish t # msgs \<and>
    outs = GotHello hello # GotAuth auth # Granted # os \<and> client_hello_decode h = Ok hello \<and> client_auth_decode a = Ok auth \<and>
    of_type t m"
proof -
  have new: "session_state new_session = WaitHello" "session_state new_session \<noteq> Established"
    by (simp_all add: new_session_def)
  obtain op ops1 out s1 os where
    1: "ops = op # ops1" "outs = out # os" "session_step op new_session = (out, s1)" "session_run ops1 s1 = (os, s')"
      "Got m \<in> set os" "session_state s1 \<noteq> Closed" by (rule handshake_step_of_run [OF assms new(2)])
  from wait_hello_step [OF new(1) 1(3,6)] obtain h hello where
    h: "op = OpHello h" "out = GotHello hello" "client_hello_decode h = Ok hello" "session_state s1 = WaitClientAuth" by auto
  then have "session_state s1 \<noteq> Established" by simp
  obtain op2 ops2 out2 s2 os2 where
    2: "ops1 = op2 # ops2" "os = out2 # os2" "session_step op2 s1 = (out2, s2)" "session_run ops2 s2 = (os2, s')"
      "Got m \<in> set os2" "session_state s2 \<noteq> Closed"
    by (rule handshake_step_of_run [OF 1(4,5) \<open>session_state s1 \<noteq> Established\<close>])
  from wait_auth_step [OF h(4) 2(3,6)] obtain a auth where
    a: "op2 = OpAuth a" "out2 = GotAuth auth" "client_auth_decode a = Ok auth" "session_state s2 = AuthPending" by auto
  then have "session_state s2 \<noteq> Established" by simp
  obtain op3 ops3 out3 s3 os3 where
    3: "ops2 = op3 # ops3" "os2 = out3 # os3" "session_step op3 s2 = (out3, s3)" "session_run ops3 s3 = (os3, s')"
      "Got m \<in> set os3" "session_state s3 \<noteq> Closed"
    by (rule handshake_step_of_run [OF 2(4,5) \<open>session_state s2 \<noteq> Established\<close>])
  from auth_pending_step [OF a(4) 3(3,6)] obtain t where
    t: "op3 = OpEstablish t" "out3 = Granted" "session_state s3 = Established" "session_type s3 = Some t" by auto
  have "of_type t m" by (rule established_run [OF t(3,4) 3(4,5)])
  then show ?thesis using 1 2 3 h a t by auto
qed

section \<open>The request phase over a run\<close>

definition requests_of :: "session_out list \<Rightarrow> ClientRequest list" where
  "requests_of outs = concat (map (\<lambda>out. case out of Got (ClientMessage q) \<Rightarrow> [q] | _ \<Rightarrow> []) outs)"

text \<open>The open request as the accepted messages tell it: a begin followed by its chunks.\<close>

definition prompt_of :: "u32 \<Rightarrow> u32 \<Rightarrow> nat \<Rightarrow> ClientRequest list \<Rightarrow> bool" where
  "prompt_of i d n qs \<longleftrightarrow> (\<exists>pre b chunks. qs = pre @ InferBegin b # map (PromptChunk i) chunks \<and>
     begin_request_id b = i \<and> prompt_total_length b = d \<and> length (concat chunks) = n)"

fun phase_of :: "RequestPhase \<Rightarrow> ClientRequest list \<Rightarrow> bool" where
  "phase_of Idle qs \<longleftrightarrow> True"
| "phase_of (Collecting i d a) qs \<longleftrightarrow> prompt_of i d (unat a) qs \<and> unat a \<le> unat d \<and> unat d \<le> 16384"
| "phase_of (Streaming i) qs \<longleftrightarrow> (\<exists>qs' d. qs = qs' @ [InferCommit i] \<and> prompt_of i d (unat d) qs' \<and> unat d \<le> 16384)"

lemma admit_chunk_Ok:
  assumes "admit_chunk p i n = Ok u"
  shows "\<exists>d a t. p = Collecting i d a \<and> accumulate p n = Some (Collecting i d t) \<and> unat t = unat a + n \<and> unat t \<le> unat d"
proof -
  from assms obtain d a x t where p: "p = Collecting i d a" and x: "u32_try_from n = Some x" and t: "checked_add a x = Some t" "t \<le> d"
    by (cases p) (auto simp: admit_chunk_def collecting_def require_matching_request_id_def check_running_total_def and_then_Inr
        ok_or_def split: if_splits option.splits)
  from x have "unat x = n" by (auto simp: u32_try_from_def unat_of_nat_small split: if_splits)
  then show ?thesis
    using checked_add_Some [OF t(1), THEN conjunct2] t p x by (simp add: accumulate_def collecting_def word_le_nat_alt)
qed

lemma admit_commit_Ok: "admit_commit p i = Ok u \<Longrightarrow> \<exists>d. p = Collecting i d d"
  by (cases p) (auto simp: admit_commit_def collecting_def require_matching_request_id_def and_then_Inr split: if_splits)

lemma phase_next:
  assumes "phase_of p qs" "admit p q = Ok ()" "\<forall>b. q = InferBegin b \<longrightarrow> unat (prompt_total_length b) \<le> 16384"
  shows "phase_of (case next_phase p q of Some p' \<Rightarrow> p' | None \<Rightarrow> Idle) (qs @ [q])"
proof (cases q)
  case (InferBegin b)
  have "prompt_of (begin_request_id b) (prompt_total_length b) 0 (qs @ [q])"
    unfolding prompt_of_def InferBegin by (intro exI [of _ qs] exI [of _ b] exI [of _ "[]"]) simp
  then show ?thesis using InferBegin assms(3) by (simp add: next_phase_def)
next
  case (PromptChunk i c)
  with assms(2) admit_chunk_Ok [of p i "length c"] obtain d a t where p: "p = Collecting i d a"
    "accumulate p (length c) = Some (Collecting i d t)" "unat t = unat a + length c" "unat t \<le> unat d"
    by (auto simp: admit_def)
  from assms(1) p(1) obtain pre b chunks where q: "qs = pre @ InferBegin b # map (PromptChunk i) chunks"
    "begin_request_id b = i" "prompt_total_length b = d" "length (concat chunks) = unat a" "unat d \<le> 16384"
    by (auto simp: prompt_of_def)
  have "prompt_of i d (unat t) (qs @ [q])"
    unfolding prompt_of_def using q p(3) PromptChunk
    by (intro exI [of _ pre] exI [of _ b] exI [of _ "chunks @ [c]"]) simp
  then show ?thesis using p q(5) PromptChunk by (simp add: next_phase_def)
next
  case (InferCommit i)
  with assms(2) admit_commit_Ok [of p i] obtain d where "p = Collecting i d d" by (auto simp: admit_def)
  then show ?thesis using assms(1) InferCommit by (auto simp: next_phase_def)
qed (simp_all add: next_phase_def)

lemma infer_begin_bounded:
  assumes "client_request_decode payload = Ok (InferBegin b)"
  shows "unat (prompt_total_length b) \<le> 16384"
proof -
  from assms obtain body where "infer_begin_decode body = Ok b"
    unfolding client_request_decode_def by (auto simp: and_then_Inr client_request_dispatch_iff)
  then have "prompt_total_length b \<le> 16384"
    unfolding infer_begin_decode_def by (auto simp: and_then_Inr infer_begin_check_limits_def MAX_PROMPT_BYTES_def split: if_splits)
  then show ?thesis by (simp add: word_le_nat_alt)
qed

lemma accept_message_Ok:
  assumes "accept_message p s = (Ok m, s')"
  shows "(\<exists>v. m = AdminMessage v \<and> s' = s) \<or>
    (\<exists>q. m = ClientMessage q \<and> client_request_decode p = Ok q \<and> admit (session_request s) q = Ok () \<and> s' = session_apply q s)"
  using assms by (auto simp: session_ops split: sum.splits if_splits option.splits SessionType.splits SessionState.splits)

lemma requests_of_simps [simp]:
  "requests_of [] = []" "requests_of (Got (ClientMessage q) # outs) = q # requests_of outs"
  "requests_of (Got (AdminMessage v) # outs) = requests_of outs" "requests_of (GotHello h # outs) = requests_of outs"
  "requests_of (GotAuth a # outs) = requests_of outs" "requests_of (Granted # outs) = requests_of outs"
  "requests_of (Shut # outs) = requests_of outs" "requests_of (Denied e # outs) = requests_of outs"
  by (simp_all add: requests_of_def)

lemma quiet_step:
  assumes "session_step op s = (out, s')" "\<forall>m. out \<noteq> Got m"
  shows "session_request s' = session_request s \<or> session_request s' = Idle"
  using assms by (cases op) (auto simp: session_ops split: sum.splits if_splits option.splits SessionType.splits SessionState.splits)

lemma phase_step:
  assumes "phase_of (session_request s) qs" "session_step op s = (out, s')"
  shows "phase_of (session_request s') (qs @ requests_of [out])"
proof (cases "\<exists>m. out = Got m")
  case True
  then obtain m p where m: "out = Got m" "op = OpMessage p" "accept_message p s = (Ok m, s')"
    using assms(2) by (cases op) (auto split: sum.splits prod.splits)
  from accept_message_Ok [OF m(3)] show ?thesis
  proof (elim disjE exE conjE)
    fix q assume q: "m = ClientMessage q" "client_request_decode p = Ok q" "admit (session_request s) q = Ok ()" "s' = session_apply q s"
    have "session_request s' = (case next_phase (session_request s) q of Some p' \<Rightarrow> p' | None \<Rightarrow> Idle)"
      by (simp add: q(4) session_apply_def split: option.splits)
    moreover have "\<forall>b. q = InferBegin b \<longrightarrow> unat (prompt_total_length b) \<le> 16384" using infer_begin_bounded q(2) by blast
    ultimately show ?thesis using phase_next [OF assms(1) q(3)] q(1) m(1) by simp
  qed (use assms m in simp)
next
  case False
  then have "requests_of [out] = []" by (cases out) simp_all
  then show ?thesis using quiet_step [OF assms(2)] False assms(1) by auto
qed

lemma phase_run:
  "phase_of (session_request s) qs \<Longrightarrow> session_run ops s = (outs, s') \<Longrightarrow> phase_of (session_request s') (qs @ requests_of outs)"
proof (induction ops arbitrary: s qs outs)
  case (Cons op ops)
  from Cons.prems(2) obtain out s1 os where st: "session_step op s = (out, s1)" "session_run ops s1 = (os, s')" "outs = out # os"
    by (rule session_run_ConsE)
  have "requests_of outs = requests_of [out] @ requests_of os" using st(3) by (simp add: requests_of_def)
  then show ?case using Cons.IH [OF phase_step [OF Cons.prems(1) st(1)] st(2)] by simp
qed simp

lemma streaming_accepts:
  assumes "session_request s = Streaming i" "accept_message p s = (Ok (ClientMessage q), s')"
  shows "q = Cancel i \<or> q = Close"
proof -
  from accept_message_Ok [OF assms(2)] have "admit (Streaming i) q = Ok ()" using assms(1) by auto
  then show ?thesis
    by (cases q) (auto simp: admit_def admit_begin_def admit_chunk_def admit_commit_def admit_cancel_def collecting_def
        require_matching_request_id_def split: if_splits)
qed

section \<open>A sample run\<close>

definition sample_hello :: ClientHello where
  "sample_hello = \<lparr> chain_counter = 5, client_nonce = replicate 32 1, key_selector = replicate 16 2 \<rparr>"

definition sample_begin :: InferBegin where
  "sample_begin = \<lparr> begin_request_id = 7, max_tokens = 10, temperature = 0, top_p = 0, prompt_total_length = 2 \<rparr>"

definition sample_ops :: "session_op list" where
  "sample_ops = [OpHello (client_hello_bytes sample_hello), OpAuth (replicate 32 0), OpEstablish ClientSession,
     OpMessage (client_request_bytes (InferBegin sample_begin)), OpMessage (client_request_bytes (PromptChunk 7 [1, 2])),
     OpMessage (client_request_bytes (InferCommit 7))]"

lemma sample_run:
  "session_run sample_ops new_session =
     ([GotHello sample_hello, GotAuth \<lparr> client_confirm = replicate 32 0 \<rparr>, Granted,
       Got (ClientMessage (InferBegin sample_begin)), Got (ClientMessage (PromptChunk 7 [1, 2])), Got (ClientMessage (InferCommit 7))],
      \<lparr> session_state = Established, session_type = Some ClientSession, session_request = Streaming 7 \<rparr>)"
proof -
  have d: "client_request_decode (client_request_bytes q) = Ok q" if "client_request_ok q" "length (client_request_bytes q) \<le> 64" for q
    using client_request_decode_iff [of "client_request_bytes q" q] that by (simp add: usize_max_def)
  have "client_request_decode (client_request_bytes (InferBegin sample_begin)) = Ok (InferBegin sample_begin)"
    "client_request_decode (client_request_bytes (PromptChunk 7 [1, 2])) = Ok (PromptChunk 7 [1, 2])"
    "client_request_decode (client_request_bytes (InferCommit 7)) = Ok (InferCommit 7)"
    by (rule d; simp add: sample_begin_def)+
  moreover have "client_hello_decode (client_hello_bytes sample_hello) = Ok sample_hello"
    by (simp add: client_hello_decode_iff client_hello_ok_def sample_hello_def)
  moreover have "client_auth_decode (replicate 32 0) = Ok \<lparr> client_confirm = replicate 32 0 \<rparr>"
    by (simp add: client_auth_decode_def require_exact_length_def LEN_CLIENT_AUTH_def LEN_CONFIRM_def take_array_def take_fixed_def
        reader_take_def new_reader_def usize_checked_add_def usize_max_def slice_get_def)
  ultimately show ?thesis
    by (simp add: sample_ops_def new_session_def session_ops session_apply_def admit_def admit_begin_def next_phase_def
        admit_chunk_def admit_commit_def accumulate_def collecting_def require_matching_request_id_def u32_try_from_def
        checked_add_def check_running_total_def MAX_PROMPT_BYTES_def sample_begin_def del: client_request_bytes.simps)
qed

section \<open>Properties\<close>

text \<open>
  C29. The decoders accept exactly the wire format. A payload decodes to a client request if and only if
  it is that request's encoding and the request is within the protocol's limits, and likewise for
  administration verbs and for the client hello; so decoding is injective, complete on well-formed
  requests, and rejects truncated, over-long and out-of-range messages.
\<close>

theorem decoders_accept_exactly_the_format:
  assumes "length payload \<le> usize_max"
  shows "(client_request_decode payload = Ok q \<longleftrightarrow> client_request_ok q \<and> payload = client_request_bytes q) \<and>
    (admin_verb_decode payload = Ok v \<longleftrightarrow> admin_verb_ok v \<and> payload = admin_verb_bytes v) \<and>
    (client_hello_decode payload = Ok h \<longleftrightarrow> client_hello_ok h \<and> payload = client_hello_bytes h)"
  using client_request_decode_iff [OF assms] admin_verb_decode_iff [OF assms] client_hello_decode_iff by blast

theorem decoders_accept_exactly_the_format_witness:
  "client_request_decode [3, 0, 0, 0, 7] = Ok (InferCommit 7) \<and> admin_verb_decode [3, 0, 0, 0, 7] \<noteq> Ok (Reboot 7)"
proof -
  have "u32_to_be_bytes 7 = [0, 0, 0, 7]" by (simp add: u32_to_be_bytes_def be_bytes_numeral)
  then show ?thesis
    using decoders_accept_exactly_the_format [of "[3, 0, 0, 0, 7]" "InferCommit 7" "Reboot 7" undefined]
    by (simp add: usize_max_def)
qed

text \<open>
  C31. A payload of at most 4096 bytes survives the record layer. Encoding it into a large enough buffer
  writes a block-aligned plaintext and nothing beyond it; a record framed with that length is split
  into its ciphertext and tag again, whatever follows in the stream; and decoding the plaintext
  returns the payload.
\<close>

theorem record_round_trip:
  assumes "length payload \<le> 4096" "length payload + 12 \<le> length out" "length out \<le> usize_max"
  shows "\<exists>n plaintext. encode_record_plaintext payload out = (Ok n, plaintext @ drop n out) \<and>
    length plaintext = n \<and> n mod 8 = 0 \<and> decode_record_plaintext plaintext (of_nat n) = Ok payload \<and>
    packet_length_decode (u32_to_be_bytes (of_nat n)) = Ok (of_nat n) \<and>
    (\<forall>c t ys. length c = n \<and> length t = 16 \<longrightarrow>
       split_data_record (u32_to_be_bytes (of_nat n) @ c @ t @ ys) (of_nat n) =
         Ok \<lparr> record_ciphertext = c, record_tag = t, record_total_length = n + 20 \<rparr>)"
proof -
  from padding_for_eq [OF assms(1)] obtain p where p: "padding_for (length payload) = Ok p" "4 \<le> p" "p \<le> 11"
    "(length payload + 1 + p) mod 8 = 0" by (elim exE conjE) (rule that)
  let ?n = "length payload + 1 + p" and ?t = "[of_nat p] @ payload @ replicate p 0"
  have n: "unat (of_nat ?n :: u32) = ?n" using assms(1) p(3) by (intro unat_of_nat_small) simp
  have b: "2 \<le> ?n" "?n \<le> 35000" using p(2,3) assms(1) by simp_all
  then have "\<not> unat (of_nat ?n :: u32) < unat (2 :: u32)" "\<not> unat (35000 :: u32) < unat (of_nat ?n :: u32)"
    unfolding n by auto
  then have pl: "packet_length_decode (u32_to_be_bytes (of_nat ?n)) = Ok (of_nat ?n)"
    unfolding packet_length_decode_def Let_def from_to_be_bytes MIN_PACKET_LENGTH_def MAX_PACKET_LENGTH_def word_less_nat_alt
    by (simp only: if_False)
  have split: "\<forall>c t ys. length c = ?n \<and> length t = 16 \<longrightarrow> split_data_record (u32_to_be_bytes (of_nat ?n) @ c @ t @ ys) (of_nat ?n) =
      Ok \<lparr> record_ciphertext = c, record_tag = t, record_total_length = ?n + 20 \<rparr>"
    by (intro allI impI split_data_record_eq b(2)) simp_all
  have enc: "encode_record_plaintext payload out = (Ok ?n, ?t @ drop ?n out)"
    using encode_record_eq [OF assms p(1,3)] by (simp only: append_assoc)
  have len: "length ?t = ?n" by simp
  show ?thesis
    by (intro exI [of _ ?n] exI [of _ ?t] conjI)
      (rule enc len p(4) decode_record_eq [OF assms(1) p(2-4) n] pl split)+
qed

theorem record_round_trip_witness:
  "\<exists>n plaintext. encode_record_plaintext [1, 2, 3] (replicate 20 9) = (Ok n, plaintext @ drop n (replicate 20 9)) \<and>
    decode_record_plaintext plaintext (of_nat n) = Ok [1, 2, 3]"
proof -
  have "length [1, 2, 3 :: u8] \<le> 4096" "length [1, 2, 3 :: u8] + 12 \<le> length (replicate 20 (9 :: u8))"
    "length (replicate 20 (9 :: u8)) \<le> usize_max" by (simp_all add: usize_max_def)
  from record_round_trip [OF this] obtain n plaintext where
    "encode_record_plaintext [1, 2, 3] (replicate 20 9) = (Ok n, plaintext @ drop n (replicate 20 9))"
    "decode_record_plaintext plaintext (of_nat n) = Ok [1, 2, 3]" by (elim exE conjE) (rule that)
  then show ?thesis by (intro exI conjI)
qed

text \<open>
  C32. No nonce is used twice under one key: however many records are sent from whatever counter value,
  the nonces are pairwise distinct, because the counter refuses to advance past its last value.
\<close>

theorem record_nonces_never_repeat: "distinct (record_nonces k c)"
  by (rule record_nonces_distinct)

text \<open>
  C28. Messages are accepted only on authenticated sessions and only of the granted type: over any run of
  operations on a fresh session, if a message is accepted then the run began with exactly a
  well-formed client hello, a well-formed client authentication and a grant, and the message is of
  the kind that was granted.
\<close>

theorem messages_need_the_handshake:
  assumes "session_run ops new_session = (outs, s)" "Got m \<in> set outs"
  shows "\<exists>h a t msgs hello auth os. ops = OpHello h # OpAuth a # OpEstablish t # msgs \<and>
    outs = GotHello hello # GotAuth auth # Granted # os \<and> client_hello_decode h = Ok hello \<and> client_auth_decode a = Ok auth \<and>
    (case m of ClientMessage _ \<Rightarrow> t = ClientSession | AdminMessage _ \<Rightarrow> t = AdminSession)"
  using accepted_message_needs_handshake [OF assms] by (cases m) auto

theorem messages_need_the_handshake_witness:
  "\<exists>h a t msgs. sample_ops = OpHello h # OpAuth a # OpEstablish t # msgs \<and> t = ClientSession"
  using messages_need_the_handshake [OF sample_run, of "ClientMessage (InferCommit 7)"] by auto

text \<open>
  A denial moves the machine exactly as its disposition says: an error that drops the connection
  closes the session and discards its type and request, any other error changes nothing; and once
  closed, every operation but close is denied and the session stays closed.
\<close>

lemma denials_follow_their_disposition:
  assumes "session_step op s = (out, s')"
  shows "(\<forall>e. out = Denied e \<longrightarrow> s' = (if disposition e = Drop then close_session s else s)) \<and>
    (session_state s = Closed \<longrightarrow> session_state s' = Closed \<and> (op = OpClose \<or> (\<exists>e. out = Denied e)))"
  using session_step_denied [of op s _ s'] closed_step [OF _ assms] assms by (cases op) auto

text \<open>
  C30. A prompt is committed only when it is complete. Whenever a run leaves a session streaming request i,
  the accepted requests end in a begin of i, chunks of i whose total length is exactly the declared
  length, at most 16384, and the commit of i.
\<close>

theorem committed_prompt_is_complete:
  assumes "session_run ops new_session = (outs, s)" "session_request s = Streaming i"
  shows "\<exists>pre b chunks. requests_of outs = pre @ InferBegin b # map (PromptChunk i) chunks @ [InferCommit i] \<and>
    begin_request_id b = i \<and> length (concat chunks) = unat (prompt_total_length b) \<and> unat (prompt_total_length b) \<le> 16384"
proof -
  have "phase_of (session_request new_session) []" by (simp add: new_session_def)
  from phase_run [OF this assms(1)] assms(2) obtain qs d where "requests_of outs = qs @ [InferCommit i]" "prompt_of i d (unat d) qs"
    "unat d \<le> 16384" by auto
  then show ?thesis unfolding prompt_of_def by auto
qed

theorem committed_prompt_is_complete_witness:
  "\<exists>outs s. session_run sample_ops new_session = (outs, s) \<and>
    (\<exists>pre b chunks. requests_of outs = pre @ InferBegin b # map (PromptChunk 7) chunks @ [InferCommit 7] \<and>
       length (concat chunks) = unat (prompt_total_length b))"
  using committed_prompt_is_complete [OF sample_run, of 7] sample_run by (auto simp del: requests_of_simps)

text \<open>
  C33. A streaming session is left only by a cancel of its request or by closing: no other client request
  is accepted, so after the stream has ended a new request is refused as busy.
\<close>

theorem streaming_is_left_only_by_cancel_or_close:
  assumes "session_request s = Streaming i" "accept_message p s = (Ok (ClientMessage q), s')"
  shows "q = Cancel i \<and> session_request s' = Idle \<or> q = Close \<and> session_state s' = Closed"
  using streaming_accepts [OF assms] accept_message_Ok [OF assms(2)] by (auto simp: session_apply_def next_phase_def)

theorem streaming_is_left_only_by_cancel_or_close_witness:
  "\<exists>s'. accept_message (client_request_bytes (Cancel 7))
      \<lparr> session_state = Established, session_type = Some ClientSession, session_request = Streaming 7 \<rparr> = (Ok (ClientMessage (Cancel 7)), s') \<and>
    session_request s' = Idle"
proof -
  let ?s = "\<lparr> session_state = Established, session_type = Some ClientSession, session_request = Streaming 7 \<rparr>"
  have "client_request_decode (client_request_bytes (Cancel 7)) = Ok (Cancel 7)"
    using client_request_decode_iff [of "client_request_bytes (Cancel 7)" "Cancel 7"] by (simp add: usize_max_def)
  then have "accept_message (client_request_bytes (Cancel 7)) ?s = (Ok (ClientMessage (Cancel 7)), session_apply (Cancel 7) ?s)"
    by (simp add: session_ops admit_def admit_cancel_def require_matching_request_id_def del: client_request_bytes.simps)
  from streaming_is_left_only_by_cancel_or_close [OF _ this] this show ?thesis by simp
qed

end
