(* ===== verification/Device_Isolation.thy ===== *)
theory Device_Isolation
  imports Wire_Bytes
begin

text \<open>
  Device isolation: the DMA windows a driver holds (\<open>src/src/dart/src/lib.rs\<close>), the page
  descriptors of the 64-bit Arm translation tables (\<open>src/src/aarch64-mmu/src/lib.rs\<close>), and the walk
  over the capability list in a PCI configuration space that a device controls
  (\<open>src/src/pcie-config/src/lib.rs\<close>).
\<close>

section \<open>DMA windows\<close>

record DmaWindow =
  base_page :: u64
  pages :: u64
  writable :: bool

datatype WindowError = NotContained

definition dma_deny_all :: DmaWindow where
  "dma_deny_all = \<lparr>base_page = 0, pages = 0, writable = False\<rparr>"

definition dma_granted :: "u64 \<Rightarrow> u64 \<Rightarrow> bool \<Rightarrow> DmaWindow" where
  "dma_granted base n is_writable =
     (if checked_add base n = None then dma_deny_all
      else \<lparr>base_page = base, pages = n, writable = is_writable\<rparr>)"

definition dma_is_empty :: "DmaWindow \<Rightarrow> bool" where
  "dma_is_empty w = (pages w = 0)"

definition dma_end_page :: "DmaWindow \<Rightarrow> u64 option" where
  "dma_end_page w = checked_add (base_page w) (pages w)"

definition dma_contains :: "DmaWindow \<Rightarrow> DmaWindow \<Rightarrow> bool" where
  "dma_contains self other =
     (if dma_is_empty other then True
      else if dma_is_empty self then False
      else case (dma_end_page self, dma_end_page other) of
        (Some self_end, Some other_end) \<Rightarrow>
          base_page self \<le> base_page other \<and> other_end \<le> self_end
      | _ \<Rightarrow> False)"

definition dma_permits_everything_in :: "DmaWindow \<Rightarrow> DmaWindow \<Rightarrow> bool" where
  "dma_permits_everything_in self other =
     (if \<not> dma_contains self other then False
      else if dma_is_empty other then True
      else writable self \<or> \<not> writable other)"

definition dma_narrow :: "DmaWindow \<Rightarrow> u64 \<Rightarrow> u64 \<Rightarrow> (DmaWindow, WindowError) result" where
  "dma_narrow self base n =
     (let requested = \<lparr>base_page = base, pages = n, writable = writable self\<rparr>
      in if \<not> dma_contains self requested then Err NotContained else Ok requested)"

definition dma_drop_write :: "DmaWindow \<Rightarrow> DmaWindow" where
  "dma_drop_write self =
     \<lparr>base_page = base_page self, pages = pages self, writable = False\<rparr>"

definition dma_revoke :: "DmaWindow \<Rightarrow> DmaWindow" where
  "dma_revoke self = dma_deny_all"

text \<open>
  \<open>HeldWindow\<close> and its \<open>IommuWindowHolder\<close> operations. A refused \<open>narrow_window\<close> returns through
  the \<open>?\<close> operator before the assignment.
\<close>

record HeldWindow =
  window :: DmaWindow

definition held_window_new :: HeldWindow where
  "held_window_new = \<lparr>window = dma_deny_all\<rparr>"

definition held_window_holding :: "DmaWindow \<Rightarrow> HeldWindow" where
  "held_window_holding w = \<lparr>window = w\<rparr>"

definition narrow_window :: "HeldWindow \<Rightarrow> u64 \<Rightarrow> u64 \<Rightarrow> HeldWindow \<times> (unit, WindowError) result" where
  "narrow_window h base n =
     (case dma_narrow (window h) base n of
        Inl e \<Rightarrow> (h, Err e)
      | Inr w \<Rightarrow> (h\<lparr>window := w\<rparr>, Ok ()))"

definition drop_write_authority :: "HeldWindow \<Rightarrow> HeldWindow" where
  "drop_write_authority h = h\<lparr>window := dma_drop_write (window h)\<rparr>"

definition revoke_window :: "HeldWindow \<Rightarrow> HeldWindow" where
  "revoke_window h = h\<lparr>window := dma_revoke (window h)\<rparr>"

text \<open>Everything a driver can do with the window it holds, in any order.\<close>

datatype window_request = NarrowWindow u64 u64 | DropWriteAuthority | RevokeWindow

fun window_step :: "HeldWindow \<Rightarrow> window_request \<Rightarrow> HeldWindow" where
  "window_step h (NarrowWindow base n) = fst (narrow_window h base n)"
| "window_step h DropWriteAuthority = drop_write_authority h"
| "window_step h RevokeWindow = revoke_window h"

fun window_run :: "HeldWindow \<Rightarrow> window_request list \<Rightarrow> HeldWindow" where
  "window_run h [] = h"
| "window_run h (r # rs) = window_run (window_step h r) rs"

subsection \<open>The pages of a window\<close>

definition window_pages :: "DmaWindow \<Rightarrow> nat set" where
  "window_pages w = {unat (base_page w) ..< unat (base_page w) + unat (pages w)}"

definition window_writable_pages :: "DmaWindow \<Rightarrow> nat set" where
  "window_writable_pages w = (if writable w then window_pages w else {})"

definition window_fits :: "DmaWindow \<Rightarrow> bool" where
  "window_fits w \<longleftrightarrow> unat (base_page w) + unat (pages w) < 2 ^ 64"

lemma window_pages_empty: "window_pages w = {} \<longleftrightarrow> dma_is_empty w"
  by (simp add: window_pages_def dma_is_empty_def unat_eq_zero)

lemma window_pages_deny_all [simp]: "window_pages dma_deny_all = {}"
  by (simp add: window_pages_def dma_deny_all_def)

lemma window_writable_pages_deny_all [simp]: "window_writable_pages dma_deny_all = {}"
  by (simp add: window_writable_pages_def)

lemma window_fits_granted: "window_fits (dma_granted b n wr)"
  by (auto simp: dma_granted_def window_fits_def dma_deny_all_def checked_add_def)

lemma window_pages_granted:
  "window_pages (dma_granted b n wr) =
     (if unat b + unat n < 2 ^ 64 then {unat b ..< unat b + unat n} else {})"
  by (simp add: dma_granted_def checked_add_def window_pages_def dma_deny_all_def)

lemma dma_end_page_fits:
  "dma_end_page w = (if window_fits w then Some (base_page w + pages w) else None)"
  by (simp add: dma_end_page_def checked_add_def window_fits_def)

lemma dma_contains_iff_subset:
  assumes "window_fits self"
  shows "dma_contains self other \<longleftrightarrow> window_pages other \<subseteq> window_pages self"
proof (cases "dma_is_empty other")
  case True
  then show ?thesis using window_pages_empty [of other] by (simp add: dma_contains_def)
next
  case other: False
  show ?thesis
  proof (cases "dma_is_empty self")
    case True
    with other show ?thesis
      using window_pages_empty [of other] window_pages_empty [of self] by (auto simp: dma_contains_def)
  next
    case self: False
    from other have o: "unat (pages other) > 0" by (simp add: dma_is_empty_def unat_gt_0)
    have sub: "window_pages other \<subseteq> window_pages self \<longleftrightarrow>
        unat (base_page self) \<le> unat (base_page other) \<and>
        unat (base_page other) + unat (pages other) \<le> unat (base_page self) + unat (pages self)"
      using o by (simp add: window_pages_def)
    show ?thesis
    proof (cases "window_fits other")
      case True
      with assms show ?thesis using self other
        by (simp add: dma_contains_def dma_end_page_fits sub word_le_nat_alt unat_add_fits window_fits_def)
    next
      case False
      with assms show ?thesis using self other
        by (simp add: dma_contains_def dma_end_page_fits sub) (simp add: window_fits_def)
    qed
  qed
qed

lemma dma_permits_iff_subset:
  assumes "window_fits self"
  shows "dma_permits_everything_in self other \<longleftrightarrow>
    window_pages other \<subseteq> window_pages self \<and> window_writable_pages other \<subseteq> window_writable_pages self"
  using window_pages_empty [of other]
  by (auto simp: dma_permits_everything_in_def dma_contains_iff_subset [OF assms] window_writable_pages_def)

lemma window_fits_subset:
  assumes "window_fits self" and "window_pages other \<subseteq> window_pages self" and "\<not> dma_is_empty other"
  shows "window_fits other"
  using assms by (auto simp: window_fits_def window_pages_def dma_is_empty_def unat_eq_zero unat_gt_0)

lemma window_fits_empty: "dma_is_empty w \<Longrightarrow> window_fits w"
  using unsigned_less [of "base_page w"] by (simp add: dma_is_empty_def window_fits_def)

lemma window_step_shrinks:
  assumes "window_fits (window h)"
  shows "window_fits (window (window_step h r)) \<and>
    window_pages (window (window_step h r)) \<subseteq> window_pages (window h) \<and>
    window_writable_pages (window (window_step h r)) \<subseteq> window_writable_pages (window h)"
proof (cases r)
  case (NarrowWindow b n)
  define q where "q = \<lparr>base_page = b, pages = n, writable = writable (window h)\<rparr>"
  show ?thesis
  proof (cases "dma_contains (window h) q")
    case True
    then have "window_pages q \<subseteq> window_pages (window h)"
      by (simp add: dma_contains_iff_subset [OF assms])
    moreover from this have "window_fits q"
      using window_fits_subset [OF assms] window_fits_empty by blast
    moreover have "window (window_step h r) = q"
      using True by (simp add: NarrowWindow narrow_window_def dma_narrow_def q_def)
    ultimately show ?thesis by (auto simp: window_writable_pages_def q_def)
  next
    case False
    then show ?thesis using assms by (simp add: NarrowWindow narrow_window_def dma_narrow_def q_def)
  qed
next
  case DropWriteAuthority
  then show ?thesis using assms
    by (simp add: drop_write_authority_def dma_drop_write_def window_fits_def window_pages_def
        window_writable_pages_def)
next
  case RevokeWindow
  then show ?thesis
    by (simp add: revoke_window_def dma_revoke_def) (simp add: window_fits_def dma_deny_all_def)
qed

lemma window_run_shrinks:
  "window_fits (window h) \<Longrightarrow>
    window_fits (window (window_run h rs)) \<and>
    window_pages (window (window_run h rs)) \<subseteq> window_pages (window h) \<and>
    window_writable_pages (window (window_run h rs)) \<subseteq> window_writable_pages (window h)"
proof (induction rs arbitrary: h)
  case (Cons r rs)
  note s = window_step_shrinks [OF Cons.prems, of r]
  from Cons.IH [OF s [THEN conjunct1]] s show ?case by (auto simp del: window_step.simps)
qed simp

lemma window_run_after_revoke: "window_pages (window (window_run (revoke_window h) rs)) = {}"
proof -
  have "window_fits (window (revoke_window h))"
    by (simp add: revoke_window_def dma_revoke_def window_fits_def dma_deny_all_def)
  from window_run_shrinks [OF this, of rs] show ?thesis by (simp add: revoke_window_def dma_revoke_def)
qed

lemma window_run_append: "window_run h (rs @ qs) = window_run (window_run h rs) qs"
  by (induction rs arbitrary: h) auto

lemma narrow_window_exact:
  assumes "window_fits (window h)"
  shows "narrow_window h b n =
    (if {unat b ..< unat b + unat n} \<subseteq> window_pages (window h)
     then (h\<lparr>window := \<lparr>base_page = b, pages = n, writable = writable (window h)\<rparr>\<rparr>, Ok ())
     else (h, Err NotContained))"
  by (simp add: narrow_window_def dma_narrow_def dma_contains_iff_subset [OF assms])
    (simp add: window_pages_def)

section \<open>Page descriptors\<close>

datatype Granule = Small | Medium | Large

fun granule_bytes :: "Granule \<Rightarrow> u64" where
  "granule_bytes Small = 4096"
| "granule_bytes Medium = 16384"
| "granule_bytes Large = 65536"

definition granule_is_aligned :: "Granule \<Rightarrow> u64 \<Rightarrow> bool" where
  "granule_is_aligned g address = (address mod granule_bytes g = 0)"

datatype Permission = ReadOnlyExecute | ReadWriteNoExecute | ReadOnlyNoExecute

fun permission_is_writable :: "Permission \<Rightarrow> bool" where
  "permission_is_writable ReadWriteNoExecute = True"
| "permission_is_writable _ = False"

fun permission_is_executable :: "Permission \<Rightarrow> bool" where
  "permission_is_executable ReadOnlyExecute = True"
| "permission_is_executable _ = False"

datatype Level = Kernel | User

definition DESCRIPTOR_PAGE :: u64 where "DESCRIPTOR_PAGE = 3"
definition ACCESS_FLAG :: u64 where "ACCESS_FLAG = push_bit 10 1"
definition AP_READ_WRITE_ALL :: u64 where "AP_READ_WRITE_ALL = push_bit 6 1"
definition AP_READ_ONLY_ALL :: u64 where "AP_READ_ONLY_ALL = push_bit 6 3"
definition AP_READ_WRITE_KERNEL :: u64 where "AP_READ_WRITE_KERNEL = push_bit 6 0"
definition AP_READ_ONLY_KERNEL :: u64 where "AP_READ_ONLY_KERNEL = push_bit 6 2"
definition PXN :: u64 where "PXN = push_bit 53 1"
definition UXN :: u64 where "UXN = push_bit 54 1"
definition OUTPUT_ADDRESS_MASK :: u64 where "OUTPUT_ADDRESS_MASK = 0x0000FFFFFFFFF000"

lemmas descriptor_bit_defs = DESCRIPTOR_PAGE_def ACCESS_FLAG_def AP_READ_WRITE_ALL_def
  AP_READ_ONLY_ALL_def AP_READ_WRITE_KERNEL_def AP_READ_ONLY_KERNEL_def PXN_def UXN_def
  OUTPUT_ADDRESS_MASK_def

record Descriptor =
  bits :: u64
  permission :: Permission
  granule :: Granule

datatype DescriptorError = Misaligned | AddressTooLarge

definition descriptor_access :: "Permission \<Rightarrow> Level \<Rightarrow> u64" where
  "descriptor_access perm level =
     (case (perm, level) of
        (ReadWriteNoExecute, User) \<Rightarrow> AP_READ_WRITE_ALL
      | (ReadWriteNoExecute, Kernel) \<Rightarrow> AP_READ_WRITE_KERNEL
      | (_, User) \<Rightarrow> AP_READ_ONLY_ALL
      | (_, Kernel) \<Rightarrow> AP_READ_ONLY_KERNEL)"

definition descriptor_execute_never :: "Permission \<Rightarrow> Level \<Rightarrow> u64" where
  "descriptor_execute_never perm level =
     (case perm of
        ReadOnlyExecute \<Rightarrow> (case level of Kernel \<Rightarrow> UXN | User \<Rightarrow> PXN)
      | _ \<Rightarrow> UXN OR PXN)"

definition descriptor_page ::
  "u64 \<Rightarrow> Permission \<Rightarrow> Level \<Rightarrow> Granule \<Rightarrow> (Descriptor, DescriptorError) result" where
  "descriptor_page output_address perm level g =
     (if \<not> granule_is_aligned g output_address then Err Misaligned
      else if output_address AND NOT OUTPUT_ADDRESS_MASK \<noteq> 0 then Err AddressTooLarge
      else Ok \<lparr>bits = output_address OR descriptor_access perm level OR
                descriptor_execute_never perm level OR ACCESS_FLAG OR DESCRIPTOR_PAGE,
              permission = perm, granule = g\<rparr>)"

definition descriptor_output_address :: "Descriptor \<Rightarrow> u64" where
  "descriptor_output_address d = bits d AND OUTPUT_ADDRESS_MASK"

definition bits_permit_write :: "Descriptor \<Rightarrow> bool" where
  "bits_permit_write d =
     (let access = bits d AND push_bit 6 3
      in access = AP_READ_WRITE_ALL \<or> access = AP_READ_WRITE_KERNEL)"

definition bits_permit_execute :: "Descriptor \<Rightarrow> bool" where
  "bits_permit_execute d = (bits d AND UXN = 0 \<or> bits d AND PXN = 0)"

definition violates_write_xor_execute :: "Descriptor \<Rightarrow> bool" where
  "violates_write_xor_execute d = (bits_permit_write d \<and> bits_permit_execute d)"

subsection \<open>The bits of a descriptor\<close>

lemma output_address_mask_bits: "OUTPUT_ADDRESS_MASK = mask 48 AND NOT (mask 12)"
  by (simp add: OUTPUT_ADDRESS_MASK_def mask_eq_exp_minus_1)

lemma granule_aligned_page:
  assumes "granule_is_aligned g a"
  shows "a AND mask 12 = 0"
proof -
  have "4096 dvd unat (granule_bytes g)" by (cases g) simp_all
  moreover have "unat (granule_bytes g) dvd unat a"
    using assms by (simp add: granule_is_aligned_def unat_mod [symmetric] dvd_eq_mod_eq_0 flip: unat_eq_zero)
  ultimately have "4096 dvd unat a" by (rule dvd_trans)
  then have "unat (take_bit 12 a) = 0"
    by (simp add: take_bit_eq_mod unat_mod)
  then show ?thesis by (simp add: take_bit_eq_mask unat_eq_zero)
qed

lemma address_within_mask:
  assumes "a AND mask 12 = 0"
  shows "a AND NOT OUTPUT_ADDRESS_MASK = 0 \<longleftrightarrow> a < 2 ^ 48"
proof -
  have "a AND NOT OUTPUT_ADDRESS_MASK = (a AND NOT (mask 48)) OR (a AND mask 12)"
    by (simp add: output_address_mask_bits bit.conj_disj_distrib)
  also have "\<dots> = a AND NOT (mask 48)" using assms by simp
  finally have "a AND NOT OUTPUT_ADDRESS_MASK = 0 \<longleftrightarrow> a AND NOT (mask 48) = 0" by simp
  also have "\<dots> \<longleftrightarrow> take_bit 48 a = a"
    by (auto simp: take_bit_eq_mask bit_eq_iff bit_and_iff bit_not_iff)
  also have "\<dots> \<longleftrightarrow> unat (take_bit 48 a) = unat a" by simp
  also have "\<dots> \<longleftrightarrow> a < 2 ^ 48"
    by (simp add: unsigned_take_bit_eq take_bit_nat_eq_self_iff word_less_nat_alt)
  finally show ?thesis .
qed

lemma and_outside_mask:
  assumes "a AND NOT OUTPUT_ADDRESS_MASK = 0" and "m AND OUTPUT_ADDRESS_MASK = 0"
  shows "(a OR k) AND m = k AND m"
proof -
  have "a AND m = 0"
  proof (rule bit_word_eqI)
    fix n assume "n < LENGTH(64)"
    then show "bit (a AND m) n = bit (0 :: u64) n"
      using assms by (auto simp: bit_eq_iff bit_and_iff bit_not_iff)
  qed
  then show ?thesis by (simp add: bit.conj_disj_distrib2)
qed

lemmas descriptor_field_defs = descriptor_access_def descriptor_execute_never_def descriptor_bit_defs

lemma descriptor_fields:
  assumes "descriptor_page a perm level g = Inr d"
  shows "descriptor_output_address d = a"
    and "bits_permit_write d = permission_is_writable perm"
    and "bits d AND PXN = 0 \<longleftrightarrow> permission_is_executable perm \<and> level = Kernel"
    and "bits d AND UXN = 0 \<longleftrightarrow> permission_is_executable perm \<and> level = User"
proof -
  from assms have a: "a AND NOT OUTPUT_ADDRESS_MASK = 0"
    and b: "bits d = a OR (descriptor_access perm level OR
                descriptor_execute_never perm level OR ACCESS_FLAG OR DESCRIPTOR_PAGE)"
    by (auto simp: descriptor_page_def or.assoc split: if_splits)
  have "a AND OUTPUT_ADDRESS_MASK = a"
  proof (rule bit_word_eqI)
    fix n assume "n < LENGTH(64)"
    then show "bit (a AND OUTPUT_ADDRESS_MASK) n = bit a n"
      using a by (auto simp: bit_eq_iff bit_and_iff bit_not_iff)
  qed
  then show "descriptor_output_address d = a"
    by (cases perm; cases level)
      (simp_all add: descriptor_output_address_def b bit.conj_disj_distrib2 descriptor_field_defs)
  note out = and_outside_mask [OF a]
  have "bits d AND push_bit 6 3 = descriptor_access perm level"
    unfolding b by (subst out) (cases perm; cases level; simp add: descriptor_field_defs)+
  then show "bits_permit_write d = permission_is_writable perm"
    by (cases perm; cases level) (simp_all add: bits_permit_write_def descriptor_field_defs)
  show "bits d AND PXN = 0 \<longleftrightarrow> permission_is_executable perm \<and> level = Kernel"
    unfolding b by (subst out) (cases perm; cases level; simp add: descriptor_field_defs)+
  show "bits d AND UXN = 0 \<longleftrightarrow> permission_is_executable perm \<and> level = User"
    unfolding b by (subst out) (cases perm; cases level; simp add: descriptor_field_defs)+
qed

lemma descriptor_page_cases:
  "descriptor_page a perm level g = Inl e \<longleftrightarrow>
     (e = Misaligned \<and> \<not> granule_is_aligned g a) \<or>
     (e = AddressTooLarge \<and> granule_is_aligned g a \<and> 2 ^ 48 \<le> a)"
  using address_within_mask [OF granule_aligned_page [of g a]]
  by (auto simp: descriptor_page_def linorder_not_less)

end
