(* ===== verification/Pcie_Config.thy ===== *)
theory Pcie_Config
  imports Wire_Bytes
begin

text \<open>
  The walk over the capability list of a PCI configuration space
  (\<open>src/src/pcie-config/src/lib.rs\<close>). The bytes come from a device, so the list may be cyclic, leave
  the space or point into the header; the walk answers every such list with an error. The caller's
  output slice is the list \<open>out\<close>, returned beside the result.
\<close>

section \<open>The walk\<close>

definition CONFIG_SPACE_LEN :: usize where "CONFIG_SPACE_LEN = 256"
definition HEADER_LEN :: u8 where "HEADER_LEN = 0x40"
definition CAPABILITIES_POINTER :: usize where "CAPABILITIES_POINTER = 0x34"
definition STATUS_CAPABILITIES_BIT :: u16 where "STATUS_CAPABILITIES_BIT = push_bit 4 1"
definition MAX_CAPABILITIES :: usize where "MAX_CAPABILITIES = 96"

lemmas pcie_constants = CONFIG_SPACE_LEN_def HEADER_LEN_def CAPABILITIES_POINTER_def
  STATUS_CAPABILITIES_BIT_def MAX_CAPABILITIES_def

record PcieCapability =
  id :: u8
  offset :: u8

datatype WalkError = Cycle | OutOfRange | Misaligned | TooManyCapabilities | ShortConfigSpace

type_synonym walk_outcome = "PcieCapability list \<times> (usize, WalkError) result"

text \<open>\<open>if let Some(slot) = out.get_mut(found)\<close>: an entry beyond the caller's slice is counted only.\<close>

definition store_capability :: "PcieCapability list \<Rightarrow> usize \<Rightarrow> PcieCapability \<Rightarrow> PcieCapability list" where
  "store_capability out found c = (if found < length out then out[found := c] else out)"

text \<open>The body of the \<open>while offset != 0\<close> loop; it ends because \<open>found\<close> grows up to the bound.\<close>

function capability_walk_loop ::
  "bytes \<Rightarrow> bool list \<Rightarrow> u8 \<Rightarrow> usize \<Rightarrow> PcieCapability list \<Rightarrow> walk_outcome" where
  "capability_walk_loop config_space visited off found out =
     (if off = 0 then (out, Ok found)
      else if MAX_CAPABILITIES \<le> found then (out, Err TooManyCapabilities)
      else if off < HEADER_LEN then (out, Err OutOfRange)
      else if unat off mod 4 \<noteq> 0 then (out, Err Misaligned)
      else case usize_checked_add (unat off) 1 of
        None \<Rightarrow> (out, Err OutOfRange)
      | Some next_at \<Rightarrow>
          if CONFIG_SPACE_LEN \<le> next_at then (out, Err OutOfRange)
          else case array_get visited (unat off) of
            None \<Rightarrow> (out, Err OutOfRange)
          | Some True \<Rightarrow> (out, Err Cycle)
          | Some False \<Rightarrow>
              (case array_get config_space (unat off) of
                 None \<Rightarrow> (out, Err OutOfRange)
               | Some cap_id \<Rightarrow>
                   let out' = store_capability out found \<lparr>id = cap_id, offset = off\<rparr>
                   in case array_get config_space next_at of
                        None \<Rightarrow> (out', Err OutOfRange)
                      | Some next_offset \<Rightarrow>
                          capability_walk_loop config_space (visited[unat off := True]) next_offset
                            (usize_saturating_add found 1) out'))"
  by pat_completeness auto
termination
proof (relation "measure (\<lambda>(_, _, _, found, _). MAX_CAPABILITIES - found)")
  fix off :: u8 and found next_at :: nat and cap_id next_offset :: u8
    and out out' :: "PcieCapability list" and cs visited
  assume "\<not> MAX_CAPABILITIES \<le> found"
  then have "found < usize_saturating_add found 1" "found < MAX_CAPABILITIES"
    by (simp_all add: usize_saturating_add_def usize_max_def pcie_constants)
  then show "((cs, visited[unat off := True], next_offset, usize_saturating_add found 1, out'),
      cs, visited, off, found, out) \<in> measure (\<lambda>(_, _, _, found, _). MAX_CAPABILITIES - found)"
    by simp
qed simp

declare capability_walk_loop.simps [simp del]

definition walk :: "bytes \<Rightarrow> PcieCapability list \<Rightarrow> walk_outcome" where
  "walk config_space out =
     (if length config_space \<noteq> CONFIG_SPACE_LEN then (out, Err ShortConfigSpace)
      else case (array_get config_space 6, array_get config_space 7) of
        (Some lo, Some hi) \<Rightarrow>
          (if u16_from_le_bytes [lo, hi] AND STATUS_CAPABILITIES_BIT = 0 then (out, Ok 0)
           else case array_get config_space CAPABILITIES_POINTER of
             None \<Rightarrow> (out, Err ShortConfigSpace)
           | Some first \<Rightarrow>
               capability_walk_loop config_space (replicate CONFIG_SPACE_LEN False) first 0 out)
      | _ \<Rightarrow> (out, Err ShortConfigSpace))"

section \<open>What a capability list is\<close>

text \<open>
  An entry sits past the header at a multiple of four. A path follows the next pointers from one
  offset over the listed entries to the offset where it stands after them.
\<close>

definition capability_entry :: "u8 \<Rightarrow> bool" where
  "capability_entry off \<longleftrightarrow> 0x40 \<le> off \<and> unat off mod 4 = 0"

fun capability_path :: "bytes \<Rightarrow> u8 \<Rightarrow> u8 list \<Rightarrow> u8 \<Rightarrow> bool" where
  "capability_path cs off [] last_off \<longleftrightarrow> off = last_off"
| "capability_path cs off (e # es) last_off \<longleftrightarrow>
     e = off \<and> capability_entry off \<and> capability_path cs (cs ! (unat off + 1)) es last_off"

definition walk_verdict :: "u8 list \<Rightarrow> u8 \<Rightarrow> (usize, WalkError) result" where
  "walk_verdict entries last_off =
     (if last_off = 0 then Ok (length entries)
      else if last_off < 0x40 then Err OutOfRange
      else if unat last_off mod 4 \<noteq> 0 then Err Misaligned
      else Err Cycle)"

definition capability_at :: "bytes \<Rightarrow> u8 \<Rightarrow> PcieCapability" where
  "capability_at cs off = \<lparr>id = cs ! unat off, offset = off\<rparr>"

section \<open>The walk finds the list\<close>

lemma capability_entries_bound:
  assumes "distinct es" and "\<forall>e \<in> set es. capability_entry e"
  shows "length es \<le> 48"
proof -
  have "set es \<subseteq> (\<lambda>k. of_nat (4 * k)) ` {16 ..< 64}"
  proof
    fix e assume "e \<in> set es"
    with assms(2) have e: "64 \<le> unat e" "unat e mod 4 = 0"
      by (auto simp: capability_entry_def word_le_nat_alt)
    then have "unat e div 4 \<in> {16 ..< 64}" using unat_u8_less [of e] by auto
    moreover have "e = of_nat (4 * (unat e div 4))"
      using e(2) by (simp add: mult_div_mod_eq [symmetric] dvd_mult_div_cancel mod_eq_0_iff_dvd)
    ultimately show "e \<in> (\<lambda>k. of_nat (4 * k)) ` {16 ..< 64}" by blast
  qed
  then have "card (set es) \<le> card ((\<lambda>k. of_nat (4 * k) :: u8) ` {16 ..< 64})"
    by (intro card_mono) auto
  also have "\<dots> \<le> card {16 ..< 64 :: nat}" by (rule card_image_le) simp
  finally show ?thesis using assms(1) by (simp add: distinct_card)
qed

text \<open>The loop with its invariant: \<open>seen\<close> lists the entries visited so far, in order.\<close>

lemma capability_walk_loop_finds:
  assumes "length cs = 256" and "length visited = 256"
    and "\<forall>i < 256. visited ! i \<longleftrightarrow> (\<exists>e \<in> set seen. unat e = i)"
    and "distinct seen" and "\<forall>e \<in> set seen. capability_entry e"
  shows "\<exists>es last_off. capability_path cs off es last_off \<and> distinct (seen @ es) \<and>
    (\<forall>e \<in> set es. capability_entry e) \<and>
    (capability_entry last_off \<longrightarrow> last_off \<in> set (seen @ es)) \<and>
    snd (capability_walk_loop cs visited off (length seen) out) = walk_verdict (seen @ es) last_off \<and>
    length (fst (capability_walk_loop cs visited off (length seen) out)) = length out \<and>
    (\<forall>i < length out. fst (capability_walk_loop cs visited off (length seen) out) ! i =
      (if length seen \<le> i \<and> i < length (seen @ es) then capability_at cs ((seen @ es) ! i) else out ! i))"
  using assms
proof (induction "48 - length seen" arbitrary: visited off seen out rule: less_induct)
  case less
  note bound = capability_entries_bound [OF less.prems(4,5)]
  show ?case
  proof (cases "capability_entry off \<and> off \<notin> set seen")
    case False
    then have "capability_walk_loop cs visited off (length seen) out = (out, walk_verdict seen off)"
      using bound less.prems(2,3) unat_u8_less [of off]
      by (subst capability_walk_loop.simps)
        (auto simp: walk_verdict_def capability_entry_def pcie_constants usize_checked_add_def usize_max_def
          array_get_def linorder_not_less split: bool.splits)
    with False less.prems(4) show ?thesis by (intro exI [of _ "[]"] exI [of _ off]) auto
  next
    case True
    define seen' where "seen' = seen @ [off]"
    define visited' where "visited' = visited[unat off := True]"
    define out' where "out' = store_capability out (length seen) (capability_at cs off)"
    define next_off where "next_off = cs ! (unat off + 1)"
    have d: "distinct seen'" "\<forall>e \<in> set seen'. capability_entry e"
      using True less.prems(4,5) by (auto simp: seen'_def)
    then have "length seen' \<le> 48" by (rule capability_entries_bound)
    then have dec: "48 - length seen' < 48 - length seen" by (simp add: seen'_def)
    have off: "off \<noteq> 0" "\<not> off < 64" "unat off mod 4 = 0" "unat off \<le> 252"
      using True unat_u8_less [of off] by (auto simp: capability_entry_def linorder_not_less)
    have fresh: "\<not> visited ! unat off"
      using True less.prems(3) unat_u8_less [of off] by auto
    have step: "capability_walk_loop cs visited off (length seen) out =
        capability_walk_loop cs visited' next_off (length seen') out'"
      using off fresh bound less.prems(1,2)
      by (subst capability_walk_loop.simps)
        (simp add: pcie_constants usize_checked_add_def usize_max_def array_get_def Let_def
          seen'_def visited'_def out'_def next_off_def capability_at_def)
    have v: "\<forall>i < 256. visited' ! i \<longleftrightarrow> (\<exists>e \<in> set seen'. unat e = i)"
    proof (intro allI impI)
      fix i :: nat assume i: "i < 256"
      then have "visited' ! i \<longleftrightarrow> unat off = i \<or> visited ! i"
        using less.prems(2) unat_u8_less [of off] by (auto simp: visited'_def nth_list_update)
      with i less.prems(3) show "visited' ! i \<longleftrightarrow> (\<exists>e \<in> set seen'. unat e = i)"
        by (auto simp: seen'_def)
    qed
    have lv: "length visited' = 256" using less.prems(2) by (simp add: visited'_def)
    from less.hyps [OF dec less.prems(1) lv v d, of next_off out']
    obtain es last_off where es: "capability_path cs next_off es last_off" "distinct (seen' @ es)"
      "\<forall>e \<in> set es. capability_entry e" "capability_entry last_off \<longrightarrow> last_off \<in> set (seen' @ es)"
      "snd (capability_walk_loop cs visited' next_off (length seen') out') = walk_verdict (seen' @ es) last_off"
      "length (fst (capability_walk_loop cs visited' next_off (length seen') out')) = length out'"
      "\<forall>i < length out'. fst (capability_walk_loop cs visited' next_off (length seen') out') ! i =
        (if length seen' \<le> i \<and> i < length (seen' @ es) then capability_at cs ((seen' @ es) ! i) else out' ! i)"
      by (elim exE conjE) (rule that)
    have "\<forall>i < length out. (if length seen' \<le> i \<and> i < length (seen' @ es)
        then capability_at cs ((seen' @ es) ! i) else out' ! i) =
      (if length seen \<le> i \<and> i < length (seen @ off # es)
        then capability_at cs ((seen @ off # es) ! i) else out ! i)"
      by (auto simp: seen'_def out'_def store_capability_def nth_list_update nth_append not_less_less_Suc_eq)
    moreover have "length out' = length out" by (simp add: out'_def store_capability_def)
    ultimately show ?thesis
      using es True unfolding step
      by (intro exI [of _ "off # es"] exI [of _ last_off]) (auto simp: seen'_def next_off_def)
  qed
qed

lemma u16_status_bit: "u16_from_le_bytes [lo, hi] AND STATUS_CAPABILITIES_BIT = 0 \<longleftrightarrow> \<not> bit lo 4"
proof -
  have "u16_from_le_bytes [lo, hi] = of_nat (unat hi * 256 + unat lo)"
    using be_value_snoc(2) [of "[]" hi] be_value_snoc(2) [of "[hi]" lo]
    by (simp add: u16_from_le_bytes_def del: of_nat_add of_nat_mult)
  then have "bit (u16_from_le_bytes [lo, hi]) 4 \<longleftrightarrow> bit (unat hi * 256 + unat lo) 4"
    by (simp only: bit_of_nat_iff) simp
  also have "\<dots> \<longleftrightarrow> odd ((unat hi * 256 + unat lo) div 16)" by (simp add: bit_iff_odd)
  also have "(unat hi * 256 + unat lo) div 16 = unat hi * 16 + unat lo div 16" by simp
  also have "odd (unat hi * 16 + unat lo div 16) \<longleftrightarrow> bit (unat lo) 4" by (simp add: bit_iff_odd)
  also have "\<dots> \<longleftrightarrow> bit lo 4" by (simp add: bit_unsigned_iff)
  finally have b: "bit (u16_from_le_bytes [lo, hi]) 4 \<longleftrightarrow> bit lo 4" .
  have "w AND 16 = 0 \<longleftrightarrow> \<not> bit w 4" for w :: u16
    using and_exp_eq_0_iff_not_bit [of w 4] by simp
  then show ?thesis using b by (simp add: pcie_constants)
qed

lemma walk_finds:
  assumes "length cs = 256" and "bit (cs ! 6) 4"
  shows "\<exists>es last_off. capability_path cs (cs ! 0x34) es last_off \<and> distinct es \<and> length es \<le> 48 \<and>
    (capability_entry last_off \<longrightarrow> last_off \<in> set es) \<and>
    snd (walk cs out) = walk_verdict es last_off \<and>
    length (fst (walk cs out)) = length out \<and>
    (\<forall>i < length out. fst (walk cs out) ! i = (if i < length es then capability_at cs (es ! i) else out ! i))"
proof -
  have w: "walk cs out = capability_walk_loop cs (replicate 256 False) (cs ! 0x34) (length ([] :: u8 list)) out"
    using assms by (simp add: walk_def array_get_def u16_status_bit) (simp add: pcie_constants)
  have v: "\<forall>i < 256. replicate 256 False ! i \<longleftrightarrow> (\<exists>e \<in> set ([] :: u8 list). unat e = i)" by simp
  from capability_walk_loop_finds [of cs "replicate 256 False" "[]" "cs ! 0x34" out, OF assms(1) _ v]
  obtain es last_off where es: "capability_path cs (cs ! 0x34) es last_off" "distinct es"
      "\<forall>e \<in> set es. capability_entry e" "capability_entry last_off \<longrightarrow> last_off \<in> set es"
      "snd (walk cs out) = walk_verdict es last_off" "length (fst (walk cs out)) = length out"
      "\<forall>i < length out. fst (walk cs out) ! i = (if i < length es then capability_at cs (es ! i) else out ! i)"
    unfolding w by auto
  from capability_entries_bound [OF es(2,3)] es show ?thesis by blast
qed

end
