(* ===== verification/Isolation_Claims.thy ===== *)
theory Isolation_Claims
  imports Device_Isolation Pcie_Config
begin

text \<open>What the device-isolation components promise: DMA windows, page descriptors, PCI capability lists.\<close>

text \<open>
  C35. A driver that holds a granted DMA window can only give authority up. Over any sequence of
  narrowing, write-dropping and revoking requests the window it holds covers no page outside the
  grant and no writable page outside the writable pages of the grant, so the grant always permits
  everything in it. Once the window has been revoked it covers nothing, whatever is requested later.
\<close>

theorem held_window_only_shrinks:
  "let grant = dma_granted base n wr; held = window (window_run (held_window_holding grant) rs) in
     window_pages held \<subseteq> window_pages grant \<and>
     window_writable_pages held \<subseteq> window_writable_pages grant \<and>
     dma_permits_everything_in grant held \<and>
     (RevokeWindow \<in> set rs \<longrightarrow> window_pages held = {})"
proof -
  define grant where "grant = dma_granted base n wr"
  define held where "held = window (window_run (held_window_holding grant) rs)"
  have fits: "window_fits grant" by (simp add: grant_def window_fits_granted)
  then have "window_fits (window (held_window_holding grant))" by (simp add: held_window_holding_def)
  from window_run_shrinks [OF this, of rs]
  have "window_pages held \<subseteq> window_pages grant" "window_writable_pages held \<subseteq> window_writable_pages grant"
    by (simp_all add: held_def held_window_holding_def)
  moreover have "window_pages held = {}" if "RevokeWindow \<in> set rs"
  proof -
    from that obtain before after where "rs = before @ RevokeWindow # after" by (auto dest: split_list)
    then show ?thesis by (simp add: held_def window_run_append window_run_after_revoke)
  qed
  ultimately have "window_pages held \<subseteq> window_pages grant \<and>
     window_writable_pages held \<subseteq> window_writable_pages grant \<and>
     dma_permits_everything_in grant held \<and> (RevokeWindow \<in> set rs \<longrightarrow> window_pages held = {})"
    using dma_permits_iff_subset [OF fits] by blast
  then show ?thesis by (simp add: Let_def held_def grant_def)
qed

theorem held_window_only_shrinks_witness:
  "RevokeWindow \<in> set [NarrowWindow 18 4, RevokeWindow, NarrowWindow 16 8] \<and>
   window_pages (window (window_run (held_window_holding (dma_granted 16 8 True))
     [NarrowWindow 18 4, RevokeWindow, NarrowWindow 16 8])) = {} \<and>
   window (window_run (held_window_holding (dma_granted 16 8 True)) [NarrowWindow 18 4])
     = \<lparr>base_page = 18, pages = 4, writable = True\<rparr>"
proof (intro conjI)
  show "window_pages (window (window_run (held_window_holding (dma_granted 16 8 True))
     [NarrowWindow 18 4, RevokeWindow, NarrowWindow 16 8])) = {}"
    using held_window_only_shrinks [where base = 16 and n = 8 and wr = True
        and rs = "[NarrowWindow 18 4, RevokeWindow, NarrowWindow 16 8]"]
    by (simp add: Let_def del: window_run.simps)
qed (simp_all add: held_window_holding_def narrow_window_def dma_narrow_def dma_granted_def dma_contains_def
      dma_is_empty_def dma_end_page_def checked_add_def)

text \<open>
  C36. A page descriptor can be built exactly for the addresses that are aligned to the granule and
  below two to the forty-eight, and each refusal names the condition that failed. Every descriptor
  that is built carries the address and the permission it was asked for in its bits: the address
  reads back, writing is permitted exactly for a writable permission, execution exactly for an
  executable one and then only at the level the page is mapped for, and no descriptor permits both.
\<close>

theorem descriptors_carry_their_permission:
  "case descriptor_page a perm level g of
     Inl DescriptorError.Misaligned \<Rightarrow> \<not> granule_is_aligned g a
   | Inl AddressTooLarge \<Rightarrow> granule_is_aligned g a \<and> 2 ^ 48 \<le> a
   | Inr d \<Rightarrow> granule_is_aligned g a \<and> a < 2 ^ 48 \<and>
       permission d = perm \<and> granule d = g \<and> descriptor_output_address d = a \<and>
       bits_permit_write d = permission_is_writable perm \<and>
       (bits d AND PXN = 0 \<longleftrightarrow> permission_is_executable perm \<and> level = Kernel) \<and>
       (bits d AND UXN = 0 \<longleftrightarrow> permission_is_executable perm \<and> level = User) \<and>
       \<not> violates_write_xor_execute d"
proof (cases "descriptor_page a perm level g")
  case (Inl e)
  then show ?thesis using descriptor_page_cases [of a perm level g e] by (cases e) auto
next
  case (Inr d)
  note f = descriptor_fields [OF Inr]
  have "\<not> violates_write_xor_execute d"
    using f(2-4) by (cases perm) (simp_all add: violates_write_xor_execute_def bits_permit_execute_def)
  moreover have "granule_is_aligned g a" "a < 2 ^ 48"
    using Inr descriptor_page_cases [of a perm level g DescriptorError.Misaligned]
      descriptor_page_cases [of a perm level g AddressTooLarge] by auto
  moreover have "permission d = perm" "granule d = g"
    using Inr by (auto simp: descriptor_page_def split: if_splits)
  ultimately show ?thesis using f Inr by simp
qed

text \<open>
  C34. On any configuration space with a capability list, the walk visits exactly the entries the
  next pointers give, in order, each once, at most forty-eight of them, and stops where the pointer
  is zero, points into the header, is not a multiple of four or repeats an entry, with the result
  for that case. The bound of ninety-six entries is never the reason, and the caller's slice holds
  the entries found, as far as it reaches, and is otherwise untouched.
\<close>

theorem capability_walk_is_exact:
  assumes "length cs = 256" and "bit (cs ! 6) 4"
  shows "\<exists>entries last_off. capability_path cs (cs ! 0x34) entries last_off \<and> distinct entries \<and>
    length entries \<le> 48 \<and> (capability_entry last_off \<longrightarrow> last_off \<in> set entries) \<and>
    snd (walk cs out) = walk_verdict entries last_off \<and> snd (walk cs out) \<noteq> Err TooManyCapabilities \<and>
    length (fst (walk cs out)) = length out \<and>
    (\<forall>i < length out. fst (walk cs out) ! i =
      (if i < length entries then capability_at cs (entries ! i) else out ! i))"
proof -
  have v: "walk_verdict es l \<noteq> Err TooManyCapabilities" for es l by (simp add: walk_verdict_def)
  from walk_finds [OF assms, of out] v show ?thesis by metis
qed

theorem capability_walk_is_exact_witness:
  "let cs = ((replicate 256 0)[6 := 0x10, 0x34 := 0x40, 0x40 := 5, 0x41 := 0x50, 0x50 := 9, 0x51 := 0x40] :: bytes)
   in length cs = 256 \<and> bit (cs ! 6) 4 \<and> snd (walk cs []) = Err Cycle"
proof -
  define cs :: bytes where
    "cs = (replicate 256 0)[6 := 0x10, 0x34 := 0x40, 0x40 := 5, 0x41 := 0x50, 0x50 := 9, 0x51 := 0x40]"
  have c: "length cs = 256" "cs ! 6 = 0x10" "cs ! 0x34 = 0x40" "cs ! 0x41 = 0x50" "cs ! 0x51 = 0x40"
    by (simp_all add: cs_def)
  have b: "bit (cs ! 6) 4" by (simp add: c(2))
  from capability_walk_is_exact [OF c(1) b, of "[]"]
  obtain es l where w: "capability_path cs 0x40 es l" "distinct es"
    "capability_entry l \<longrightarrow> l \<in> set es" "snd (walk cs []) = walk_verdict es l"
    unfolding c(3) by (elim exE conjE) (rule that)
  have "l = 0x40 \<or> l = 0x50"
    using w(1) c(4,5)
  proof (induction es arbitrary: l rule: induct_list012)
    case 1 then show ?case by simp
  next
    case (2 x) then show ?case by simp
  next
    case (3 x y zs) then show ?case by auto
  qed
  then have "snd (walk cs []) = Err Cycle" using w(4) by (auto simp: walk_verdict_def)
  with c(1) b show ?thesis unfolding cs_def by simp
qed

end
