(* ===== verification/Elf_Loader.thy ===== *)
theory Elf_Loader
  imports Wire_Bytes "HOL-Library.Monad_Syntax"
begin

text \<open>
  The ELF parser and the address-space layout of a server process (\<open>process/elf_loader.rs\<close>,
  \<open>process/address_space.rs\<close>, \<open>process/elf_load_failure.rs\<close>). Indexing a slice out of range panics:
  such an operation returns \<open>None\<close>. Sums that the sources do not check wrap, as in the release
  build the project ships.
\<close>

section \<open>Results of code that may panic\<close>

type_synonym ('t, 'e) fallible = "('t, 'e) result option"

text \<open>The \<open>?\<close> operator in code that may also panic.\<close>

definition try_then :: "('a, 'e) fallible \<Rightarrow> ('a \<Rightarrow> ('b, 'e) fallible) \<Rightarrow> ('b, 'e) fallible" where
  "try_then m f = (case m of None \<Rightarrow> None | Some (Inl e) \<Rightarrow> Some (Inl e) | Some (Inr a) \<Rightarrow> f a)"

lemma try_then_simps [simp]:
  "try_then None f = None"
  "try_then (Some (Inl e)) f = Some (Inl e)"
  "try_then (Some (Inr a)) f = f a"
  by (simp_all add: try_then_def)

lemma try_then_Ok: "try_then m f = Some (Inr b) \<longleftrightarrow> (\<exists>a. m = Some (Inr a) \<and> f a = Some (Inr b))"
  by (auto simp: try_then_def split: option.splits sum.splits)

lemma try_then_Err:
  "try_then m f = Some (Inl e) \<longleftrightarrow> m = Some (Inl e) \<or> (\<exists>a. m = Some (Inr a) \<and> f a = Some (Inl e))"
  by (auto simp: try_then_def split: option.splits sum.splits)

lemma try_then_None: "try_then m f = None \<longleftrightarrow> m = None \<or> (\<exists>a. m = Some (Inr a) \<and> f a = None)"
  by (auto simp: try_then_def split: option.splits sum.splits)

section \<open>Constants, errors, segments\<close>

definition ELF_MAGIC_BYTES :: bytes where "ELF_MAGIC_BYTES = [0x7f, 0x45, 0x4C, 0x46]"
definition ELF_CLASS_64_BIT :: u8 where "ELF_CLASS_64_BIT = 2"
definition ELF_DATA_LITTLE_ENDIAN :: u8 where "ELF_DATA_LITTLE_ENDIAN = 1"
definition ELF_TYPE_EXECUTABLE :: u16 where "ELF_TYPE_EXECUTABLE = 2"
definition ELF_MACHINE_X86_64 :: u16 where "ELF_MACHINE_X86_64 = 0x3E"
definition ELF_HEADER_MINIMUM_SIZE :: usize where "ELF_HEADER_MINIMUM_SIZE = 64"
definition PROGRAM_HEADER_TYPE_LOAD :: u32 where "PROGRAM_HEADER_TYPE_LOAD = 1"
definition PROGRAM_HEADER_ENTRY_SIZE :: usize where "PROGRAM_HEADER_ENTRY_SIZE = 56"
definition SEGMENT_FLAG_EXECUTABLE :: u32 where "SEGMENT_FLAG_EXECUTABLE = 1"
definition SEGMENT_FLAG_WRITABLE :: u32 where "SEGMENT_FLAG_WRITABLE = 2"
definition SEGMENT_FLAG_READABLE :: u32 where "SEGMENT_FLAG_READABLE = 4"

lemmas elf_constants = ELF_MAGIC_BYTES_def ELF_CLASS_64_BIT_def ELF_DATA_LITTLE_ENDIAN_def
  ELF_TYPE_EXECUTABLE_def ELF_MACHINE_X86_64_def ELF_HEADER_MINIMUM_SIZE_def
  PROGRAM_HEADER_TYPE_LOAD_def PROGRAM_HEADER_ENTRY_SIZE_def SEGMENT_FLAG_EXECUTABLE_def
  SEGMENT_FLAG_WRITABLE_def SEGMENT_FLAG_READABLE_def

datatype ElfLoadError =
    BinaryTooSmall
  | InvalidMagic
  | Not64Bit
  | NotLittleEndian
  | NotExecutable
  | NotX86_64
  | SegmentOutOfBounds
  | WritableAndExecutableSegment
  | UnsupportedProgramHeaderType
  | UnsupportedSegmentFlags
  | EntryPointNotCanonical
  | PageAllocationFailed
  | UserPageTableWalkFailed

record LoadableSegment =
  file_offset :: u64
  virtual_address :: u64
  file_size :: u64
  memory_size :: u64
  flags :: u32

section \<open>Reading fields\<close>

definition extract_elf_class :: "bytes \<Rightarrow> u8 option" where
  "extract_elf_class bs = array_get bs 4"

definition extract_elf_data_encoding :: "bytes \<Rightarrow> u8 option" where
  "extract_elf_data_encoding bs = array_get bs 5"

definition extract_u16_little_endian_at :: "bytes \<Rightarrow> usize \<Rightarrow> u16 option" where
  "extract_u16_little_endian_at bs off =
     do { low_byte \<leftarrow> array_get bs off;
          high_byte \<leftarrow> array_get bs (usize_wrapping_add off 1);
          Some (u16_from_le_bytes [low_byte, high_byte]) }"

definition extract_u32_little_endian_at :: "bytes \<Rightarrow> usize \<Rightarrow> u32 option" where
  "extract_u32_little_endian_at bs off =
     do { b0 \<leftarrow> array_get bs off;
          b1 \<leftarrow> array_get bs (usize_wrapping_add off 1);
          b2 \<leftarrow> array_get bs (usize_wrapping_add off 2);
          b3 \<leftarrow> array_get bs (usize_wrapping_add off 3);
          Some (u32_from_le_bytes [b0, b1, b2, b3]) }"

definition extract_u64_little_endian_at :: "bytes \<Rightarrow> usize \<Rightarrow> u64 option" where
  "extract_u64_little_endian_at bs off =
     do { b0 \<leftarrow> array_get bs off;
          b1 \<leftarrow> array_get bs (usize_wrapping_add off 1);
          b2 \<leftarrow> array_get bs (usize_wrapping_add off 2);
          b3 \<leftarrow> array_get bs (usize_wrapping_add off 3);
          b4 \<leftarrow> array_get bs (usize_wrapping_add off 4);
          b5 \<leftarrow> array_get bs (usize_wrapping_add off 5);
          b6 \<leftarrow> array_get bs (usize_wrapping_add off 6);
          b7 \<leftarrow> array_get bs (usize_wrapping_add off 7);
          Some (u64_from_le_bytes [b0, b1, b2, b3, b4, b5, b6, b7]) }"

definition extract_elf_type :: "bytes \<Rightarrow> u16 option" where
  "extract_elf_type bs = extract_u16_little_endian_at bs 16"

definition extract_elf_machine :: "bytes \<Rightarrow> u16 option" where
  "extract_elf_machine bs = extract_u16_little_endian_at bs 18"

definition extract_entry_point_address :: "bytes \<Rightarrow> u64 option" where
  "extract_entry_point_address bs = extract_u64_little_endian_at bs 24"

definition extract_program_header_table_offset :: "bytes \<Rightarrow> u64 option" where
  "extract_program_header_table_offset bs = extract_u64_little_endian_at bs 32"

definition extract_program_header_count :: "bytes \<Rightarrow> u16 option" where
  "extract_program_header_count bs = extract_u16_little_endian_at bs 56"

section \<open>Header validation\<close>

definition validate_binary_is_large_enough :: "bytes \<Rightarrow> (unit, ElfLoadError) fallible" where
  "validate_binary_is_large_enough bs =
     Some (if length bs < ELF_HEADER_MINIMUM_SIZE then Err BinaryTooSmall else Ok ())"

definition validate_elf_magic :: "bytes \<Rightarrow> (unit, ElfLoadError) fallible" where
  "validate_elf_magic bs =
     do { magic \<leftarrow> slice_get bs 0 4;
          Some (if magic = ELF_MAGIC_BYTES then Ok () else Err InvalidMagic) }"

definition validate_elf_class :: "bytes \<Rightarrow> (unit, ElfLoadError) fallible" where
  "validate_elf_class bs =
     do { class_field \<leftarrow> extract_elf_class bs;
          Some (if class_field = ELF_CLASS_64_BIT then Ok () else Err Not64Bit) }"

definition validate_elf_data_encoding :: "bytes \<Rightarrow> (unit, ElfLoadError) fallible" where
  "validate_elf_data_encoding bs =
     do { encoding_field \<leftarrow> extract_elf_data_encoding bs;
          Some (if encoding_field = ELF_DATA_LITTLE_ENDIAN then Ok () else Err NotLittleEndian) }"

definition validate_elf_type :: "bytes \<Rightarrow> (unit, ElfLoadError) fallible" where
  "validate_elf_type bs =
     do { type_field \<leftarrow> extract_elf_type bs;
          Some (if type_field = ELF_TYPE_EXECUTABLE then Ok () else Err NotExecutable) }"

definition validate_elf_machine :: "bytes \<Rightarrow> (unit, ElfLoadError) fallible" where
  "validate_elf_machine bs =
     do { machine_field \<leftarrow> extract_elf_machine bs;
          Some (if machine_field = ELF_MACHINE_X86_64 then Ok () else Err NotX86_64) }"

definition validate_elf_header :: "bytes \<Rightarrow> (unit, ElfLoadError) fallible" where
  "validate_elf_header bs =
     try_then (validate_binary_is_large_enough bs) (\<lambda>_.
     try_then (validate_elf_magic bs) (\<lambda>_.
     try_then (validate_elf_class bs) (\<lambda>_.
     try_then (validate_elf_data_encoding bs) (\<lambda>_.
     try_then (validate_elf_type bs) (\<lambda>_.
     validate_elf_machine bs)))))"

definition extract_entry_point :: "bytes \<Rightarrow> (u64, ElfLoadError) fallible" where
  "extract_entry_point bs =
     try_then (validate_elf_header bs) (\<lambda>_. map_option Ok (extract_entry_point_address bs))"

section \<open>The program-header gate\<close>

definition reject_one_header_if_not_load :: "bytes \<Rightarrow> u64 \<Rightarrow> (unit, ElfLoadError) fallible" where
  "reject_one_header_if_not_load bs one_header_offset =
     (let type_byte_offset = unat one_header_offset in
      if length bs < usize_wrapping_add type_byte_offset 4 then Some (Err SegmentOutOfBounds)
      else
        do { program_header_type \<leftarrow> extract_u32_little_endian_at bs type_byte_offset;
             Some (if program_header_type \<noteq> PROGRAM_HEADER_TYPE_LOAD
                   then Err UnsupportedProgramHeaderType else Ok ()) })"

text \<open>\<open>for header_index in 0..header_count\<close>; \<open>remaining\<close> counts the indices still to come.\<close>

fun reject_headers_from :: "bytes \<Rightarrow> u64 \<Rightarrow> nat \<Rightarrow> nat \<Rightarrow> (unit, ElfLoadError) fallible" where
  "reject_headers_from bs header_offset header_index 0 = Some (Ok ())"
| "reject_headers_from bs header_offset header_index (Suc remaining) =
     try_then
       (reject_one_header_if_not_load bs
          (header_offset + of_nat header_index * of_nat PROGRAM_HEADER_ENTRY_SIZE))
       (\<lambda>_. reject_headers_from bs header_offset (Suc header_index) remaining)"

definition reject_any_non_load_header :: "bytes \<Rightarrow> u64 \<Rightarrow> u64 \<Rightarrow> (unit, ElfLoadError) fallible" where
  "reject_any_non_load_header bs header_offset header_count =
     reject_headers_from bs header_offset 0 (unat header_count)"

definition validate_program_header_types_are_load_only :: "bytes \<Rightarrow> (unit, ElfLoadError) fallible" where
  "validate_program_header_types_are_load_only bs =
     try_then (validate_binary_is_large_enough bs) (\<lambda>_.
       do { header_offset \<leftarrow> extract_program_header_table_offset bs;
            header_count \<leftarrow> extract_program_header_count bs;
            reject_any_non_load_header bs header_offset (ucast header_count) })"

section \<open>Permissions\<close>

record UserPageMappingPermissions =
  writable :: bool
  executable :: bool

definition reject_writable_and_executable_combination :: "u32 \<Rightarrow> (unit, ElfLoadError) result" where
  "reject_writable_and_executable_combination segment_flags =
     (let is_writable = segment_flags AND SEGMENT_FLAG_WRITABLE \<noteq> 0;
          is_executable = segment_flags AND SEGMENT_FLAG_EXECUTABLE \<noteq> 0
      in if is_writable \<and> is_executable then Err WritableAndExecutableSegment else Ok ())"

definition reject_non_readable_segment :: "u32 \<Rightarrow> (unit, ElfLoadError) result" where
  "reject_non_readable_segment segment_flags =
     (if segment_flags AND SEGMENT_FLAG_READABLE = 0 then Err UnsupportedSegmentFlags else Ok ())"

definition build_user_page_permissions_for_segment :: "u32 \<Rightarrow> UserPageMappingPermissions" where
  "build_user_page_permissions_for_segment segment_flags =
     \<lparr>writable = segment_flags AND SEGMENT_FLAG_WRITABLE \<noteq> 0,
      executable = segment_flags AND SEGMENT_FLAG_EXECUTABLE \<noteq> 0\<rparr>"

definition translate_segment_flags_to_user_page_permissions ::
  "u32 \<Rightarrow> (UserPageMappingPermissions, ElfLoadError) result" where
  "translate_segment_flags_to_user_page_permissions segment_flags =
     and_then (reject_writable_and_executable_combination segment_flags) (\<lambda>_.
     and_then (reject_non_readable_segment segment_flags) (\<lambda>_.
     Ok (build_user_page_permissions_for_segment segment_flags)))"

section \<open>Segments\<close>

definition validate_segment_is_not_writable_and_executable :: "u32 \<Rightarrow> (unit, ElfLoadError) result" where
  "validate_segment_is_not_writable_and_executable seg_flags =
     (let is_writable = seg_flags AND SEGMENT_FLAG_WRITABLE \<noteq> 0;
          is_executable = seg_flags AND SEGMENT_FLAG_EXECUTABLE \<noteq> 0
      in if is_writable \<and> is_executable then Err WritableAndExecutableSegment else Ok ())"

definition read_segment_type :: "bytes \<Rightarrow> usize \<Rightarrow> u32 option" where
  "read_segment_type bs header_offset = extract_u32_little_endian_at bs header_offset"

definition read_segment_flags :: "bytes \<Rightarrow> usize \<Rightarrow> u32 option" where
  "read_segment_flags bs header_offset =
     extract_u32_little_endian_at bs (usize_wrapping_add header_offset 4)"

definition read_segment_file_offset :: "bytes \<Rightarrow> usize \<Rightarrow> u64 option" where
  "read_segment_file_offset bs header_offset =
     extract_u64_little_endian_at bs (usize_wrapping_add header_offset 8)"

definition read_segment_virtual_address :: "bytes \<Rightarrow> usize \<Rightarrow> u64 option" where
  "read_segment_virtual_address bs header_offset =
     extract_u64_little_endian_at bs (usize_wrapping_add header_offset 16)"

definition read_segment_file_size :: "bytes \<Rightarrow> usize \<Rightarrow> u64 option" where
  "read_segment_file_size bs header_offset =
     extract_u64_little_endian_at bs (usize_wrapping_add header_offset 32)"

definition read_segment_memory_size :: "bytes \<Rightarrow> usize \<Rightarrow> u64 option" where
  "read_segment_memory_size bs header_offset =
     extract_u64_little_endian_at bs (usize_wrapping_add header_offset 40)"

definition validate_segment_bounds :: "bytes \<Rightarrow> u64 \<Rightarrow> u64 \<Rightarrow> (unit, ElfLoadError) result" where
  "validate_segment_bounds bs offset fsize =
     (let segment_end = saturating_add offset fsize
      in if length bs < unat segment_end then Err SegmentOutOfBounds else Ok ())"

definition build_loadable_segment :: "bytes \<Rightarrow> usize \<Rightarrow> u32 \<Rightarrow> (LoadableSegment, ElfLoadError) fallible" where
  "build_loadable_segment bs header_offset seg_flags =
     do { offset \<leftarrow> read_segment_file_offset bs header_offset;
          fsize \<leftarrow> read_segment_file_size bs header_offset;
          try_then (Some (validate_segment_bounds bs offset fsize)) (\<lambda>_.
            do { va \<leftarrow> read_segment_virtual_address bs header_offset;
                 mem_size \<leftarrow> read_segment_memory_size bs header_offset;
                 Some (Ok \<lparr>file_offset = offset, virtual_address = va, file_size = fsize,
                           memory_size = mem_size, flags = seg_flags\<rparr>) }) }"

definition extract_single_program_header ::
  "bytes \<Rightarrow> usize \<Rightarrow> (LoadableSegment option, ElfLoadError) fallible" where
  "extract_single_program_header bs header_offset =
     do { segment_type \<leftarrow> read_segment_type bs header_offset;
          if segment_type \<noteq> PROGRAM_HEADER_TYPE_LOAD then Some (Ok None)
          else
            do { seg_flags \<leftarrow> read_segment_flags bs header_offset;
                 try_then (Some (validate_segment_is_not_writable_and_executable seg_flags)) (\<lambda>_.
                   try_then (build_loadable_segment bs header_offset seg_flags) (\<lambda>segment.
                     Some (Ok (Some segment)))) } }"

definition validate_program_header_offset_is_in_bounds ::
  "bytes \<Rightarrow> usize \<Rightarrow> (unit, ElfLoadError) result" where
  "validate_program_header_offset_is_in_bounds bs header_offset =
     (let required_end = usize_wrapping_add header_offset PROGRAM_HEADER_ENTRY_SIZE
      in if length bs < required_end then Err SegmentOutOfBounds else Ok ())"

text \<open>
  The \<open>while header_index < header_count\<close> loop, with the array of eight slots and the number of
  slots filled. The count is a 16-bit field, so the product cannot wrap.
\<close>

fun collect_segments_from ::
  "bytes \<Rightarrow> usize \<Rightarrow> nat \<Rightarrow> nat \<Rightarrow> LoadableSegment option list \<Rightarrow> nat \<Rightarrow>
   (LoadableSegment option list, ElfLoadError) fallible" where
  "collect_segments_from bs table_offset header_index 0 segments load_segment_index = Some (Ok segments)"
| "collect_segments_from bs table_offset header_index (Suc remaining) segments load_segment_index =
     (let header_offset = usize_wrapping_add table_offset (header_index * PROGRAM_HEADER_ENTRY_SIZE) in
      try_then (Some (validate_program_header_offset_is_in_bounds bs header_offset)) (\<lambda>_.
      try_then (extract_single_program_header bs header_offset) (\<lambda>maybe_segment.
        case maybe_segment of
          Some segment \<Rightarrow>
            if load_segment_index < 8
            then collect_segments_from bs table_offset (Suc header_index) remaining
                   (segments[load_segment_index := Some segment]) (load_segment_index + 1)
            else collect_segments_from bs table_offset (Suc header_index) remaining segments load_segment_index
        | None \<Rightarrow>
            collect_segments_from bs table_offset (Suc header_index) remaining segments load_segment_index)))"

definition collect_loadable_segments ::
  "bytes \<Rightarrow> usize \<Rightarrow> usize \<Rightarrow> (LoadableSegment option list, ElfLoadError) fallible" where
  "collect_loadable_segments bs table_offset header_count =
     collect_segments_from bs table_offset 0 header_count (replicate 8 None) 0"

definition extract_loadable_segments :: "bytes \<Rightarrow> (LoadableSegment option list, ElfLoadError) fallible" where
  "extract_loadable_segments bs =
     try_then (validate_elf_header bs) (\<lambda>_.
       do { table_offset \<leftarrow> extract_program_header_table_offset bs;
            header_count \<leftarrow> extract_program_header_count bs;
            collect_loadable_segments bs (unat table_offset) (unat header_count) })"

definition compute_zero_fill_size :: "LoadableSegment \<Rightarrow> u64" where
  "compute_zero_fill_size segment = memory_size segment - file_size segment"

section \<open>The layout of a process\<close>

definition CANONICAL_USER_SPACE_UPPER_BOUND :: u64 where
  "CANONICAL_USER_SPACE_UPPER_BOUND = 0x00007FFFFFFFFFFF"
definition SERVER_CODE_BASE_VIRTUAL_ADDRESS :: u64 where "SERVER_CODE_BASE_VIRTUAL_ADDRESS = 0x400000"
definition SERVER_STACK_TOP_VIRTUAL_ADDRESS :: u64 where "SERVER_STACK_TOP_VIRTUAL_ADDRESS = 0x800000"
definition SERVER_STACK_SIZE_IN_PAGES :: usize where "SERVER_STACK_SIZE_IN_PAGES = 16"
definition SERVER_STACK_GUARD_PAGE_VIRTUAL_ADDRESS :: u64 where
  "SERVER_STACK_GUARD_PAGE_VIRTUAL_ADDRESS = 0x7EF000"

datatype AddressSpaceError =
    PageAllocationFailed
  | MappingFailed
  | EntryPointNotCanonical

record ProcessAddressSpaceLayout =
  code_base_virtual_address :: u64
  stack_top_virtual_address :: u64
  stack_bottom_virtual_address :: u64
  guard_page_virtual_address :: u64
  entry_point_virtual_address :: u64

definition entry_point_is_null :: "u64 \<Rightarrow> bool" where
  "entry_point_is_null entry_point \<longleftrightarrow> entry_point = 0"

definition entry_point_is_above_canonical_bound :: "u64 \<Rightarrow> bool" where
  "entry_point_is_above_canonical_bound entry_point \<longleftrightarrow> entry_point > CANONICAL_USER_SPACE_UPPER_BOUND"

definition validate_entry_point_is_canonical :: "u64 \<Rightarrow> (unit, AddressSpaceError) result" where
  "validate_entry_point_is_canonical entry_point =
     (if entry_point_is_null entry_point \<or> entry_point_is_above_canonical_bound entry_point
      then Err AddressSpaceError.EntryPointNotCanonical else Ok ())"

definition compute_stack_bottom_address :: u64 where
  "compute_stack_bottom_address =
     SERVER_STACK_TOP_VIRTUAL_ADDRESS - of_nat SERVER_STACK_SIZE_IN_PAGES * 4096"

definition compute_stack_guard_page_address :: u64 where
  "compute_stack_guard_page_address = compute_stack_bottom_address - 4096"

definition compute_total_stack_pages :: usize where
  "compute_total_stack_pages = SERVER_STACK_SIZE_IN_PAGES"

definition build_process_address_space_layout ::
  "u64 \<Rightarrow> (ProcessAddressSpaceLayout, AddressSpaceError) result" where
  "build_process_address_space_layout entry_point =
     and_then (validate_entry_point_is_canonical entry_point) (\<lambda>_.
       Ok \<lparr>code_base_virtual_address = SERVER_CODE_BASE_VIRTUAL_ADDRESS,
           stack_top_virtual_address = SERVER_STACK_TOP_VIRTUAL_ADDRESS,
           stack_bottom_virtual_address = compute_stack_bottom_address,
           guard_page_virtual_address = SERVER_STACK_GUARD_PAGE_VIRTUAL_ADDRESS,
           entry_point_virtual_address = entry_point\<rparr>)"

lemmas layout_constants = CANONICAL_USER_SPACE_UPPER_BOUND_def SERVER_CODE_BASE_VIRTUAL_ADDRESS_def
  SERVER_STACK_TOP_VIRTUAL_ADDRESS_def SERVER_STACK_SIZE_IN_PAGES_def
  SERVER_STACK_GUARD_PAGE_VIRTUAL_ADDRESS_def

lemma guard_page_agrees: "compute_stack_guard_page_address = SERVER_STACK_GUARD_PAGE_VIRTUAL_ADDRESS"
  by (simp add: compute_stack_guard_page_address_def compute_stack_bottom_address_def layout_constants)

section \<open>The parser reads the file format\<close>

text \<open>A slice is at most \<open>isize::MAX\<close> bytes long.\<close>

definition slice_len_ok :: "bytes \<Rightarrow> bool" where
  "slice_len_ok bs \<longleftrightarrow> length bs < 2 ^ 63"

definition u16_at :: "bytes \<Rightarrow> nat \<Rightarrow> u16" where "u16_at bs off = u16_from_le_bytes (take 2 (drop off bs))"
definition u32_at :: "bytes \<Rightarrow> nat \<Rightarrow> u32" where "u32_at bs off = u32_from_le_bytes (take 4 (drop off bs))"
definition u64_at :: "bytes \<Rightarrow> nat \<Rightarrow> u64" where "u64_at bs off = u64_from_le_bytes (take 8 (drop off bs))"

lemma take_drop_nth: "off + n \<le> length bs \<Longrightarrow> take n (drop off bs) = map (\<lambda>i. bs ! (off + i)) [0..<n]"
  by (rule nth_equalityI) (simp_all add: nth_append)

lemma array_get_in [simp]: "i < length bs \<Longrightarrow> array_get bs i = Some (bs ! i)"
  by (simp add: array_get_def)

lemma array_get_out [simp]: "length bs \<le> i \<Longrightarrow> array_get bs i = None"
  by (simp add: array_get_def)

lemma upt_small: "[0..<2] = [0, 1]" "[0..<4] = [0, 1, 2, 3]" "[0..<8] = [0, 1, 2, 3, 4, 5, 6, 7 :: nat]"
  by (simp_all add: upt_conv_Cons)

lemma extract_in_bounds:
  assumes "slice_len_ok bs"
  shows "off + 2 \<le> length bs \<Longrightarrow> extract_u16_little_endian_at bs off = Some (u16_at bs off)"
    and "off + 4 \<le> length bs \<Longrightarrow> extract_u32_little_endian_at bs off = Some (u32_at bs off)"
    and "off + 8 \<le> length bs \<Longrightarrow> extract_u64_little_endian_at bs off = Some (u64_at bs off)"
  using assms usize_wrapping_add_small [of off]
  by (simp_all add: slice_len_ok_def extract_u16_little_endian_at_def extract_u32_little_endian_at_def
      extract_u64_little_endian_at_def u16_at_def u32_at_def u64_at_def take_drop_nth upt_small)

lemma extract_u32_out: "length bs \<le> off \<Longrightarrow> extract_u32_little_endian_at bs off = None"
  by (simp add: extract_u32_little_endian_at_def)

definition elf_header_ok :: "bytes \<Rightarrow> bool" where
  "elf_header_ok bs \<longleftrightarrow> 64 \<le> length bs \<and> take 4 bs = [0x7f, 0x45, 0x4C, 0x46] \<and>
     bs ! 4 = 2 \<and> bs ! 5 = 1 \<and> u16_at bs 16 = 2 \<and> u16_at bs 18 = 0x3E"

lemma validate_elf_header_exact:
  assumes "slice_len_ok bs"
  shows "\<exists>r. validate_elf_header bs = Some r \<and> (r = Ok () \<longleftrightarrow> elf_header_ok bs)"
  using extract_in_bounds [OF assms]
  by (cases "64 \<le> length bs")
    (auto simp: validate_elf_header_def validate_binary_is_large_enough_def validate_elf_magic_def
      validate_elf_class_def validate_elf_data_encoding_def validate_elf_type_def validate_elf_machine_def
      extract_elf_class_def extract_elf_data_encoding_def extract_elf_type_def extract_elf_machine_def
      elf_header_ok_def elf_constants slice_get_def)

text \<open>The gate over the program-header table.\<close>

lemma reject_one_header_exact:
  assumes "slice_len_ok bs" "64 \<le> length bs"
  shows "reject_one_header_if_not_load bs w =
    (if unat w + 4 \<le> length bs then
       Some (if u32_at bs (unat w) = 1 then Ok () else Err UnsupportedProgramHeaderType)
     else if unat w + 4 < 2 ^ 64 then Some (Err SegmentOutOfBounds)
     else None)"
proof (cases "unat w + 4 < 2 ^ 64")
  case True
  then show ?thesis using extract_in_bounds(2) [OF assms(1), of "unat w"]
    by (simp add: reject_one_header_if_not_load_def Let_def elf_constants)
next
  case False
  then have "usize_wrapping_add (unat w) 4 = unat w + 4 - 2 ^ 64"
    using unat_less_exp [of w] by (simp add: usize_wrapping_add_def le_mod_geq)
  then show ?thesis using False assms unat_less_exp [of w]
    by (simp add: reject_one_header_if_not_load_def Let_def extract_u32_out slice_len_ok_def)
qed

definition header_offset_at :: "bytes \<Rightarrow> nat \<Rightarrow> nat" where
  "header_offset_at bs i = unat (u64_at bs 32) + i * 56"

definition header_count :: "bytes \<Rightarrow> nat" where
  "header_count bs = unat (u16_at bs 56)"

lemma interval_split:
  "(\<forall>j. i \<le> j \<and> j < i + Suc n \<longrightarrow> P j) \<longleftrightarrow> P i \<and> (\<forall>j. Suc i \<le> j \<and> j < Suc i + n \<longrightarrow> P j)"
proof
  assume r: "P i \<and> (\<forall>j. Suc i \<le> j \<and> j < Suc i + n \<longrightarrow> P j)"
  show "\<forall>j. i \<le> j \<and> j < i + Suc n \<longrightarrow> P j"
  proof (intro allI impI)
    fix j assume "i \<le> j \<and> j < i + Suc n"
    then show "P j" using r by (cases "j = i") auto
  qed
qed auto

lemma unat_header_offset:
  fixes w :: u64
  assumes "unat w + i * 56 < 2 ^ 64"
  shows "unat (w + of_nat i * of_nat PROGRAM_HEADER_ENTRY_SIZE) = unat w + i * 56"
proof -
  have "unat (of_nat i * of_nat PROGRAM_HEADER_ENTRY_SIZE :: u64) = i * 56"
    using assms by (simp add: elf_constants unat_word_ariths unsigned_of_nat take_bit_nat_eq_self)
  then show ?thesis
    using assms unat_add_fits [of w "of_nat i * of_nat PROGRAM_HEADER_ENTRY_SIZE"] by simp
qed

lemma reject_headers_from_exact:
  assumes "slice_len_ok bs" "64 \<le> length bs"
  shows "unat w + i * 56 < 2 ^ 63 + 56 \<or> i = 0 \<Longrightarrow>
    (reject_headers_from bs w i n = Some (Ok ()) \<longleftrightarrow>
      (\<forall>j. i \<le> j \<and> j < i + n \<longrightarrow> unat w + j * 56 + 4 \<le> length bs \<and> u32_at bs (unat w + j * 56) = 1)) \<and>
    (reject_headers_from bs w i n = None \<longleftrightarrow> i = 0 \<and> n > 0 \<and> 2 ^ 64 - 4 \<le> unat w)"
proof (induction n arbitrary: i)
  case (Suc n)
  have o: "unat w + i * 56 < 2 ^ 64" using Suc.prems unat_less_exp [of w] by auto
  note one = reject_one_header_exact [OF assms, of "w + of_nat i * of_nat PROGRAM_HEADER_ENTRY_SIZE",
      unfolded unat_header_offset [OF o]]
  show ?case
  proof (cases "unat w + i * 56 + 4 \<le> length bs \<and> u32_at bs (unat w + i * 56) = 1")
    case True
    then have next_in: "unat w + Suc i * 56 < 2 ^ 63 + 56 \<or> Suc i = 0"
      using assms(1) by (simp add: slice_len_ok_def)
    have small: "\<not> 2 ^ 64 - 4 \<le> unat w" using True assms(1) by (simp add: slice_len_ok_def)
    have "reject_headers_from bs w i (Suc n) = reject_headers_from bs w (Suc i) n"
      using True by (simp add: one)
    then show ?thesis using Suc.IH [OF next_in] True small
      by (subst interval_split [where P = "\<lambda>j. unat w + j * 56 + 4 \<le> length bs \<and> u32_at bs (unat w + j * 56) = 1"]) simp
  next
    case False
    then have ne: "reject_headers_from bs w i (Suc n) \<noteq> Some (Ok ())"
      by (auto simp: one)
    have "reject_headers_from bs w i (Suc n) = None \<longleftrightarrow> \<not> unat w + i * 56 + 4 < 2 ^ 64"
      using False assms(1) by (auto simp: one slice_len_ok_def)
    also have "\<dots> \<longleftrightarrow> i = 0 \<and> 2 ^ 64 - 4 \<le> unat w"
      using Suc.prems by auto
    finally have nn: "reject_headers_from bs w i (Suc n) = None \<longleftrightarrow> i = 0 \<and> 2 ^ 64 - 4 \<le> unat w" .
    have "\<not> (\<forall>j. i \<le> j \<and> j < i + Suc n \<longrightarrow> unat w + j * 56 + 4 \<le> length bs \<and> u32_at bs (unat w + j * 56) = 1)"
      using False by (auto intro!: exI [of _ i])
    then show ?thesis using ne by (simp only: nn) simp
  qed
qed auto

lemma gate_exact:
  assumes "slice_len_ok bs"
  shows "validate_program_header_types_are_load_only bs = Some (Ok ()) \<longleftrightarrow>
      64 \<le> length bs \<and>
      (\<forall>i < header_count bs. header_offset_at bs i + 4 \<le> length bs \<and> u32_at bs (header_offset_at bs i) = 1)"
    and "validate_program_header_types_are_load_only bs = None \<longleftrightarrow>
      64 \<le> length bs \<and> 0 < header_count bs \<and> 2 ^ 64 - 4 \<le> unat (u64_at bs 32)"
proof -
  have small: "validate_program_header_types_are_load_only bs = Some (Err BinaryTooSmall)" if "\<not> 64 \<le> length bs"
    using that by (simp add: validate_program_header_types_are_load_only_def
        validate_binary_is_large_enough_def elf_constants)
  have big: "validate_program_header_types_are_load_only bs =
      reject_headers_from bs (u64_at bs 32) 0 (header_count bs)" if "64 \<le> length bs"
    using that extract_in_bounds [OF assms]
    by (simp add: validate_program_header_types_are_load_only_def validate_binary_is_large_enough_def
        elf_constants extract_program_header_table_offset_def extract_program_header_count_def
        reject_any_non_load_header_def header_count_def unat_ucast_up)
  have rj: "reject_headers_from bs (u64_at bs 32) 0 (header_count bs) = Some (Ok ()) \<longleftrightarrow>
      (\<forall>i < header_count bs. unat (u64_at bs 32) + i * 56 + 4 \<le> length bs \<and>
        u32_at bs (unat (u64_at bs 32) + i * 56) = 1)"
    "reject_headers_from bs (u64_at bs 32) 0 (header_count bs) = None \<longleftrightarrow>
      0 < header_count bs \<and> 2 ^ 64 - 4 \<le> unat (u64_at bs 32)" if "64 \<le> length bs"
    using reject_headers_from_exact [OF assms that, of "u64_at bs 32" 0 "header_count bs"] by auto
  show "validate_program_header_types_are_load_only bs = Some (Ok ()) \<longleftrightarrow>
      64 \<le> length bs \<and>
      (\<forall>i < header_count bs. header_offset_at bs i + 4 \<le> length bs \<and> u32_at bs (header_offset_at bs i) = 1)"
    using small big rj by (cases "64 \<le> length bs") (simp_all add: header_offset_at_def)
  show "validate_program_header_types_are_load_only bs = None \<longleftrightarrow>
      64 \<le> length bs \<and> 0 < header_count bs \<and> 2 ^ 64 - 4 \<le> unat (u64_at bs 32)"
    using small big rj by (cases "64 \<le> length bs") simp_all
qed

text \<open>One program header, and the table of them.\<close>

definition segment_at :: "bytes \<Rightarrow> nat \<Rightarrow> LoadableSegment" where
  "segment_at bs off = \<lparr>file_offset = u64_at bs (off + 8), virtual_address = u64_at bs (off + 16),
     file_size = u64_at bs (off + 32), memory_size = u64_at bs (off + 40), flags = u32_at bs (off + 4)\<rparr>"

definition segment_is_write_execute :: "LoadableSegment \<Rightarrow> bool" where
  "segment_is_write_execute seg \<longleftrightarrow> flags seg AND 2 \<noteq> 0 \<and> flags seg AND 1 \<noteq> 0"

definition segment_in_file :: "bytes \<Rightarrow> LoadableSegment \<Rightarrow> bool" where
  "segment_in_file bs seg \<longleftrightarrow> unat (file_offset seg) + unat (file_size seg) \<le> length bs"

definition program_header_ok :: "bytes \<Rightarrow> nat \<Rightarrow> bool" where
  "program_header_ok bs off \<longleftrightarrow> off + 56 \<le> length bs \<and>
     (u32_at bs off = 1 \<longrightarrow>
       \<not> segment_is_write_execute (segment_at bs off) \<and> segment_in_file bs (segment_at bs off))"

definition header_segment :: "bytes \<Rightarrow> nat \<Rightarrow> LoadableSegment option" where
  "header_segment bs off = (if u32_at bs off = 1 then Some (segment_at bs off) else None)"

lemma validate_segment_bounds_exact:
  assumes "slice_len_ok bs"
  shows "validate_segment_bounds bs o1 n1 =
    (if unat o1 + unat n1 \<le> length bs then Ok () else Err SegmentOutOfBounds)"
  using assms by (auto simp: validate_segment_bounds_def slice_len_ok_def unat_saturating_add min_def)

lemma extract_single_program_header_exact:
  assumes "slice_len_ok bs" "off + 56 \<le> length bs"
  shows "extract_single_program_header bs off = Some (Ok (header_segment bs off)) \<longleftrightarrow> program_header_ok bs off"
    and "extract_single_program_header bs off \<noteq> None"
    and "program_header_ok bs off \<or> (\<exists>e. extract_single_program_header bs off = Some (Err e))"
proof -
  have w: "usize_wrapping_add off k = off + k" if "k \<le> 56" for k
    using assms that by (intro usize_wrapping_add_small) (simp add: slice_len_ok_def)
  have x: "extract_u32_little_endian_at bs (off + k) = Some (u32_at bs (off + k))"
    "extract_u64_little_endian_at bs (off + k) = Some (u64_at bs (off + k))" if "k \<le> 48" for k
    using assms that by (simp_all add: extract_in_bounds)
  have x0: "extract_u32_little_endian_at bs off = Some (u32_at bs off)"
    using x(1) [of 0] by simp
  have e: "extract_single_program_header bs off =
     (if u32_at bs off \<noteq> 1 then Some (Ok None)
      else if segment_is_write_execute (segment_at bs off) then Some (Err WritableAndExecutableSegment)
      else if segment_in_file bs (segment_at bs off) then Some (Ok (Some (segment_at bs off)))
      else Some (Err SegmentOutOfBounds))"
    by (simp add: extract_single_program_header_def build_loadable_segment_def read_segment_type_def
        read_segment_flags_def read_segment_file_offset_def read_segment_file_size_def
        read_segment_virtual_address_def read_segment_memory_size_def w x x0 elf_constants
        validate_segment_bounds_exact [OF assms(1)] validate_segment_is_not_writable_and_executable_def
        segment_is_write_execute_def segment_in_file_def segment_at_def Let_def)
  show "extract_single_program_header bs off = Some (Ok (header_segment bs off)) \<longleftrightarrow> program_header_ok bs off"
    "extract_single_program_header bs off \<noteq> None"
    "program_header_ok bs off \<or> (\<exists>e. extract_single_program_header bs off = Some (Err e))"
    using assms(2) by (simp_all add: e program_header_ok_def header_segment_def)
qed

lemma program_header_in_bounds_exact:
  assumes "slice_len_ok bs" "64 \<le> length bs" "off < 2 ^ 64"
  shows "validate_program_header_offset_is_in_bounds bs off =
    (if off + 56 \<le> length bs \<or> 2 ^ 64 \<le> off + 56 then Ok () else Err SegmentOutOfBounds)"
proof (cases "off + 56 < 2 ^ 64")
  case True
  then show ?thesis by (simp add: validate_program_header_offset_is_in_bounds_def elf_constants Let_def)
next
  case False
  then have "usize_wrapping_add off 56 = off + 56 - 2 ^ 64"
    using assms(3) by (simp add: usize_wrapping_add_def le_mod_geq)
  then show ?thesis using False assms
    by (simp add: validate_program_header_offset_is_in_bounds_def elf_constants Let_def)
qed

definition segment_slots :: "LoadableSegment list \<Rightarrow> LoadableSegment option list" where
  "segment_slots ss = map Some (take 8 ss) @ replicate (8 - length ss) None"

lemma segment_slots_snoc:
  "length ss < 8 \<Longrightarrow> (segment_slots ss)[length ss := Some s] = segment_slots (ss @ [s])"
  by (auto simp: segment_slots_def list_update_append Suc_diff_Suc [symmetric] simp del: Suc_diff_Suc)

lemma segment_slots_full: "8 \<le> length ss \<Longrightarrow> segment_slots (ss @ ts) = segment_slots ss"
  by (simp add: segment_slots_def)

definition segments_from :: "bytes \<Rightarrow> nat \<Rightarrow> nat \<Rightarrow> nat \<Rightarrow> LoadableSegment list" where
  "segments_from bs table i n = List.map_filter (header_segment bs) (map (\<lambda>j. table + j * 56) [i..<i + n])"

lemma segments_from_0 [simp]: "segments_from bs table i 0 = []"
  by (simp add: segments_from_def map_filter_simps)

lemma segments_from_Suc:
  "segments_from bs table i (Suc n) =
     (case header_segment bs (table + i * 56) of None \<Rightarrow> [] | Some s \<Rightarrow> [s]) @ segments_from bs table (Suc i) n"
proof -
  have "[i..<i + Suc n] = i # [Suc i..<Suc i + n]" by (simp add: upt_conv_Cons)
  then show ?thesis by (simp only: segments_from_def list.map map_filter_simps) (simp split: option.splits)
qed

lemma collect_step:
  assumes "slice_len_ok bs" "64 \<le> length bs" "table + i * 56 < 2 ^ 64"
  shows "collect_segments_from bs table i (Suc n) (segment_slots ss) (min 8 (length ss)) =
    (if program_header_ok bs (table + i * 56) then
       collect_segments_from bs table (Suc i) n
         (segment_slots (ss @ (case header_segment bs (table + i * 56) of None \<Rightarrow> [] | Some s \<Rightarrow> [s])))
         (min 8 (length (ss @ (case header_segment bs (table + i * 56) of None \<Rightarrow> [] | Some s \<Rightarrow> [s]))))
     else collect_segments_from bs table i (Suc n) (segment_slots ss) (min 8 (length ss)))"
proof (cases "program_header_ok bs (table + i * 56)")
  case True
  then have len: "table + i * 56 + 56 \<le> length bs" by (simp add: program_header_ok_def)
  note x = extract_single_program_header_exact(1) [OF assms(1) len]
  have m: "length ss < 8 \<Longrightarrow> min 8 (Suc (length ss)) = Suc (length ss)"
    "length ss < 8 \<Longrightarrow> min 8 (length ss) = length ss"
    "\<not> length ss < 8 \<Longrightarrow> min 8 (length ss) = 8" "\<not> length ss < 8 \<Longrightarrow> min 8 (Suc (length ss)) = 8"
    by (simp_all add: min_def)
  show ?thesis
    using True x len assms segment_slots_snoc [of ss] segment_slots_full [of ss]
    by (cases "length ss < 8")
      (simp_all add: program_header_in_bounds_exact elf_constants Let_def m split: option.splits)
qed simp

lemma collect_stops:
  assumes "slice_len_ok bs" "64 \<le> length bs" "table + i * 56 < 2 ^ 64" "\<not> program_header_ok bs (table + i * 56)"
  shows "collect_segments_from bs table i (Suc n) segs k \<noteq> Some (Ok r)"
    and "collect_segments_from bs table i (Suc n) segs k = None \<longleftrightarrow> 2 ^ 64 - 56 \<le> table + i * 56"
proof -
  have w: "usize_wrapping_add table (i * PROGRAM_HEADER_ENTRY_SIZE) = table + i * 56"
    using assms(3) by (simp add: elf_constants)
  have "\<exists>e. collect_segments_from bs table i (Suc n) segs k =
      (if 2 ^ 64 - 56 \<le> table + i * 56 then None else Some (Err e))"
  proof (cases "table + i * 56 + 56 \<le> length bs")
    case True
    from extract_single_program_header_exact(3) [OF assms(1) True] assms(4)
    obtain e where "extract_single_program_header bs (table + i * 56) = Some (Err e)" by blast
    moreover have "\<not> 2 ^ 64 - 56 \<le> table + i * 56" using True assms(1) by (simp add: slice_len_ok_def)
    ultimately show ?thesis using True assms
      by (simp add: w program_header_in_bounds_exact Let_def)
  next
    case False
    then have "2 ^ 64 - 56 \<le> table + i * 56 \<Longrightarrow> extract_single_program_header bs (table + i * 56) = None"
      using assms(1) by (simp add: slice_len_ok_def extract_single_program_header_def read_segment_type_def
          extract_u32_out)
    then show ?thesis using False assms by (simp add: w program_header_in_bounds_exact Let_def)
  qed
  then show "collect_segments_from bs table i (Suc n) segs k \<noteq> Some (Ok r)"
    "collect_segments_from bs table i (Suc n) segs k = None \<longleftrightarrow> 2 ^ 64 - 56 \<le> table + i * 56"
    by (auto simp del: collect_segments_from.simps split: if_splits)
qed

lemma collect_segments_from_exact:
  assumes "slice_len_ok bs" "64 \<le> length bs" "table < 2 ^ 64"
  shows "table + i * 56 < 2 ^ 63 + 56 \<or> i = 0 \<Longrightarrow>
    (\<forall>r. collect_segments_from bs table i n (segment_slots ss) (min 8 (length ss)) = Some (Ok r) \<longleftrightarrow>
      (\<forall>j. i \<le> j \<and> j < i + n \<longrightarrow> program_header_ok bs (table + j * 56)) \<and>
      r = segment_slots (ss @ segments_from bs table i n)) \<and>
    (collect_segments_from bs table i n (segment_slots ss) (min 8 (length ss)) = None \<longleftrightarrow>
      i = 0 \<and> n > 0 \<and> 2 ^ 64 - 56 \<le> table)"
proof (induction n arbitrary: i ss)
  case (Suc n)
  have o: "table + i * 56 < 2 ^ 64" using Suc.prems assms(3) by auto
  note split = interval_split [where i = i and n = n and P = "\<lambda>j. program_header_ok bs (table + j * 56)"]
  show ?case
  proof (cases "program_header_ok bs (table + i * 56)")
    case True
    define new where "new = (case header_segment bs (table + i * 56) of None \<Rightarrow> [] | Some s \<Rightarrow> [s])"
    have len: "table + i * 56 + 56 \<le> length bs" using True by (simp add: program_header_ok_def)
    then have next_in: "table + Suc i * 56 < 2 ^ 63 + 56 \<or> Suc i = 0"
      using assms(1) by (simp add: slice_len_ok_def)
    have small: "\<not> 2 ^ 64 - 56 \<le> table" using len assms(1) by (simp add: slice_len_ok_def)
    have c: "collect_segments_from bs table i (Suc n) (segment_slots ss) (min 8 (length ss)) =
        collect_segments_from bs table (Suc i) n (segment_slots (ss @ new)) (min 8 (length (ss @ new)))"
      using collect_step [OF assms(1,2) o, of n ss] True by (simp only: new_def if_True)
    have sf: "(ss @ new) @ segments_from bs table (Suc i) n = ss @ segments_from bs table i (Suc n)"
      by (simp add: segments_from_Suc new_def)
    from Suc.IH [OF next_in, of "ss @ new"] show ?thesis
      unfolding c split sf using True small by simp
  next
    case False
    have "\<not> (\<forall>j. i \<le> j \<and> j < i + Suc n \<longrightarrow> program_header_ok bs (table + j * 56))"
      using False by (auto intro!: exI [of _ i])
    moreover have "2 ^ 64 - 56 \<le> table + i * 56 \<longleftrightarrow> i = 0 \<and> 2 ^ 64 - 56 \<le> table"
      using Suc.prems by auto
    ultimately show ?thesis
      using collect_stops [OF assms(1,2) o False, of n "segment_slots ss" "min 8 (length ss)"]
      by (simp del: collect_segments_from.simps)
  qed
qed auto

lemma extract_loadable_segments_exact:
  assumes "slice_len_ok bs"
  shows "extract_loadable_segments bs = Some (Ok r) \<longleftrightarrow> elf_header_ok bs \<and>
      (\<forall>i < header_count bs. program_header_ok bs (header_offset_at bs i)) \<and>
      r = segment_slots (segments_from bs (unat (u64_at bs 32)) 0 (header_count bs))"
    and "extract_loadable_segments bs = None \<longleftrightarrow> elf_header_ok bs \<and> 0 < header_count bs \<and>
      2 ^ 64 - 56 \<le> unat (u64_at bs 32)"
proof -
  obtain v where v: "validate_elf_header bs = Some v" "v = Ok () \<longleftrightarrow> elf_header_ok bs"
    using validate_elf_header_exact [OF assms] by blast
  have no: "\<exists>e. extract_loadable_segments bs = Some (Err e)" if "\<not> elf_header_ok bs"
    using that v by (cases v) (simp_all add: extract_loadable_segments_def)
  have yes: "extract_loadable_segments bs =
      collect_segments_from bs (unat (u64_at bs 32)) 0 (header_count bs) (segment_slots []) (min 8 (length ([] :: LoadableSegment list)))"
    if "elf_header_ok bs"
  proof -
    have "64 \<le> length bs" using that by (simp add: elf_header_ok_def)
    then show ?thesis using that v extract_in_bounds [OF assms]
      by (simp add: extract_loadable_segments_def extract_program_header_table_offset_def
          extract_program_header_count_def collect_loadable_segments_def header_count_def segment_slots_def)
  qed
  have x: "(\<forall>r. extract_loadable_segments bs = Some (Ok r) \<longleftrightarrow>
      (\<forall>i < header_count bs. program_header_ok bs (header_offset_at bs i)) \<and>
      r = segment_slots (segments_from bs (unat (u64_at bs 32)) 0 (header_count bs))) \<and>
    (extract_loadable_segments bs = None \<longleftrightarrow> 0 < header_count bs \<and> 2 ^ 64 - 56 \<le> unat (u64_at bs 32))"
    if "elf_header_ok bs"
  proof -
    have "64 \<le> length bs" using that by (simp add: elf_header_ok_def)
    from collect_segments_from_exact [OF assms this, of "unat (u64_at bs 32)" 0 "header_count bs" "[]"]
    show ?thesis unfolding yes [OF that] using unat_less_exp [of "u64_at bs 32"]
      by (simp add: header_offset_at_def)
  qed
  show "extract_loadable_segments bs = Some (Ok r) \<longleftrightarrow> elf_header_ok bs \<and>
      (\<forall>i < header_count bs. program_header_ok bs (header_offset_at bs i)) \<and>
      r = segment_slots (segments_from bs (unat (u64_at bs 32)) 0 (header_count bs))"
    using no x by (cases "elf_header_ok bs") auto
  show "extract_loadable_segments bs = None \<longleftrightarrow> elf_header_ok bs \<and> 0 < header_count bs \<and>
      2 ^ 64 - 56 \<le> unat (u64_at bs 32)"
    using no x by (cases "elf_header_ok bs") auto
qed

end
