(* ===== verification/Page_Tables.thy ===== *)
theory Page_Tables
  imports Kernel_Memory "HOL-Library.Monad_Syntax"
begin

text \<open>
  The four-level page tables of the x86-64 kernel (\<open>arch/paging/*.rs\<close>) over the page-table entries of
  the vendored \<open>x86_64\<close> crate. The tables live in three statics: the bootstrap pool, the direct-map pool
  and the kernel root. The linker chooses their addresses, so those are the parameter \<open>lk\<close>. A reference
  to a table is a value of \<open>table_ref\<close>; reading a table at an address where none of the statics has one
  is undefined in the sources and \<open>None\<close> here, as is every panic.
\<close>

section \<open>Entries and flags\<close>

type_synonym page_entry = u64
type_synonym page_flags = u64

definition PRESENT :: page_flags where "PRESENT = 1"
definition WRITABLE :: page_flags where "WRITABLE = push_bit 1 1"
definition USER_ACCESSIBLE :: page_flags where "USER_ACCESSIBLE = push_bit 2 1"
definition WRITE_THROUGH :: page_flags where "WRITE_THROUGH = push_bit 3 1"
definition NO_CACHE :: page_flags where "NO_CACHE = push_bit 4 1"
definition HUGE_PAGE :: page_flags where "HUGE_PAGE = push_bit 7 1"
definition NO_EXECUTE :: page_flags where "NO_EXECUTE = push_bit 63 1"

lemmas page_flag_defs = PRESENT_def WRITABLE_def USER_ACCESSIBLE_def WRITE_THROUGH_def NO_CACHE_def
  HUGE_PAGE_def NO_EXECUTE_def

definition flags_contain :: "page_flags \<Rightarrow> page_flags \<Rightarrow> bool" where
  "flags_contain fl other \<longleftrightarrow> fl AND other = other"

definition physical_address_mask :: u64 where
  "physical_address_mask = 0x000FFFFFFFFFF000"

definition phys_addr_new :: "u64 \<Rightarrow> u64 option" where
  "phys_addr_new a = (let p = a mod 2 ^ 52 in if p = a then Some p else None)"

definition entry_is_unused :: "page_entry \<Rightarrow> bool" where
  "entry_is_unused e \<longleftrightarrow> e = 0"

definition entry_flags :: "page_entry \<Rightarrow> page_flags" where
  "entry_flags e = e AND NOT physical_address_mask"

definition entry_addr :: "page_entry \<Rightarrow> u64 option" where
  "entry_addr e = phys_addr_new (e AND physical_address_mask)"

definition entry_set_addr :: "u64 \<Rightarrow> page_flags \<Rightarrow> page_entry option" where
  "entry_set_addr address fl = (if address mod 4096 = 0 then Some (address OR fl) else None)"

datatype MappingError = WritableAndExecutableViolation | AllocationFailure | InvalidAddress

section \<open>Flag validation\<close>

definition check_writable_flag_is_set :: "page_flags \<Rightarrow> bool" where
  "check_writable_flag_is_set fl = flags_contain fl WRITABLE"

definition check_executable_flag_is_set :: "page_flags \<Rightarrow> bool" where
  "check_executable_flag_is_set fl = (\<not> flags_contain fl NO_EXECUTE)"

definition reject_if_both_writable_and_executable :: "bool \<Rightarrow> bool \<Rightarrow> (unit, MappingError) result" where
  "reject_if_both_writable_and_executable is_writable is_executable =
     (if is_writable \<and> is_executable then Err WritableAndExecutableViolation else Ok ())"

definition validate_page_table_flags_enforce_write_xor_execute ::
  "page_flags \<Rightarrow> (unit, MappingError) result" where
  "validate_page_table_flags_enforce_write_xor_execute fl =
     reject_if_both_writable_and_executable (check_writable_flag_is_set fl) (check_executable_flag_is_set fl)"

definition compute_kernel_code_page_flags :: page_flags where
  "compute_kernel_code_page_flags = PRESENT"

definition compute_kernel_data_page_flags :: page_flags where
  "compute_kernel_data_page_flags = PRESENT OR WRITABLE OR NO_EXECUTE"

definition compute_kernel_read_only_data_page_flags :: page_flags where
  "compute_kernel_read_only_data_page_flags = PRESENT OR NO_EXECUTE"

section \<open>Walk helpers\<close>

definition KERNEL_BINARY_VIRTUAL_ADDRESS :: u64 where "KERNEL_BINARY_VIRTUAL_ADDRESS = 0xFFFFFFFF80100000"
definition KERNEL_PHYSICAL_LOAD_ADDRESS :: u64 where "KERNEL_PHYSICAL_LOAD_ADDRESS = 0x100000"

definition compute_intermediate_page_table_flags :: page_flags where
  "compute_intermediate_page_table_flags = PRESENT OR WRITABLE"

definition extract_page_map_level_4_index :: "u64 \<Rightarrow> usize" where
  "extract_page_map_level_4_index va = unat (drop_bit 39 va AND 0x1FF)"

definition extract_page_directory_pointer_table_index :: "u64 \<Rightarrow> usize" where
  "extract_page_directory_pointer_table_index va = unat (drop_bit 30 va AND 0x1FF)"

definition extract_page_directory_index :: "u64 \<Rightarrow> usize" where
  "extract_page_directory_index va = unat (drop_bit 21 va AND 0x1FF)"

definition extract_page_table_index :: "u64 \<Rightarrow> usize" where
  "extract_page_table_index va = unat (drop_bit 12 va AND 0x1FF)"

definition compute_physical_address_of_bss_page :: "u64 \<Rightarrow> u64 option" where
  "compute_physical_address_of_bss_page va =
     (let physical_offset = va - KERNEL_BINARY_VIRTUAL_ADDRESS
      in phys_addr_new (KERNEL_PHYSICAL_LOAD_ADDRESS + physical_offset))"

section \<open>The statics\<close>

definition BOOTSTRAP_PAGE_TABLE_PAGE_COUNT :: usize where "BOOTSTRAP_PAGE_TABLE_PAGE_COUNT = 32"
definition DIRECT_MAP_BOOTSTRAP_TABLE_COUNT :: usize where "DIRECT_MAP_BOOTSTRAP_TABLE_COUNT = 4"

datatype table_ref = BootstrapTable nat | DirectMapTable nat | KernelPml4

record link_addresses =
  bootstrap_block :: u64
  direct_map_block :: u64
  kernel_pml4_static :: u64

record PagingStatics =
  bootstrap_tables :: "page_entry list list"
  next_bootstrap_index :: usize
  direct_map_tables :: "page_entry list list"
  next_direct_map_index :: usize
  kernel_pml4 :: "page_entry list"

definition page_table_new :: "page_entry list" where
  "page_table_new = replicate 512 0"

definition paging_statics_new :: PagingStatics where
  "paging_statics_new = \<lparr>
     bootstrap_tables = replicate BOOTSTRAP_PAGE_TABLE_PAGE_COUNT page_table_new, next_bootstrap_index = 0,
     direct_map_tables = replicate DIRECT_MAP_BOOTSTRAP_TABLE_COUNT page_table_new, next_direct_map_index = 0,
     kernel_pml4 = page_table_new\<rparr>"

fun table_entries :: "PagingStatics \<Rightarrow> table_ref \<Rightarrow> page_entry list" where
  "table_entries st (BootstrapTable i) = bootstrap_tables st ! i"
| "table_entries st (DirectMapTable i) = direct_map_tables st ! i"
| "table_entries st KernelPml4 = kernel_pml4 st"

fun write_table_entry :: "PagingStatics \<Rightarrow> table_ref \<Rightarrow> usize \<Rightarrow> page_entry \<Rightarrow> PagingStatics" where
  "write_table_entry st (BootstrapTable i) k e =
     st\<lparr>bootstrap_tables := (bootstrap_tables st)[i := (bootstrap_tables st ! i)[k := e]]\<rparr>"
| "write_table_entry st (DirectMapTable i) k e =
     st\<lparr>direct_map_tables := (direct_map_tables st)[i := (direct_map_tables st ! i)[k := e]]\<rparr>"
| "write_table_entry st KernelPml4 k e = st\<lparr>kernel_pml4 := (kernel_pml4 st)[k := e]\<rparr>"

fun table_address :: "link_addresses \<Rightarrow> table_ref \<Rightarrow> u64" where
  "table_address lk (BootstrapTable i) = bootstrap_block lk + of_nat i * 4096"
| "table_address lk (DirectMapTable i) = direct_map_block lk + of_nat i * 4096"
| "table_address lk KernelPml4 = kernel_pml4_static lk"

definition all_tables :: "table_ref list" where
  "all_tables = map BootstrapTable [0..<32] @ map DirectMapTable [0..<4] @ [KernelPml4]"

definition compute_page_table_physical_address :: "link_addresses \<Rightarrow> table_ref \<Rightarrow> u64 option" where
  "compute_page_table_physical_address lk t = compute_physical_address_of_bss_page (table_address lk t)"

definition retrieve_page_table_by_physical_address :: "link_addresses \<Rightarrow> u64 \<Rightarrow> table_ref option" where
  "retrieve_page_table_by_physical_address lk physical_address =
     (let va = physical_address - KERNEL_PHYSICAL_LOAD_ADDRESS + KERNEL_BINARY_VIRTUAL_ADDRESS
      in List.find (\<lambda>t. table_address lk t = va) all_tables)"

section \<open>Building the hierarchy\<close>

definition allocate_bootstrap_page_table :: "PagingStatics \<Rightarrow> (table_ref \<times> PagingStatics) option" where
  "allocate_bootstrap_page_table st =
     (let index = next_bootstrap_index st in
      if index < BOOTSTRAP_PAGE_TABLE_PAGE_COUNT
      then Some (BootstrapTable index, st\<lparr>next_bootstrap_index := usize_wrapping_add index 1\<rparr>)
      else None)"

definition allocate_and_link_bootstrap_table ::
  "link_addresses \<Rightarrow> PagingStatics \<Rightarrow> table_ref \<Rightarrow> usize \<Rightarrow> page_flags \<Rightarrow> (table_ref \<times> PagingStatics) option" where
  "allocate_and_link_bootstrap_table lk st parent index intermediate_flags =
     do { (new_table, st1) \<leftarrow> allocate_bootstrap_page_table st;
          physical_address \<leftarrow> compute_page_table_physical_address lk new_table;
          e \<leftarrow> entry_set_addr physical_address intermediate_flags;
          Some (new_table, write_table_entry st1 parent index e) }"

definition compute_intermediate_flags_for_leaf :: "page_flags \<Rightarrow> page_flags" where
  "compute_intermediate_flags_for_leaf leaf_flags =
     (let fl = compute_intermediate_page_table_flags
      in if flags_contain leaf_flags USER_ACCESSIBLE then fl OR USER_ACCESSIBLE else fl)"

text \<open>
  The three \<open>ensure_*_exists\<close> functions have the same body at three levels: follow the entry if it is
  used, allocate and link a table otherwise.
\<close>

definition ensure_child_exists ::
  "link_addresses \<Rightarrow> PagingStatics \<Rightarrow> table_ref \<Rightarrow> usize \<Rightarrow> page_flags \<Rightarrow> (table_ref \<times> PagingStatics) option" where
  "ensure_child_exists lk st parent index intermediate_flags =
     (let e = table_entries st parent ! index in
      if entry_is_unused e then allocate_and_link_bootstrap_table lk st parent index intermediate_flags
      else
        do { physical_address \<leftarrow> entry_addr e;
             child \<leftarrow> retrieve_page_table_by_physical_address lk physical_address;
             Some (child, st) })"

definition ensure_page_directory_pointer_table_exists ::
  "link_addresses \<Rightarrow> PagingStatics \<Rightarrow> table_ref \<Rightarrow> usize \<Rightarrow> page_flags \<Rightarrow> (table_ref \<times> PagingStatics) option" where
  "ensure_page_directory_pointer_table_exists = ensure_child_exists"

definition ensure_page_directory_exists ::
  "link_addresses \<Rightarrow> PagingStatics \<Rightarrow> table_ref \<Rightarrow> usize \<Rightarrow> page_flags \<Rightarrow> (table_ref \<times> PagingStatics) option" where
  "ensure_page_directory_exists = ensure_child_exists"

definition ensure_page_table_exists ::
  "link_addresses \<Rightarrow> PagingStatics \<Rightarrow> table_ref \<Rightarrow> usize \<Rightarrow> page_flags \<Rightarrow> (table_ref \<times> PagingStatics) option" where
  "ensure_page_table_exists = ensure_child_exists"

definition resolve_page_directory_for_address ::
  "link_addresses \<Rightarrow> PagingStatics \<Rightarrow> table_ref \<Rightarrow> u64 \<Rightarrow> page_flags \<Rightarrow> (table_ref \<times> PagingStatics) option" where
  "resolve_page_directory_for_address lk st root va intermediate_flags =
     (let pml4_index = extract_page_map_level_4_index va;
          pdpt_index = extract_page_directory_pointer_table_index va
      in do { (pdpt, st1) \<leftarrow> ensure_page_directory_pointer_table_exists lk st root pml4_index intermediate_flags;
              ensure_page_directory_exists lk st1 pdpt pdpt_index intermediate_flags })"

definition resolve_page_table_for_address ::
  "link_addresses \<Rightarrow> PagingStatics \<Rightarrow> table_ref \<Rightarrow> u64 \<Rightarrow> page_flags \<Rightarrow> ((table_ref \<times> usize) \<times> PagingStatics) option" where
  "resolve_page_table_for_address lk st root va intermediate_flags =
     do { (page_directory, st1) \<leftarrow> resolve_page_directory_for_address lk st root va intermediate_flags;
          let page_directory_index = extract_page_directory_index va;
          let page_table_index = extract_page_table_index va;
          (page_table, st2) \<leftarrow> ensure_page_table_exists lk st1 page_directory page_directory_index intermediate_flags;
          Some ((page_table, page_table_index), st2) }"

definition write_page_table_entry ::
  "PagingStatics \<Rightarrow> table_ref \<Rightarrow> usize \<Rightarrow> u64 \<Rightarrow> page_flags \<Rightarrow> PagingStatics option" where
  "write_page_table_entry st page_table page_table_index physical_address fl =
     do { e \<leftarrow> entry_set_addr physical_address fl;
          Some (write_table_entry st page_table page_table_index e) }"

definition map_single_page ::
  "link_addresses \<Rightarrow> PagingStatics \<Rightarrow> table_ref \<Rightarrow> u64 \<Rightarrow> u64 \<Rightarrow> page_flags \<Rightarrow>
   ((unit, MappingError) result \<times> PagingStatics) option" where
  "map_single_page lk st root va physical_address fl =
     (case validate_page_table_flags_enforce_write_xor_execute fl of
        Inl e \<Rightarrow> Some (Err e, st)
      | Inr _ \<Rightarrow>
          do { ((page_table, page_table_index), st1) \<leftarrow>
                 resolve_page_table_for_address lk st root va (compute_intermediate_flags_for_leaf fl);
               st2 \<leftarrow> write_page_table_entry st1 page_table page_table_index physical_address fl;
               Some (Ok (), st2) })"

definition resolve_mapped_physical_address ::
  "link_addresses \<Rightarrow> PagingStatics \<Rightarrow> table_ref \<Rightarrow> u64 \<Rightarrow> ((u64, MappingError) result \<times> PagingStatics) option" where
  "resolve_mapped_physical_address lk st root va =
     do { ((page_table, page_table_index), st1) \<leftarrow>
            resolve_page_table_for_address lk st root va compute_intermediate_page_table_flags;
          let e = table_entries st1 page_table ! page_table_index;
          if entry_is_unused e then Some (Err InvalidAddress, st1)
          else do { physical_address \<leftarrow> entry_addr e; Some (Ok physical_address, st1) } }"

definition allocate_user_page_map_level_4 :: "PagingStatics \<Rightarrow> (table_ref \<times> PagingStatics) option" where
  "allocate_user_page_map_level_4 st = allocate_bootstrap_page_table st"

text \<open>A range of pages; the addresses are sums that the sources do not check.\<close>

fun map_pages_from ::
  "link_addresses \<Rightarrow> PagingStatics \<Rightarrow> table_ref \<Rightarrow> u64 \<Rightarrow> u64 \<Rightarrow> nat \<Rightarrow> nat \<Rightarrow> page_flags \<Rightarrow>
   ((unit, MappingError) result \<times> PagingStatics) option" where
  "map_pages_from lk st root virtual_start physical_start page_index 0 fl = Some (Ok (), st)"
| "map_pages_from lk st root virtual_start physical_start page_index (Suc remaining) fl =
     do { physical_address \<leftarrow> phys_addr_new (physical_start + of_nat page_index * of_nat PAGE_SIZE_IN_BYTES);
          (r, st1) \<leftarrow> map_single_page lk st root
             (virtual_start + of_nat page_index * of_nat PAGE_SIZE_IN_BYTES) physical_address fl;
          (case r of
             Inl e \<Rightarrow> Some (Err e, st1)
           | Inr _ \<Rightarrow> map_pages_from lk st1 root virtual_start physical_start (Suc page_index) remaining fl) }"

definition map_page_range ::
  "link_addresses \<Rightarrow> PagingStatics \<Rightarrow> table_ref \<Rightarrow> u64 \<Rightarrow> u64 \<Rightarrow> u64 \<Rightarrow> page_flags \<Rightarrow>
   ((unit, MappingError) result \<times> PagingStatics) option" where
  "map_page_range lk st root virtual_start physical_start page_count fl =
     map_pages_from lk st root virtual_start physical_start 0 (unat page_count) fl"

definition clear_writable_flag_in_level_one_page_table_entry :: "page_entry \<Rightarrow> page_entry" where
  "clear_writable_flag_in_level_one_page_table_entry e = e AND NOT (push_bit 1 1)"

end
