(* ===== verification/User_Loading.thy ===== *)
theory User_Loading
  imports Elf_Loader Page_Tables
begin

text \<open>
  Loading the segments of a parsed ELF image and the user stack into a fresh address space
  (\<open>process/elf_load_into_address_space.rs\<close>). The kernel singletons the loader changes are the record
  \<open>LoaderState\<close>: the page tables, the physical allocator and the memory behind the direct map.
\<close>

section \<open>State\<close>

record LoaderState =
  paging :: PagingStatics
  allocator :: PhysicalAllocator
  memory :: phys_memory

type_synonym 'a loading = "(('a, ElfLoadError) result \<times> LoaderState) option"

text \<open>The \<open>?\<close> operator: an error returns with the effects done so far, a panic returns nothing.\<close>

definition load_then :: "'a loading \<Rightarrow> ('a \<Rightarrow> LoaderState \<Rightarrow> 'b loading) \<Rightarrow> 'b loading" where
  "load_then m f = (case m of None \<Rightarrow> None | Some (Inl e, st) \<Rightarrow> Some (Err e, st) | Some (Inr a, st) \<Rightarrow> f a st)"

lemma load_then_simps [simp]:
  "load_then None f = None"
  "load_then (Some (Inl e, st)) f = Some (Err e, st)"
  "load_then (Some (Inr a, st)) f = f a st"
  by (simp_all add: load_then_def)

lemma load_then_Ok:
  "load_then m f = Some (Inr b, st'') \<longleftrightarrow> (\<exists>a st'. m = Some (Inr a, st') \<and> f a st' = Some (Inr b, st''))"
  by (auto simp: load_then_def split: option.splits sum.splits)

lemma load_then_None:
  "load_then m f = None \<longleftrightarrow> m = None \<or> (\<exists>a st'. m = Some (Inr a, st') \<and> f a st' = None)"
  by (auto simp: load_then_def split: option.splits sum.splits)

definition map_err :: "'f \<Rightarrow> ('a, 'e) result \<Rightarrow> ('a, 'f) result" where
  "map_err e r = (case r of Inl _ \<Rightarrow> Err e | Inr a \<Rightarrow> Ok a)"

lemma map_err_simps [simp]: "map_err e (Inl x) = Err e" "map_err e (Inr a) = Ok a"
  by (simp_all add: map_err_def)

section \<open>Pages\<close>

definition build_user_page_table_flags :: "UserPageMappingPermissions \<Rightarrow> page_flags" where
  "build_user_page_table_flags permissions =
     (let fl = PRESENT OR USER_ACCESSIBLE;
          fl = (if writable permissions then fl OR WRITABLE else fl)
      in if \<not> executable permissions then fl OR NO_EXECUTE else fl)"

definition build_user_stack_page_flags :: page_flags where
  "build_user_stack_page_flags = PRESENT OR WRITABLE OR NO_EXECUTE OR USER_ACCESSIBLE"

definition align_down_to_page_boundary :: "u64 \<Rightarrow> u64" where
  "align_down_to_page_boundary address = address AND NOT (of_nat PAGE_SIZE_IN_BYTES - 1)"

definition align_up_to_page_boundary :: "u64 \<Rightarrow> u64" where
  "align_up_to_page_boundary address = align_down_to_page_boundary (address + of_nat PAGE_SIZE_IN_BYTES - 1)"

definition allocate_one_user_page :: "LoaderState \<Rightarrow> u64 loading" where
  "allocate_one_user_page st =
     do { (r, pa, mem) \<leftarrow> allocate_user_page (allocator st) (memory st);
          Some (map_err ElfLoadError.PageAllocationFailed r, st\<lparr>allocator := pa, memory := mem\<rparr>) }"

definition allocate_and_map_one_page ::
  "link_addresses \<Rightarrow> LoaderState \<Rightarrow> table_ref \<Rightarrow> u64 \<Rightarrow> page_flags \<Rightarrow> unit loading" where
  "allocate_and_map_one_page lk st root va page_fl =
     load_then (allocate_one_user_page st) (\<lambda>physical_address st1.
       do { frame \<leftarrow> phys_addr_new physical_address;
            (r, pg) \<leftarrow> map_single_page lk (paging st1) root va frame page_fl;
            Some (map_err UserPageTableWalkFailed r, st1\<lparr>paging := pg\<rparr>) })"

text \<open>\<open>while current_virtual_address < end_virtual_address\<close>, with the wrapping step of the sources.\<close>

partial_function (option) map_pages_until ::
  "link_addresses \<Rightarrow> LoaderState \<Rightarrow> table_ref \<Rightarrow> u64 \<Rightarrow> u64 \<Rightarrow> page_flags \<Rightarrow> unit loading" where
  "map_pages_until lk st root current end_va page_fl =
     (if current < end_va then
        Option.bind (allocate_and_map_one_page lk st root current page_fl) (\<lambda>(r, st1).
          case r of
            Inl e \<Rightarrow> Some (Err e, st1)
          | Inr _ \<Rightarrow> map_pages_until lk st1 root (current + of_nat PAGE_SIZE_IN_BYTES) end_va page_fl)
      else Some (Ok (), st))"

definition allocate_and_map_pages_for_segment ::
  "link_addresses \<Rightarrow> LoaderState \<Rightarrow> table_ref \<Rightarrow> LoadableSegment \<Rightarrow> page_flags \<Rightarrow> unit loading" where
  "allocate_and_map_pages_for_segment lk st root segment page_fl =
     map_pages_until lk st root
       (align_down_to_page_boundary (virtual_address segment))
       (align_up_to_page_boundary (virtual_address segment + memory_size segment)) page_fl"

section \<open>Bytes\<close>

definition resolve_user_virtual_to_physical :: "link_addresses \<Rightarrow> LoaderState \<Rightarrow> table_ref \<Rightarrow> u64 \<Rightarrow> u64 loading" where
  "resolve_user_virtual_to_physical lk st root va =
     do { (r, pg) \<leftarrow> resolve_mapped_physical_address lk (paging st) root va;
          Some (map_err UserPageTableWalkFailed r, st\<lparr>paging := pg\<rparr>) }"

definition write_one_byte_to_user_address ::
  "link_addresses \<Rightarrow> LoaderState \<Rightarrow> table_ref \<Rightarrow> u64 \<Rightarrow> u8 \<Rightarrow> unit loading" where
  "write_one_byte_to_user_address lk st root destination byte_value =
     load_then (resolve_user_virtual_to_physical lk st root destination) (\<lambda>frame_physical_address st1.
       let page_offset = destination AND (of_nat PAGE_SIZE_IN_BYTES - 1);
           byte_physical_address = frame_physical_address + page_offset;
           direct_map_pointer = DIRECT_MAP_REGION_START + byte_physical_address
       in Some (Ok (), st1\<lparr>memory := (memory st1)(direct_map_pointer := byte_value)\<rparr>))"

fun copy_bytes_from ::
  "link_addresses \<Rightarrow> LoaderState \<Rightarrow> table_ref \<Rightarrow> u64 \<Rightarrow> nat \<Rightarrow> bytes \<Rightarrow> unit loading" where
  "copy_bytes_from lk st root destination byte_index [] = Some (Ok (), st)"
| "copy_bytes_from lk st root destination byte_index (b # bs) =
     load_then (write_one_byte_to_user_address lk st root (destination + of_nat byte_index) b) (\<lambda>_ st1.
       copy_bytes_from lk st1 root destination (Suc byte_index) bs)"

definition copy_bytes_through_user_mapping ::
  "link_addresses \<Rightarrow> LoaderState \<Rightarrow> table_ref \<Rightarrow> u64 \<Rightarrow> bytes \<Rightarrow> unit loading" where
  "copy_bytes_through_user_mapping lk st root destination source_bytes =
     copy_bytes_from lk st root destination 0 source_bytes"

fun write_zero_bytes_from ::
  "link_addresses \<Rightarrow> LoaderState \<Rightarrow> table_ref \<Rightarrow> u64 \<Rightarrow> nat \<Rightarrow> nat \<Rightarrow> unit loading" where
  "write_zero_bytes_from lk st root destination byte_index 0 = Some (Ok (), st)"
| "write_zero_bytes_from lk st root destination byte_index (Suc remaining) =
     load_then (write_one_byte_to_user_address lk st root (destination + of_nat byte_index) 0) (\<lambda>_ st1.
       write_zero_bytes_from lk st1 root destination (Suc byte_index) remaining)"

definition write_zero_bytes_through_user_mapping ::
  "link_addresses \<Rightarrow> LoaderState \<Rightarrow> table_ref \<Rightarrow> u64 \<Rightarrow> usize \<Rightarrow> unit loading" where
  "write_zero_bytes_through_user_mapping lk st root destination byte_count =
     write_zero_bytes_from lk st root destination 0 byte_count"

definition copy_segment_bytes_into_user_pages ::
  "link_addresses \<Rightarrow> LoaderState \<Rightarrow> table_ref \<Rightarrow> bytes \<Rightarrow> LoadableSegment \<Rightarrow> unit loading" where
  "copy_segment_bytes_into_user_pages lk st root elf segment =
     (let source_start = unat (file_offset segment);
          source_end = usize_wrapping_add source_start (unat (file_size segment))
      in if length elf < source_end then Some (Err SegmentOutOfBounds, st)
         else
           do { source_slice \<leftarrow> slice_get elf source_start source_end;
                copy_bytes_through_user_mapping lk st root (virtual_address segment) source_slice })"

definition zero_fill_bss_portion_of_segment ::
  "link_addresses \<Rightarrow> LoaderState \<Rightarrow> table_ref \<Rightarrow> LoadableSegment \<Rightarrow> unit loading" where
  "zero_fill_bss_portion_of_segment lk st root segment =
     (if memory_size segment \<le> file_size segment then Some (Ok (), st)
      else
        let bss_start = virtual_address segment + file_size segment;
            bss_byte_count = unat (memory_size segment - file_size segment)
        in write_zero_bytes_through_user_mapping lk st root bss_start bss_byte_count)"

section \<open>Segments and stack\<close>

definition load_one_segment_into_user_page_table ::
  "link_addresses \<Rightarrow> LoaderState \<Rightarrow> table_ref \<Rightarrow> bytes \<Rightarrow> LoadableSegment \<Rightarrow> unit loading" where
  "load_one_segment_into_user_page_table lk st root elf segment =
     load_then (Some (translate_segment_flags_to_user_page_permissions (flags segment), st)) (\<lambda>permissions st.
     load_then (allocate_and_map_pages_for_segment lk st root segment (build_user_page_table_flags permissions)) (\<lambda>_ st.
     load_then (copy_segment_bytes_into_user_pages lk st root elf segment) (\<lambda>_ st.
     load_then (zero_fill_bss_portion_of_segment lk st root segment) (\<lambda>_ st.
     Some (Ok (), st)))))"

definition load_optional_segment_into_user_page_table ::
  "link_addresses \<Rightarrow> LoaderState \<Rightarrow> table_ref \<Rightarrow> bytes \<Rightarrow> LoadableSegment option \<Rightarrow> unit loading" where
  "load_optional_segment_into_user_page_table lk st root elf slot =
     (case slot of
        Some segment \<Rightarrow> load_one_segment_into_user_page_table lk st root elf segment
      | None \<Rightarrow> Some (Ok (), st))"

fun load_segments_into_user_page_table ::
  "link_addresses \<Rightarrow> LoaderState \<Rightarrow> table_ref \<Rightarrow> bytes \<Rightarrow> LoadableSegment option list \<Rightarrow> unit loading" where
  "load_segments_into_user_page_table lk st root elf [] = Some (Ok (), st)"
| "load_segments_into_user_page_table lk st root elf (slot # segments) =
     load_then (load_optional_segment_into_user_page_table lk st root elf slot) (\<lambda>_ st1.
       load_segments_into_user_page_table lk st1 root elf segments)"

fun map_stack_pages_from ::
  "link_addresses \<Rightarrow> LoaderState \<Rightarrow> table_ref \<Rightarrow> u64 \<Rightarrow> nat \<Rightarrow> nat \<Rightarrow> page_flags \<Rightarrow> unit loading" where
  "map_stack_pages_from lk st root stack_bottom stack_page_index 0 page_fl = Some (Ok (), st)"
| "map_stack_pages_from lk st root stack_bottom stack_page_index (Suc remaining) page_fl =
     load_then (allocate_and_map_one_page lk st root
         (stack_bottom + of_nat stack_page_index * of_nat PAGE_SIZE_IN_BYTES) page_fl) (\<lambda>_ st1.
       map_stack_pages_from lk st1 root stack_bottom (Suc stack_page_index) remaining page_fl)"

definition map_stack_pages_in_range ::
  "link_addresses \<Rightarrow> LoaderState \<Rightarrow> table_ref \<Rightarrow> u64 \<Rightarrow> usize \<Rightarrow> page_flags \<Rightarrow> unit loading" where
  "map_stack_pages_in_range lk st root stack_bottom stack_page_count page_fl =
     map_stack_pages_from lk st root stack_bottom 0 stack_page_count page_fl"

definition map_stack_pages_in_user_page_table :: "link_addresses \<Rightarrow> LoaderState \<Rightarrow> table_ref \<Rightarrow> unit loading" where
  "map_stack_pages_in_user_page_table lk st root =
     map_stack_pages_in_range lk st root compute_stack_bottom_address compute_total_stack_pages
       build_user_stack_page_flags"

definition load_segments_and_stack ::
  "link_addresses \<Rightarrow> LoaderState \<Rightarrow> table_ref \<Rightarrow> bytes \<Rightarrow> LoadableSegment option list \<Rightarrow> unit loading" where
  "load_segments_and_stack lk st root elf segments =
     load_then (load_segments_into_user_page_table lk st root elf segments) (\<lambda>_ st1.
     load_then (map_stack_pages_in_user_page_table lk st1 root) (\<lambda>_ st2.
     Some (Ok (), st2)))"

end
