(* ===== verification/Process_Launch.thy ===== *)
theory Process_Launch
  imports User_Loading Ipc_Queue Kernel_Thread Capability_Space
begin

text \<open>
  Creating a process (\<open>process/server_launch.rs\<close>): the layout, the thread pool, the supervisor pages of the
  system-call trampoline (\<open>arch/syscall_trampoline.rs\<close>), and the launch of a process from an ELF image.
  The statics that a launch changes are the record \<open>LaunchState\<close>; the addresses the linker gives to the
  trampoline are the parameter \<open>trampoline_link\<close>.
\<close>

section \<open>State\<close>

datatype ProcessType = Init | Spawnd | Auditd | DeviceServer | NetworkServer | Shell

record ServerProcessHandle =
  process_type :: ProcessType
  thread_index :: usize
  thread_identifier :: u32

datatype ServerLaunchError =
    EntryPointNotCanonical
  | ThreadPoolExhausted
  | PageAllocationFailed

record LaunchState =
  loader :: LoaderState
  thread_pool :: "Thread list"
  next_thread_pool_slot_index :: usize

record trampoline_link =
  syscall_entry_point :: u64
  syscall_trampoline_scratch :: u64

section \<open>Threads\<close>

definition allocate_thread_pool_slot :: "LaunchState \<Rightarrow> usize option \<times> LaunchState" where
  "allocate_thread_pool_slot ls =
     (let slot_index = next_thread_pool_slot_index ls in
      if MAXIMUM_THREADS \<le> slot_index then (None, ls)
      else (Some slot_index, ls\<lparr>next_thread_pool_slot_index := usize_wrapping_add slot_index 1\<rparr>))"

definition kernel_thread_at_mut :: "usize \<Rightarrow> usize option" where
  "kernel_thread_at_mut i = (if MAXIMUM_THREADS \<le> i then None else Some i)"

definition store_thread_in_kernel_pool :: "LaunchState \<Rightarrow> usize \<Rightarrow> Thread \<Rightarrow> LaunchState option" where
  "store_thread_in_kernel_pool ls i thread =
     (case kernel_thread_at_mut i of
        None \<Rightarrow> None
      | Some pool_entry \<Rightarrow> Some (ls\<lparr>thread_pool := (thread_pool ls)[pool_entry := thread]\<rparr>))"

definition build_initial_thread :: "u64 \<Rightarrow> u64 \<Rightarrow> Thread" where
  "build_initial_thread entry_point stack_top =
     new_thread\<lparr>register_save_area := (register_save_area new_thread)
         \<lparr>register_rcx := entry_point, register_rsp := stack_top\<rparr>,
       thread_state := Ready\<rparr>"

definition map_address_space_result ::
  "(ProcessAddressSpaceLayout, AddressSpaceError) result \<Rightarrow> (ProcessAddressSpaceLayout, ServerLaunchError) result" where
  "map_address_space_result r =
     (case r of
        Inr layout \<Rightarrow> Ok layout
      | Inl AddressSpaceError.EntryPointNotCanonical \<Rightarrow> Err ServerLaunchError.EntryPointNotCanonical
      | Inl AddressSpaceError.PageAllocationFailed \<Rightarrow> Err ServerLaunchError.PageAllocationFailed
      | Inl MappingFailed \<Rightarrow> Err ServerLaunchError.PageAllocationFailed)"

definition build_layout_or_error :: "u64 \<Rightarrow> (ProcessAddressSpaceLayout, ServerLaunchError) result" where
  "build_layout_or_error entry_point = map_address_space_result (build_process_address_space_layout entry_point)"

definition create_server_process ::
  "LaunchState \<Rightarrow> ProcessType \<Rightarrow> u64 \<Rightarrow>
   ((ServerProcessHandle \<times> CapabilitySpace, ServerLaunchError) result \<times> LaunchState) option" where
  "create_server_process ls ptype entry_point_address =
     (case build_layout_or_error entry_point_address of
        Inl e \<Rightarrow> Some (Err e, ls)
      | Inr layout \<Rightarrow>
          let thread = build_initial_thread (entry_point_virtual_address layout) (stack_top_virtual_address layout)
          in case allocate_thread_pool_slot ls of
               (None, ls1) \<Rightarrow> Some (Err ThreadPoolExhausted, ls1)
             | (Some i, ls1) \<Rightarrow>
                 do { ls2 \<leftarrow> store_thread_in_kernel_pool ls1 i thread;
                      Some (Ok (\<lparr>process_type = ptype, thread_index = i, thread_identifier = of_nat i\<rparr>, new_space), ls2) })"

definition write_capability_into_slot ::
  "CapabilitySlot \<Rightarrow> CapabilityType \<Rightarrow> CapabilityRights \<Rightarrow> CapabilitySlot" where
  "write_capability_into_slot slot ctype rights =
     slot\<lparr>state := Valid, capability_type := ctype, rights_bitmask := rights\<rparr>"

definition grant_initial_capability_to_server ::
  "CapabilitySpace \<Rightarrow> u8 \<Rightarrow> CapabilityType \<Rightarrow> CapabilityRights \<Rightarrow> CapabilitySpace" where
  "grant_initial_capability_to_server cs slot_index ctype rights =
     write_slot cs slot_index (write_capability_into_slot (lookup_slot_ref cs slot_index) ctype rights)"

section \<open>The trampoline pages\<close>

definition align_down_to_page :: "u64 \<Rightarrow> u64" where
  "align_down_to_page va = va AND NOT 0xFFF"

definition scratch_page_virtual_base :: "trampoline_link \<Rightarrow> u64" where
  "scratch_page_virtual_base tr = align_down_to_page (syscall_trampoline_scratch tr)"

definition trampoline_code_virtual_base :: "trampoline_link \<Rightarrow> u64" where
  "trampoline_code_virtual_base tr = align_down_to_page (syscall_entry_point tr)"

text \<open>The result of the mapping is dropped (\<open>let _ =\<close>).\<close>

definition map_kernel_page_into_user ::
  "link_addresses \<Rightarrow> PagingStatics \<Rightarrow> table_ref \<Rightarrow> u64 \<Rightarrow> page_flags \<Rightarrow> PagingStatics option" where
  "map_kernel_page_into_user lk st root va fl =
     do { physical_address \<leftarrow> compute_physical_address_of_bss_page va;
          (_, st1) \<leftarrow> map_single_page lk st root va physical_address fl;
          Some st1 }"

definition map_trampoline_into_user_page_table ::
  "link_addresses \<Rightarrow> trampoline_link \<Rightarrow> PagingStatics \<Rightarrow> table_ref \<Rightarrow> PagingStatics option" where
  "map_trampoline_into_user_page_table lk tr st root =
     (let code_flags = PRESENT;
          scratch_flags = PRESENT OR WRITABLE OR NO_EXECUTE;
          code_base = trampoline_code_virtual_base tr
      in do { st1 \<leftarrow> map_kernel_page_into_user lk st root code_base code_flags;
              st2 \<leftarrow> map_kernel_page_into_user lk st1 root (code_base + 0x1000) code_flags;
              map_kernel_page_into_user lk st2 root (scratch_page_virtual_base tr) scratch_flags })"

section \<open>A process from an ELF image\<close>

type_synonym 'a launching = "(('a, ElfLoadError) result \<times> LaunchState) option"

definition map_address_space_error_to_elf_load_error :: "AddressSpaceError \<Rightarrow> ElfLoadError" where
  "map_address_space_error_to_elf_load_error e =
     (case e of
        AddressSpaceError.EntryPointNotCanonical \<Rightarrow> ElfLoadError.EntryPointNotCanonical
      | AddressSpaceError.PageAllocationFailed \<Rightarrow> ElfLoadError.PageAllocationFailed
      | MappingFailed \<Rightarrow> UserPageTableWalkFailed)"

definition build_layout_for_loaded_process :: "u64 \<Rightarrow> (ProcessAddressSpaceLayout, ElfLoadError) result" where
  "build_layout_for_loaded_process entry_point =
     (case build_process_address_space_layout entry_point of
        Inl e \<Rightarrow> Err (map_address_space_error_to_elf_load_error e)
      | Inr layout \<Rightarrow> Ok layout)"

definition compute_user_page_table_physical_address :: "link_addresses \<Rightarrow> table_ref \<Rightarrow> u64 option" where
  "compute_user_page_table_physical_address lk root = compute_page_table_physical_address lk root"

definition finalize_loaded_process_handle ::
  "LaunchState \<Rightarrow> ProcessType \<Rightarrow> ProcessAddressSpaceLayout \<Rightarrow> u64 \<Rightarrow> ServerProcessHandle launching" where
  "finalize_loaded_process_handle ls ptype layout page_table =
     (let thread = (build_initial_thread (entry_point_virtual_address layout) (stack_top_virtual_address layout))
            \<lparr>user_page_table_physical_address := page_table\<rparr>
      in case allocate_thread_pool_slot ls of
           (None, ls1) \<Rightarrow> Some (Err ElfLoadError.PageAllocationFailed, ls1)
         | (Some i, ls1) \<Rightarrow>
             do { ls2 \<leftarrow> store_thread_in_kernel_pool ls1 i thread;
                  Some (Ok \<lparr>process_type = ptype, thread_index = i, thread_identifier = of_nat i\<rparr>, ls2) })"

definition build_loaded_process ::
  "link_addresses \<Rightarrow> trampoline_link \<Rightarrow> LaunchState \<Rightarrow> ProcessType \<Rightarrow> u64 \<Rightarrow> bytes \<Rightarrow> LoadableSegment option list \<Rightarrow>
   (ServerProcessHandle \<times> CapabilitySpace) launching" where
  "build_loaded_process lk tr ls ptype entry_point elf segments =
     (case build_layout_for_loaded_process entry_point of
        Inl e \<Rightarrow> Some (Err e, ls)
      | Inr layout \<Rightarrow>
          do { (root, pg) \<leftarrow> allocate_user_page_map_level_4 (paging (loader ls));
               (r, ld) \<leftarrow> load_segments_and_stack lk ((loader ls)\<lparr>paging := pg\<rparr>) root elf segments;
               (case r of
                  Inl e \<Rightarrow> Some (Err e, ls\<lparr>loader := ld\<rparr>)
                | Inr _ \<Rightarrow>
                    do { pg2 \<leftarrow> map_trampoline_into_user_page_table lk tr (paging ld) root;
                         page_table \<leftarrow> compute_user_page_table_physical_address lk root;
                         (h, ls2) \<leftarrow> finalize_loaded_process_handle
                            (ls\<lparr>loader := ld\<lparr>paging := pg2\<rparr>\<rparr>) ptype layout page_table;
                         Some (case h of Inl e \<Rightarrow> Err e | Inr handle \<Rightarrow> Ok (handle, new_space), ls2) }) })"

definition create_server_process_from_elf ::
  "link_addresses \<Rightarrow> trampoline_link \<Rightarrow> LaunchState \<Rightarrow> ProcessType \<Rightarrow> bytes \<Rightarrow>
   (ServerProcessHandle \<times> CapabilitySpace) launching" where
  "create_server_process_from_elf lk tr ls ptype elf =
     do { gate \<leftarrow> validate_program_header_types_are_load_only elf;
          (case gate of
             Inl e \<Rightarrow> Some (Err e, ls)
           | Inr _ \<Rightarrow>
               do { header \<leftarrow> validate_elf_header elf;
                    (case header of
                       Inl e \<Rightarrow> Some (Err e, ls)
                     | Inr _ \<Rightarrow>
                         do { entry \<leftarrow> extract_entry_point elf;
                              (case entry of
                                 Inl e \<Rightarrow> Some (Err e, ls)
                               | Inr entry_point \<Rightarrow>
                                   do { found \<leftarrow> extract_loadable_segments elf;
                                        (case found of
                                           Inl e \<Rightarrow> Some (Err e, ls)
                                         | Inr segments \<Rightarrow>
                                             build_loaded_process lk tr ls ptype entry_point elf segments) }) }) }) }"

end
