(* ===== verification/Page_Table_Walk.thy ===== *)
theory Page_Table_Walk
  imports Page_Tables
begin

text \<open>
  The page tables as trees. \<open>paging_wf lk st P\<close> says that the tables in use form disjoint trees, one for
  each root, where \<open>P\<close> gives every table its root and the indices leading to it. The translation of an
  address is the entry at the end of its walk over used entries, as the code follows them, and \<open>path_flags\<close> are the
  flags of the entries on the way; the operations of \<open>Page_Tables\<close> are characterised by what they do to both.
  \<open>user_may\<close> is the processor's check of an access from ring 3 against all of these flags.
\<close>

section \<open>Entries\<close>

definition flags_ok :: "page_flags \<Rightarrow> bool" where
  "flags_ok fl \<longleftrightarrow> fl AND physical_address_mask = 0 \<and> fl \<noteq> 0"

definition frame_ok :: "u64 \<Rightarrow> bool" where
  "frame_ok pa \<longleftrightarrow> pa mod 4096 = 0 \<and> pa < 2 ^ 52"

lemma mod_exp_word: "(a :: u64) mod 2 ^ n = take_bit n a"
  by (simp add: take_bit_eq_mod)

lemma physical_address_mask_bits: "physical_address_mask = mask 52 AND NOT (mask 12)"
  by (simp add: physical_address_mask_def mask_eq_exp_minus_1)


lemma less_exp_52: "(pa :: u64) < 2 ^ 52 \<longleftrightarrow> take_bit 52 pa = pa"
proof -
  have "take_bit 52 pa = pa \<longleftrightarrow> unat (take_bit 52 pa) = unat pa" by simp
  also have "\<dots> \<longleftrightarrow> pa < 2 ^ 52"
    by (simp add: unsigned_take_bit_eq take_bit_nat_eq_self_iff word_less_nat_alt)
  finally show ?thesis by simp
qed

lemma phys_addr_new_iff: "phys_addr_new pa = (if pa < 2 ^ 52 then Some pa else None)"
  unfolding phys_addr_new_def mod_exp_word less_exp_52 Let_def by simp

lemma frame_ok_mask: "frame_ok pa \<longleftrightarrow> pa AND physical_address_mask = pa"
proof -
  have "pa AND physical_address_mask = pa \<longleftrightarrow> take_bit 12 pa = 0 \<and> take_bit 52 pa = pa"
    by (auto simp: physical_address_mask_bits bit_eq_iff bit_and_iff bit_not_iff bit_mask_iff bit_take_bit_iff)
  moreover have "pa mod 4096 = 0 \<longleftrightarrow> take_bit 12 pa = 0"
    using mod_exp_word [of pa 12] by simp
  ultimately show ?thesis unfolding frame_ok_def less_exp_52 by argo
qed

lemma entry_of_frame:
  assumes "frame_ok pa" "flags_ok fl"
  shows "entry_set_addr pa fl = Some (pa OR fl)"
    and "entry_addr (pa OR fl) = Some pa"
    and "entry_flags (pa OR fl) = fl"
    and "pa OR fl \<noteq> 0"
proof -
  have m: "pa AND physical_address_mask = pa" "fl AND physical_address_mask = 0"
    using assms by (simp_all add: frame_ok_mask flags_ok_def)
  then have a: "(pa OR fl) AND physical_address_mask = pa" by (simp add: bit.conj_disj_distrib2)
  show "entry_set_addr pa fl = Some (pa OR fl)" using assms(1) by (simp add: entry_set_addr_def frame_ok_def)
  show "entry_addr (pa OR fl) = Some pa" using assms(1) by (simp add: entry_addr_def a phys_addr_new_iff frame_ok_def)
  have p0: "pa AND NOT physical_address_mask = 0"
    using m(1) by (metis bit.conj_cancel_right bit.conj_zero_right and.assoc)
  have f0: "fl AND NOT physical_address_mask = fl"
  proof (rule bit_word_eqI)
    fix n assume "n < LENGTH(64)"
    have "\<not> bit (fl AND physical_address_mask) n" using m(2) by simp
    then show "bit (fl AND NOT physical_address_mask) n = bit fl n"
      using \<open>n < LENGTH(64)\<close> by (auto simp: bit_and_iff bit_not_iff)
  qed
  show f: "entry_flags (pa OR fl) = fl"
    using p0 f0 by (simp add: entry_flags_def bit.conj_disj_distrib2)
  show "pa OR fl \<noteq> 0"
  proof
    assume "pa OR fl = 0"
    then have "fl = 0" using f by (simp add: entry_flags_def)
    then show False using assms(2) by (simp add: flags_ok_def)
  qed
qed

lemma flags_ok_intermediate:
  "flags_ok compute_intermediate_page_table_flags" "flags_ok (compute_intermediate_flags_for_leaf fl)"
  by (simp_all add: flags_ok_def compute_intermediate_flags_for_leaf_def compute_intermediate_page_table_flags_def
      page_flag_defs physical_address_mask_def)

lemma intermediate_not_huge:
  assumes "frame_ok pa"
  shows "\<not> flags_contain (pa OR compute_intermediate_page_table_flags) HUGE_PAGE"
    and "\<not> flags_contain (pa OR compute_intermediate_flags_for_leaf fl) HUGE_PAGE"
proof -
  have "pa AND 128 = 0"
  proof -
    have "pa AND 128 = pa AND (physical_address_mask AND 128)"
      using assms by (metis frame_ok_mask and.assoc)
    also have "physical_address_mask AND 128 = 0" by (simp add: physical_address_mask_def)
    finally show ?thesis by simp
  qed
  then show "\<not> flags_contain (pa OR compute_intermediate_page_table_flags) HUGE_PAGE"
    "\<not> flags_contain (pa OR compute_intermediate_flags_for_leaf fl) HUGE_PAGE"
    by (simp_all add: flags_contain_def bit.conj_disj_distrib2 compute_intermediate_flags_for_leaf_def
        compute_intermediate_page_table_flags_def page_flag_defs)
qed

section \<open>Tables and their addresses\<close>

definition valid_table :: "table_ref \<Rightarrow> bool" where
  "valid_table t \<longleftrightarrow> t \<in> set all_tables"

lemma valid_table_simps [simp]:
  "valid_table (BootstrapTable i) \<longleftrightarrow> i < 32"
  "valid_table (DirectMapTable i) \<longleftrightarrow> i < 4"
  "valid_table KernelPml4"
  by (auto simp: valid_table_def all_tables_def)

text \<open>What the linker guarantees: the tables are page-aligned, distinct and inside the four mebibytes of
  the kernel binary that the kernel maps.\<close>

definition link_ok :: "link_addresses \<Rightarrow> bool" where
  "link_ok lk \<longleftrightarrow> distinct (map (table_address lk) all_tables) \<and>
     list_all (\<lambda>t. table_address lk t mod 4096 = 0 \<and>
       table_address lk t - KERNEL_BINARY_VIRTUAL_ADDRESS < 0x400000) all_tables"

definition table_frame :: "link_addresses \<Rightarrow> table_ref \<Rightarrow> u64" where
  "table_frame lk t = KERNEL_PHYSICAL_LOAD_ADDRESS + (table_address lk t - KERNEL_BINARY_VIRTUAL_ADDRESS)"

lemma word_mod_4096: "(a :: u64) mod 4096 = 0 \<longleftrightarrow> 4096 dvd unat a"
  by (simp add: dvd_eq_mod_eq_0 unat_mod flip: unat_eq_zero)

lemma page_aligned_add:
  fixes a b :: u64
  assumes "b mod 4096 = 0"
  shows "(a + b) mod 4096 = 0 \<longleftrightarrow> a mod 4096 = 0"
proof -
  have "4096 dvd unat (a + b) \<longleftrightarrow> 4096 dvd (unat a + unat b)"
    by (simp add: unat_word_ariths dvd_mod_iff)
  also have "\<dots> \<longleftrightarrow> 4096 dvd unat a"
    using assms dvd_add_left_iff [of 4096 "unat b" "unat a"] by (simp only: word_mod_4096)
  finally show ?thesis by (simp only: word_mod_4096)
qed

lemma page_aligned_arith:
  fixes a b :: u64
  assumes "a mod 4096 = 0" "b mod 4096 = 0"
  shows "(a + b) mod 4096 = 0" "(a - b) mod 4096 = 0"
  using assms page_aligned_add [of b a] page_aligned_add [of b "a - b"] by simp_all

definition kernel_frame :: "u64 \<Rightarrow> u64" where
  "kernel_frame va = KERNEL_PHYSICAL_LOAD_ADDRESS + (va - KERNEL_BINARY_VIRTUAL_ADDRESS)"

lemma kernel_frame_ok:
  assumes "va mod 4096 = 0" "va - KERNEL_BINARY_VIRTUAL_ADDRESS < 0x400000"
  shows "frame_ok (kernel_frame va)" "compute_physical_address_of_bss_page va = Some (kernel_frame va)"
proof -
  let ?o = "va - KERNEL_BINARY_VIRTUAL_ADDRESS"
  have "?o mod 4096 = 0"
    by (rule page_aligned_arith(2) [OF assms(1)]) (simp add: KERNEL_BINARY_VIRTUAL_ADDRESS_def)
  then have "(KERNEL_PHYSICAL_LOAD_ADDRESS + ?o) mod 4096 = 0"
    by (intro page_aligned_arith(1)) (simp_all add: KERNEL_PHYSICAL_LOAD_ADDRESS_def)
  moreover have "KERNEL_PHYSICAL_LOAD_ADDRESS + ?o < 2 ^ 52"
  proof -
    have "unat ?o < 0x400000" using assms(2) by (simp add: word_less_nat_alt)
    then have "unat (KERNEL_PHYSICAL_LOAD_ADDRESS + ?o) = 0x100000 + unat ?o"
      by (subst unat_add_fits) (simp_all add: KERNEL_PHYSICAL_LOAD_ADDRESS_def)
    with \<open>unat ?o < 0x400000\<close> show ?thesis by (simp add: word_less_nat_alt)
  qed
  ultimately show "frame_ok (kernel_frame va)" by (simp add: frame_ok_def kernel_frame_def)
  then show "compute_physical_address_of_bss_page va = Some (kernel_frame va)"
    by (simp add: compute_physical_address_of_bss_page_def Let_def phys_addr_new_iff kernel_frame_def frame_ok_def)
qed

lemma table_frame_ok:
  assumes "link_ok lk" "valid_table t"
  shows "frame_ok (table_frame lk t)"
    and "compute_page_table_physical_address lk t = Some (table_frame lk t)"
proof -
  have "table_address lk t mod 4096 = 0" "table_address lk t - KERNEL_BINARY_VIRTUAL_ADDRESS < 0x400000"
    using assms by (auto simp: link_ok_def valid_table_def list_all_iff)
  from kernel_frame_ok [OF this] show "frame_ok (table_frame lk t)"
    "compute_page_table_physical_address lk t = Some (table_frame lk t)"
    by (simp_all add: table_frame_def kernel_frame_def compute_page_table_physical_address_def)
qed

lemma retrieve_table_frame:
  assumes "link_ok lk" "valid_table t"
  shows "retrieve_page_table_by_physical_address lk (table_frame lk t) = Some t"
proof -
  have "List.find (\<lambda>u. table_address lk u = table_address lk t) all_tables = Some t"
  proof -
    have inj: "inj_on (table_address lk) (set all_tables)"
      using assms(1) by (simp add: link_ok_def distinct_map)
    obtain u where u: "List.find (\<lambda>u. table_address lk u = table_address lk t) all_tables = Some u"
      using assms(2) by (cases "List.find (\<lambda>u. table_address lk u = table_address lk t) all_tables")
        (auto simp: find_None_iff valid_table_def)
    then have "u \<in> set all_tables" "table_address lk u = table_address lk t"
      by (auto simp: find_Some_iff)
    then show ?thesis using u inj assms(2) by (simp add: inj_on_def valid_table_def)
  qed
  then show ?thesis
    by (simp add: retrieve_page_table_by_physical_address_def table_frame_def Let_def)
qed

section \<open>Reads after writes\<close>

definition sizes_ok :: "PagingStatics \<Rightarrow> bool" where
  "sizes_ok st \<longleftrightarrow> length (bootstrap_tables st) = 32 \<and> length (direct_map_tables st) = 4 \<and>
     (\<forall>t. valid_table t \<longrightarrow> length (table_entries st t) = 512) \<and>
     next_bootstrap_index st \<le> 32 \<and> next_direct_map_index st \<le> 4"

lemma table_entries_write:
  assumes "sizes_ok st" "valid_table t"
  shows "table_entries (write_table_entry st t k e) u = (if u = t then (table_entries st t)[k := e] else table_entries st u)"
  using assms by (cases t; cases u) (auto simp: sizes_ok_def)

lemma write_table_entry_indices [simp]:
  "next_bootstrap_index (write_table_entry st t k e) = next_bootstrap_index st"
  "next_direct_map_index (write_table_entry st t k e) = next_direct_map_index st"
  by (cases t; simp)+

lemma sizes_ok_write:
  assumes "sizes_ok st" "valid_table t"
  shows "sizes_ok (write_table_entry st t k e)"
proof -
  have "length (bootstrap_tables (write_table_entry st t k e)) = 32 \<and> length (direct_map_tables (write_table_entry st t k e)) = 4"
    using assms by (cases t) (simp_all add: sizes_ok_def)
  then show ?thesis using assms table_entries_write [OF assms, of k e] by (simp add: sizes_ok_def)
qed

lemma table_entries_bump [simp]:
  "table_entries (st\<lparr>next_bootstrap_index := n\<rparr>) u = table_entries st u"
  "table_entries (st\<lparr>next_direct_map_index := n\<rparr>) u = table_entries st u"
  by (cases u; simp)+

section \<open>Trees of tables\<close>

type_synonym table_paths = "table_ref \<rightharpoonup> table_ref \<times> nat list"

fun table_in_use :: "PagingStatics \<Rightarrow> table_ref \<Rightarrow> bool" where
  "table_in_use st (BootstrapTable i) \<longleftrightarrow> i < next_bootstrap_index st"
| "table_in_use st (DirectMapTable i) \<longleftrightarrow> i < next_direct_map_index st"
| "table_in_use st KernelPml4 \<longleftrightarrow> True"

definition is_huge :: "page_entry \<Rightarrow> bool" where
  "is_huge e \<longleftrightarrow> flags_contain e HUGE_PAGE"

definition links_to :: "link_addresses \<Rightarrow> PagingStatics \<Rightarrow> table_ref \<Rightarrow> nat \<Rightarrow> table_ref \<Rightarrow> bool" where
  "links_to lk st t i c \<longleftrightarrow> table_entries st t ! i \<noteq> 0 \<and> \<not> is_huge (table_entries st t ! i) \<and>
     entry_addr (table_entries st t ! i) = Some (table_frame lk c)"

definition huge_leaf :: "PagingStatics \<Rightarrow> table_ref \<Rightarrow> nat list \<Rightarrow> nat \<Rightarrow> bool" where
  "huge_leaf st t js i \<longleftrightarrow> is_huge (table_entries st t ! i) \<and> length js = 2 \<and> (\<exists>k. t = DirectMapTable k)"

definition DIRECT_MAP_SLOT :: nat where "DIRECT_MAP_SLOT = 272"

definition paging_wf :: "link_addresses \<Rightarrow> PagingStatics \<Rightarrow> table_paths \<Rightarrow> bool" where
  "paging_wf lk st P \<longleftrightarrow> sizes_ok st \<and>
     (\<forall>t. P t \<noteq> None \<longleftrightarrow> valid_table t \<and> table_in_use st t) \<and>
     (\<forall>t. valid_table t \<and> \<not> table_in_use st t \<longrightarrow> table_entries st t = page_table_new) \<and>
     P KernelPml4 = Some (KernelPml4, []) \<and>
     (\<forall>t r js. P t = Some (r, js) \<longrightarrow> length js \<le> 3 \<and> P r = Some (r, []) \<and> (js = [] \<longrightarrow> t = r)) \<and>
     (\<forall>t r js i. P t = Some (r, js) \<and> length js < 3 \<and> i < 512 \<and> table_entries st t ! i \<noteq> 0 \<longrightarrow>
        huge_leaf st t js i \<or> (\<exists>c. P c = Some (r, js @ [i]) \<and> links_to lk st t i c)) \<and>
     (\<forall>c r js i. P c = Some (r, js @ [i]) \<longrightarrow> i < 512 \<and> (\<exists>t. P t = Some (r, js) \<and> links_to lk st t i c)) \<and>
     (\<forall>k r js. P (DirectMapTable k) = Some (r, js) \<longrightarrow> r = KernelPml4 \<and> (\<exists>ks. js = DIRECT_MAP_SLOT # ks))"

lemma paging_wfD:
  assumes "paging_wf lk st P"
  shows wf_sizes: "sizes_ok st"
    and wf_dom: "P t \<noteq> None \<longleftrightarrow> valid_table t \<and> table_in_use st t"
    and wf_unused: "valid_table t \<Longrightarrow> \<not> table_in_use st t \<Longrightarrow> table_entries st t = page_table_new"
    and wf_kernel: "P KernelPml4 = Some (KernelPml4, [])"
    and wf_path: "P t = Some (r, js) \<Longrightarrow> length js \<le> 3 \<and> P r = Some (r, []) \<and> (js = [] \<longrightarrow> t = r)"
    and wf_child: "P t = Some (r, js) \<Longrightarrow> length js < 3 \<Longrightarrow> i < 512 \<Longrightarrow> table_entries st t ! i \<noteq> 0 \<Longrightarrow>
      huge_leaf st t js i \<or> (\<exists>c. P c = Some (r, js @ [i]) \<and> links_to lk st t i c)"
    and wf_parent: "P c = Some (r, js @ [i]) \<Longrightarrow> i < 512 \<and> (\<exists>t. P t = Some (r, js) \<and> links_to lk st t i c)"
    and wf_direct: "P (DirectMapTable k) = Some (r, js) \<Longrightarrow> r = KernelPml4 \<and> (\<exists>ks. js = DIRECT_MAP_SLOT # ks)"
proof -
  note w = assms [unfolded paging_wf_def]
  show "sizes_ok st"
    using w [THEN conjunct1] by blast
  show "P t \<noteq> None \<longleftrightarrow> valid_table t \<and> table_in_use st t"
    using w [THEN conjunct2, THEN conjunct1] by blast
  show "table_entries st t = page_table_new"
    if "valid_table t" "\<not> table_in_use st t"
    using w [THEN conjunct2, THEN conjunct2, THEN conjunct1] that by simp
  show "P KernelPml4 = Some (KernelPml4, [])"
    using w [THEN conjunct2, THEN conjunct2, THEN conjunct2, THEN conjunct1] by blast
  show "length js \<le> 3 \<and> P r = Some (r, []) \<and> (js = [] \<longrightarrow> t = r)"
    if "P t = Some (r, js)"
    using w [THEN conjunct2, THEN conjunct2, THEN conjunct2, THEN conjunct2, THEN conjunct1] that by blast
  show "huge_leaf st t js i \<or> (\<exists>c. P c = Some (r, js @ [i]) \<and> links_to lk st t i c)"
    if "P t = Some (r, js)" "length js < 3" "i < 512" "table_entries st t ! i \<noteq> 0"
    using w [THEN conjunct2, THEN conjunct2, THEN conjunct2, THEN conjunct2, THEN conjunct2, THEN conjunct1] that by blast
  show "i < 512 \<and> (\<exists>t. P t = Some (r, js) \<and> links_to lk st t i c)"
    if "P c = Some (r, js @ [i])"
    using w [THEN conjunct2, THEN conjunct2, THEN conjunct2, THEN conjunct2, THEN conjunct2, THEN conjunct2, THEN conjunct1] that by blast
  show "r = KernelPml4 \<and> (\<exists>ks. js = DIRECT_MAP_SLOT # ks)"
    if "P (DirectMapTable k) = Some (r, js)"
    using w [THEN conjunct2, THEN conjunct2, THEN conjunct2, THEN conjunct2, THEN conjunct2, THEN conjunct2, THEN conjunct2] that by blast
qed

lemma wf_valid: "paging_wf lk st P \<Longrightarrow> P t = Some p \<Longrightarrow> valid_table t \<and> table_in_use st t"
  using wf_dom [of lk st P t] by simp

text \<open>The linker's addresses tell the tables apart.\<close>

lemma table_frame_inj:
  assumes "link_ok lk" "valid_table t" "valid_table u" "table_frame lk t = table_frame lk u"
  shows "t = u"
proof -
  have "Some t = Some u"
    unfolding retrieve_table_frame [OF assms(1,2), symmetric] retrieve_table_frame [OF assms(1,3), symmetric]
    by (simp only: assms(4))
  then show ?thesis by simp
qed

lemma links_to_unique:
  assumes "link_ok lk" "paging_wf lk st P" "links_to lk st t i c" "links_to lk st t i d" "P c = Some p" "P d = Some q"
  shows "c = d"
proof (rule table_frame_inj [OF assms(1)])
  show "valid_table c" "valid_table d" using wf_valid [OF assms(2)] assms(5,6) by blast+
  show "table_frame lk c = table_frame lk d" using assms(3,4) by (simp add: links_to_def)
qed

lemma paths_inj:
  assumes "link_ok lk" "paging_wf lk st P"
  shows "P c = Some (r, js) \<Longrightarrow> P d = Some (r, js) \<Longrightarrow> c = d"
proof (induction js arbitrary: c d rule: rev_induct)
  case Nil
  then show ?case using wf_path [OF assms(2)] by blast
next
  case (snoc i js)
  from wf_parent [OF assms(2) snoc.prems(1)] obtain t where t: "P t = Some (r, js)" "links_to lk st t i c" by blast
  from wf_parent [OF assms(2) snoc.prems(2)] obtain u where u: "P u = Some (r, js)" "links_to lk st u i d" by blast
  have "t = u" using snoc.IH [OF t(1) u(1)] .
  then show ?case using links_to_unique [OF assms t(2)] u(2) snoc.prems by blast
qed

section \<open>Translation\<close>

definition child_table :: "link_addresses \<Rightarrow> PagingStatics \<Rightarrow> table_ref \<Rightarrow> nat \<Rightarrow> table_ref option" where
  "child_table lk st t i =
     (let e = table_entries st t ! i in
      if e = 0 \<or> is_huge e then None
      else do { a \<leftarrow> entry_addr e; retrieve_page_table_by_physical_address lk a })"

fun table_walk :: "link_addresses \<Rightarrow> PagingStatics \<Rightarrow> table_ref \<Rightarrow> nat list \<Rightarrow> table_ref option" where
  "table_walk lk st t [] = Some t"
| "table_walk lk st t (i # is) = do { c \<leftarrow> child_table lk st t i; table_walk lk st c is }"

definition table_indices :: "u64 \<Rightarrow> nat list" where
  "table_indices va = [extract_page_map_level_4_index va, extract_page_directory_pointer_table_index va,
     extract_page_directory_index va]"

definition translate :: "link_addresses \<Rightarrow> PagingStatics \<Rightarrow> table_ref \<Rightarrow> u64 \<Rightarrow> page_entry option" where
  "translate lk st root va =
     do { t \<leftarrow> table_walk lk st root (table_indices va);
          let e = table_entries st t ! extract_page_table_index va;
          if e = 0 then None else Some e }"

lemma child_table_links:
  assumes "link_ok lk" "valid_table c" "links_to lk st t i c"
  shows "child_table lk st t i = Some c"
  using assms(3) retrieve_table_frame [OF assms(1,2)] by (simp add: child_table_def links_to_def)

lemma child_table_iff:
  assumes "link_ok lk" "paging_wf lk st P" "P t = Some (r, js)" "length js < 3" "i < 512"
  shows "child_table lk st t i = Some c \<longleftrightarrow> P c = Some (r, js @ [i])"
proof
  assume c: "child_table lk st t i = Some c"
  then have e: "table_entries st t ! i \<noteq> 0" "\<not> is_huge (table_entries st t ! i)"
    by (auto simp: child_table_def Let_def split: if_splits)
  from wf_child [OF assms(2-5) e(1)] e(2) obtain d where d: "P d = Some (r, js @ [i])" "links_to lk st t i d"
    by (auto simp: huge_leaf_def)
  have "child_table lk st t i = Some d"
    using child_table_links [OF assms(1) _ d(2)] wf_valid [OF assms(2) d(1)] by blast
  with c d(1) show "P c = Some (r, js @ [i])" by simp
next
  assume c: "P c = Some (r, js @ [i])"
  from wf_parent [OF assms(2) c] obtain u where u: "P u = Some (r, js)" "links_to lk st u i c" by blast
  have "u = t" using paths_inj [OF assms(1,2) u(1) assms(3)] .
  then show "child_table lk st t i = Some c"
    using child_table_links [OF assms(1) _ u(2)] wf_valid [OF assms(2) c] by blast
qed

lemma table_walk_iff:
  assumes "link_ok lk" "paging_wf lk st P"
  shows "P t = Some (r, js) \<Longrightarrow> length js + length ks \<le> 3 \<Longrightarrow> list_all (\<lambda>i. i < 512) ks \<Longrightarrow>
    table_walk lk st t ks = Some c \<longleftrightarrow> P c = Some (r, js @ ks)"
proof (induction ks arbitrary: t js)
  case Nil
  show ?case
  proof
    assume "table_walk lk st t [] = Some c"
    then show "P c = Some (r, js @ [])" using Nil(1) by simp
  next
    assume "P c = Some (r, js @ [])"
    then have "P c = Some (r, js)" by simp
    from paths_inj [OF assms this Nil(1)] show "table_walk lk st t [] = Some c" by simp
  qed
next
  case (Cons i ks)
  have i: "length js < 3" "i < 512" using Cons.prems by auto
  note ch = child_table_iff [OF assms Cons.prems(1) i]
  show ?case
  proof (cases "child_table lk st t i")
    case None
    have "P c \<noteq> Some (r, js @ i # ks)"
    proof
      assume "P c = Some (r, js @ i # ks)"
      then have "\<exists>d. P d = Some (r, js @ [i])"
      proof (induction ks arbitrary: c rule: rev_induct)
        case (snoc k ks)
        then have "P c = Some (r, (js @ i # ks) @ [k])" by simp
        from wf_parent [OF assms(2) this] obtain u where "P u = Some (r, js @ i # ks)" by blast
        then show ?case by (rule snoc.IH)
      qed (rule exI)
      then show False using ch None by simp
    qed
    with None show ?thesis by simp
  next
    case (Some d)
    then have "P d = Some (r, js @ [i])" using ch by simp
    moreover have "length (js @ [i]) + length ks \<le> 3" "list_all (\<lambda>i. i < 512) ks" using Cons.prems(2,3) by simp_all
    ultimately have "table_walk lk st d ks = Some c \<longleftrightarrow> P c = Some (r, (js @ [i]) @ ks)" by (rule Cons.IH)
    with Some show ?thesis by simp
  qed
qed

lemma index_bounds:
  "extract_page_map_level_4_index va < 512" "extract_page_directory_pointer_table_index va < 512"
  "extract_page_directory_index va < 512" "extract_page_table_index va < 512"
proof -
  have "unat (w AND 0x1FF) < 512" for w :: u64
  proof -
    have "w AND 0x1FF = take_bit 9 w" by (simp add: take_bit_eq_mask mask_eq_exp_minus_1)
    then show ?thesis using unat_mod [of w 512] by (simp add: take_bit_eq_mod)
  qed
  then show "extract_page_map_level_4_index va < 512" "extract_page_directory_pointer_table_index va < 512"
    "extract_page_directory_index va < 512" "extract_page_table_index va < 512"
    by (simp_all add: extract_page_map_level_4_index_def extract_page_directory_pointer_table_index_def
        extract_page_directory_index_def extract_page_table_index_def)
qed

lemma translate_iff:
  assumes "link_ok lk" "paging_wf lk st P" "P root = Some (root, [])"
  shows "translate lk st root va = Some e \<longleftrightarrow> e \<noteq> 0 \<and>
    (\<exists>t. P t = Some (root, table_indices va) \<and> table_entries st t ! extract_page_table_index va = e)"
proof -
  have l: "length ([] :: nat list) + length (table_indices va) \<le> 3" "list_all (\<lambda>i. i < 512) (table_indices va)"
    by (simp_all add: table_indices_def index_bounds)
  have w: "table_walk lk st root (table_indices va) = Some t \<longleftrightarrow> P t = Some (root, table_indices va)" for t
    using table_walk_iff [OF assms l] by (simp only: append_Nil)
  show ?thesis
  proof (cases "table_walk lk st root (table_indices va)")
    case None
    then have "\<And>t. P t \<noteq> Some (root, table_indices va)" using w by simp
    with None show ?thesis by (simp add: translate_def)
  next
    case (Some t)
    then have t: "P t = Some (root, table_indices va)" using w by simp
    have u: "(\<exists>u. P u = Some (root, table_indices va) \<and> Q u) \<longleftrightarrow> Q t" for Q
      using t paths_inj [OF assms(1,2) _ t] by blast
    have "translate lk st root va =
        (let e = table_entries st t ! extract_page_table_index va in if e = 0 then None else Some e)"
      by (simp add: translate_def Some)
    then show ?thesis unfolding u by (auto simp: Let_def)
  qed
qed

text \<open>
  The flags of the intermediate entries on the walk to an address, from the root down to the first missing
  table. The processor combines them with the flags of the leaf entry.
\<close>

fun path_flags :: "link_addresses \<Rightarrow> PagingStatics \<Rightarrow> table_ref \<Rightarrow> nat list \<Rightarrow> page_flags list" where
  "path_flags lk st t [] = []"
| "path_flags lk st t (i # is) =
     (case child_table lk st t i of None \<Rightarrow> []
      | Some c \<Rightarrow> entry_flags (table_entries st t ! i) # path_flags lk st c is)"

definition missing_tables :: "link_addresses \<Rightarrow> PagingStatics \<Rightarrow> table_ref \<Rightarrow> u64 \<Rightarrow> nat" where
  "missing_tables lk st root va = 3 - length (path_flags lk st root (table_indices va))"

text \<open>An address space as its walks see it: the leaf entry and the intermediate flags of every address.\<close>

definition address_space :: "link_addresses \<Rightarrow> PagingStatics \<Rightarrow> table_ref \<Rightarrow> u64 \<Rightarrow> page_entry option \<times> page_flags list" where
  "address_space lk st root va = (translate lk st root va, path_flags lk st root (table_indices va))"

text \<open>
  What the processor lets a ring-3 program do at an address: an access goes through when the leaf entry and every
  intermediate entry are present and open to the user, and each permits it.
\<close>

datatype user_access = ReadAccess | WriteAccess | ExecuteAccess

fun flags_permit :: "user_access \<Rightarrow> page_flags \<Rightarrow> bool" where
  "flags_permit ReadAccess fl \<longleftrightarrow> flags_contain fl (PRESENT OR USER_ACCESSIBLE)"
| "flags_permit WriteAccess fl \<longleftrightarrow> flags_contain fl (PRESENT OR USER_ACCESSIBLE) \<and> flags_contain fl WRITABLE"
| "flags_permit ExecuteAccess fl \<longleftrightarrow> flags_contain fl (PRESENT OR USER_ACCESSIBLE) \<and> \<not> flags_contain fl NO_EXECUTE"

definition user_may :: "link_addresses \<Rightarrow> PagingStatics \<Rightarrow> table_ref \<Rightarrow> user_access \<Rightarrow> u64 \<Rightarrow> bool" where
  "user_may lk st root a va =
     (case address_space lk st root va of
        (None, _) \<Rightarrow> False
      | (Some e, fls) \<Rightarrow> list_all (flags_permit a) (fls @ [entry_flags e]))"

lemma path_flags_length: "length (path_flags lk st t ks) \<le> length ks"
  by (induction ks arbitrary: t) (simp_all split: option.split)

lemma path_flags_full: "length (path_flags lk st t ks) = length ks \<longleftrightarrow> table_walk lk st t ks \<noteq> None"
  by (induction ks arbitrary: t) (simp_all split: option.split bind_split)

lemma path_flags_complete:
  assumes "link_ok lk" "paging_wf lk st P" "P root = Some (root, [])"
  shows "length (path_flags lk st root (table_indices va)) = 3 \<longleftrightarrow> (\<exists>t. P t = Some (root, table_indices va))"
    and "length (path_flags lk st root (table_indices va)) \<le> 3"
proof -
  have l: "length ([] :: nat list) + length (table_indices va) \<le> 3" "list_all (\<lambda>i. i < 512) (table_indices va)"
    by (simp_all add: table_indices_def index_bounds)
  have n: "length (table_indices va) = 3" by (simp add: table_indices_def)
  have "table_walk lk st root (table_indices va) \<noteq> None \<longleftrightarrow> (\<exists>t. P t = Some (root, table_indices va))"
    using table_walk_iff [OF assms l] by (simp only: append_Nil not_None_eq)
  then show "length (path_flags lk st root (table_indices va)) = 3 \<longleftrightarrow> (\<exists>t. P t = Some (root, table_indices va))"
    using path_flags_full [of lk st root "table_indices va"] n by simp
  show "length (path_flags lk st root (table_indices va)) \<le> 3"
    using path_flags_length [of lk st root "table_indices va"] n by simp
qed

lemma missing_tables_bounds:
  assumes "link_ok lk" "paging_wf lk st P" "P root = Some (root, [])"
  shows "missing_tables lk st root va \<le> (if \<exists>t. P t = Some (root, table_indices va) then 0 else 3)"
  using path_flags_complete [OF assms, of va] by (auto simp: missing_tables_def)

lemma path_prefix:
  assumes "paging_wf lk st P"
  shows "P c = Some (r, js @ ks) \<Longrightarrow> \<exists>d. P d = Some (r, js)"
proof (induction ks arbitrary: c rule: rev_induct)
  case (snoc k ks)
  then have "P c = Some (r, (js @ ks) @ [k])" by simp
  from wf_parent [OF assms this] obtain u where "P u = Some (r, js @ ks)" by blast
  then show ?case by (rule snoc.IH)
qed auto

section \<open>Page numbers\<close>

text \<open>The walk uses bits 12 to 47 of an address: two addresses are walked alike exactly when those agree.\<close>

definition page_number :: "u64 \<Rightarrow> nat" where
  "page_number va = unat va div 4096 mod 2 ^ 36"

lemma index_digits:
  "extract_page_table_index va = unat va div 4096 mod 512"
  "extract_page_directory_index va = unat va div 4096 div 512 mod 512"
  "extract_page_directory_pointer_table_index va = unat va div 4096 div 512 div 512 mod 512"
  "extract_page_map_level_4_index va = unat va div 4096 div 512 div 512 div 512 mod 512"
proof -
  have m: "w AND 0x1FF = take_bit 9 w" for w :: u64 by (simp add: take_bit_eq_mask mask_eq_exp_minus_1)
  have "unat (drop_bit n va AND 0x1FF) = unat va div 2 ^ n mod 512" for n
  proof -
    have "unat va mod 2 ^ 64 = unat va" using unsigned_less [of va, where 'a = nat] by simp
    then show ?thesis
      unfolding m unsigned_take_bit_eq unsigned_drop_bit_eq by (simp add: take_bit_eq_mod drop_bit_eq_div)
  qed
  then show "extract_page_table_index va = unat va div 4096 mod 512"
    "extract_page_directory_index va = unat va div 4096 div 512 mod 512"
    "extract_page_directory_pointer_table_index va = unat va div 4096 div 512 div 512 mod 512"
    "extract_page_map_level_4_index va = unat va div 4096 div 512 div 512 div 512 mod 512"
    by (simp_all add: extract_page_map_level_4_index_def extract_page_directory_pointer_table_index_def
        extract_page_directory_index_def extract_page_table_index_def div_mult2_eq [symmetric])
qed

lemma page_number_digits:
  "page_number va = extract_page_table_index va + 512 * (extract_page_directory_index va +
     512 * (extract_page_directory_pointer_table_index va + 512 * extract_page_map_level_4_index va))"
proof -
  have "n mod 2 ^ 36 = n mod 512 + 512 * (n div 512 mod 512 +
      512 * (n div 512 div 512 mod 512 + 512 * (n div 512 div 512 div 512 mod 512)))" for n :: nat
  proof -
    have "n mod (512 * (512 * (512 * 512))) = 512 * (n div 512 mod (512 * (512 * 512))) + n mod 512"
      by (rule mod_mult2_eq)
    also have "n div 512 mod (512 * (512 * 512)) = 512 * (n div 512 div 512 mod (512 * 512)) + n div 512 mod 512"
      by (rule mod_mult2_eq)
    also have "n div 512 div 512 mod (512 * 512) = 512 * (n div 512 div 512 div 512 mod 512) + n div 512 div 512 mod 512"
      by (rule mod_mult2_eq)
    finally show ?thesis by simp
  qed
  then show ?thesis unfolding page_number_def index_digits .
qed

lemma digit_512:
  assumes "a + 512 * x = b + 512 * y" "a < 512" "b < (512 :: nat)"
  shows "a = b" "x = y"
proof -
  have "(a + 512 * x) mod 512 = (b + 512 * y) mod 512" using assms(1) by simp
  then show "a = b" using assms(2,3) by simp
  then show "x = y" using assms(1) by simp
qed

lemma page_region_digits:
  "page_number v div 512 = extract_page_directory_index v +
     512 * (extract_page_directory_pointer_table_index v + 512 * extract_page_map_level_4_index v)"
proof -
  have "(a + 512 * x) div 512 = x" if "a < 512" for a x :: nat using that by simp
  from this [OF index_bounds(4) [of v]] show ?thesis by (simp only: page_number_digits)
qed

lemma table_indices_eq_iff: "table_indices va = table_indices vb \<longleftrightarrow> page_number va div 512 = page_number vb div 512"
proof
  note b = index_bounds [of va] index_bounds [of vb]
  assume "page_number va div 512 = page_number vb div 512"
  note e1 = this [unfolded page_region_digits]
  note e2 = digit_512(2) [OF e1 b(3,7)]
  show "table_indices va = table_indices vb"
    using digit_512(1) [OF e1 b(3,7)] digit_512(1) [OF e2 b(2,6)] digit_512(2) [OF e2 b(2,6)]
    by (simp add: table_indices_def)
next
  assume "table_indices va = table_indices vb"
  then show "page_number va div 512 = page_number vb div 512"
    by (simp add: page_region_digits table_indices_def)
qed

lemma page_number_eq_iff:
  "page_number va = page_number vb \<longleftrightarrow>
     table_indices va = table_indices vb \<and> extract_page_table_index va = extract_page_table_index vb"
proof
  assume eq: "page_number va = page_number vb"
  have "extract_page_table_index va = extract_page_table_index vb"
    using digit_512(1) [OF eq [unfolded page_number_digits]] index_bounds(4) by blast
  with eq show "table_indices va = table_indices vb \<and> extract_page_table_index va = extract_page_table_index vb"
    by (simp add: table_indices_eq_iff)
qed (simp add: page_number_digits table_indices_def)

section \<open>Adding tables\<close>

text \<open>
  A state extends another when it keeps the tables in use, keeps the leaf tables as they are and adds
  no root, and its new leaf tables are empty. Extensions do not change any translation.
\<close>

definition paging_extends :: "PagingStatics \<Rightarrow> table_paths \<Rightarrow> PagingStatics \<Rightarrow> table_paths \<Rightarrow> bool" where
  "paging_extends st P st' P' \<longleftrightarrow>
     (\<forall>x p. P x = Some p \<longrightarrow> P' x = Some p) \<and>
     (\<forall>x r js. P' x = Some (r, js) \<and> length js = 3 \<longrightarrow>
        table_entries st' x = (if P x = None then page_table_new else table_entries st x)) \<and>
     (\<forall>x. P' x = Some (x, []) \<longrightarrow> P x = Some (x, []))"

lemma paging_extendsD:
  assumes "paging_extends st P st' P'"
  shows extends_keep: "P x = Some p \<Longrightarrow> P' x = Some p"
    and extends_leaf: "P' x = Some (r, js) \<Longrightarrow> length js = 3 \<Longrightarrow>
        table_entries st' x = (if P x = None then page_table_new else table_entries st x)"
    and extends_root: "P' x = Some (x, []) \<Longrightarrow> P x = Some (x, [])"
proof -
  note w = assms [unfolded paging_extends_def]
  show "P' x = Some p" if "P x = Some p" using w [THEN conjunct1] that by blast
  show "table_entries st' x = (if P x = None then page_table_new else table_entries st x)"
    if "P' x = Some (r, js)" "length js = 3" using w [THEN conjunct2, THEN conjunct1] that by blast
  show "P x = Some (x, [])" if "P' x = Some (x, [])" using w [THEN conjunct2, THEN conjunct2] that by blast
qed

lemma paging_extends_refl: "paging_extends st P st P"
  by (auto simp: paging_extends_def)

lemma paging_extends_trans:
  assumes "paging_extends st P st1 P1" "paging_extends st1 P1 st2 P2"
  shows "paging_extends st P st2 P2"
  unfolding paging_extends_def
proof (intro conjI allI impI; (elim conjE)?)
  fix x r js assume x: "P2 x = Some (r, js)" "length js = 3"
  note e2 = extends_leaf [OF assms(2) x]
  show "table_entries st2 x = (if P x = None then page_table_new else table_entries st x)"
  proof (cases "P1 x")
    case None
    then have "P x = None" using extends_keep [OF assms(1), of x] by (cases "P x") auto
    with None e2 show ?thesis by simp
  next
    case (Some p)
    then have "P1 x = Some (r, js)" using extends_keep [OF assms(2) Some] x(1) by simp
    from extends_leaf [OF assms(1) this x(2)] Some e2 show ?thesis by simp
  qed
next
  fix x p assume "P x = Some p"
  then show "P2 x = Some p" by (intro extends_keep [OF assms(2)] extends_keep [OF assms(1)])
next
  fix x assume "P2 x = Some (x, [])"
  then show "P x = Some (x, [])" by (intro extends_root [OF assms(1)] extends_root [OF assms(2)])
qed

lemma page_table_new_nth [simp]: "i < 512 \<Longrightarrow> page_table_new ! i = 0"
  by (simp add: page_table_new_def)

lemma translate_extends:
  assumes "link_ok lk" "paging_wf lk st P" "paging_wf lk st' P'" "paging_extends st P st' P'" "P root = Some (root, [])"
  shows "translate lk st' root va = translate lk st root va"
proof -
  have root': "P' root = Some (root, [])" by (rule extends_keep [OF assms(4,5)])
  have len: "length (table_indices va) = 3" by (simp add: table_indices_def)
  have "translate lk st' root va = Some e \<longleftrightarrow> translate lk st root va = Some e" for e
    unfolding translate_iff [OF assms(1,2,5)] translate_iff [OF assms(1,3) root']
  proof (intro iffI conjI; elim conjE exE)
    fix t assume t: "P' t = Some (root, table_indices va)" "table_entries st' t ! extract_page_table_index va = e" "e \<noteq> 0"
    note e = extends_leaf [OF assms(4) t(1) len]
    then have "P t \<noteq> None" using t(2,3) index_bounds(4) [of va] by (auto split: if_splits)
    then obtain p where p: "P t = Some p" by blast
    then have "P t = Some (root, table_indices va)" using extends_keep [OF assms(4) p] t(1) by simp
    with e t(2) show "\<exists>t. P t = Some (root, table_indices va) \<and> table_entries st t ! extract_page_table_index va = e"
      by (intro exI [of _ t]) simp
  next
    fix t assume t: "P t = Some (root, table_indices va)" "table_entries st t ! extract_page_table_index va = e"
    note p = extends_keep [OF assms(4) t(1)]
    have "table_entries st' t = table_entries st t" using extends_leaf [OF assms(4) p len] t(1) by simp
    with p t(2) show "\<exists>t. P' t = Some (root, table_indices va) \<and> table_entries st' t ! extract_page_table_index va = e"
      by (intro exI [of _ t]) simp
  qed
  then show ?thesis by (metis option.exhaust)
qed

text \<open>Linking the next table of the bootstrap pool into an empty entry.\<close>

definition link_child :: "PagingStatics \<Rightarrow> table_ref \<Rightarrow> nat \<Rightarrow> page_entry \<Rightarrow> PagingStatics" where
  "link_child st t i e = write_table_entry (st\<lparr>next_bootstrap_index := Suc (next_bootstrap_index st)\<rparr>) t i e"

lemma link_child_simps:
  assumes "paging_wf lk st P" "P t = Some p"
  shows "table_entries (link_child st t i e) u = (if u = t then (table_entries st t)[i := e] else table_entries st u)"
    and "next_bootstrap_index (link_child st t i e) = Suc (next_bootstrap_index st)"
    and "next_direct_map_index (link_child st t i e) = next_direct_map_index st"
proof -
  have "sizes_ok (st\<lparr>next_bootstrap_index := 0\<rparr>)"
    using wf_sizes [OF assms(1)] by (simp add: sizes_ok_def)
  have v: "valid_table t" using wf_valid [OF assms] by blast
  show "table_entries (link_child st t i e) u = (if u = t then (table_entries st t)[i := e] else table_entries st u)"
    using wf_sizes [OF assms(1)] v by (cases t; cases u) (auto simp: link_child_def sizes_ok_def)
qed (simp_all add: link_child_def)

lemma fresh_table:
  assumes "paging_wf lk st P" "next_bootstrap_index st < 32"
  shows "P (BootstrapTable (next_bootstrap_index st)) = None"
    and "table_entries st (BootstrapTable (next_bootstrap_index st)) = page_table_new"
proof -
  let ?c = "BootstrapTable (next_bootstrap_index st)"
  have u: "\<not> table_in_use st ?c" "valid_table ?c" using assms(2) by simp_all
  show "P ?c = None" using wf_dom [OF assms(1), of ?c] u by blast
  show "table_entries st ?c = page_table_new" by (rule wf_unused [OF assms(1) u(2,1)])
qed

lemma sizes_ok_link_child:
  assumes "paging_wf lk st P" "P t = Some p" "next_bootstrap_index st < 32"
  shows "sizes_ok (link_child st t i e)"
proof -
  have "sizes_ok (st\<lparr>next_bootstrap_index := Suc (next_bootstrap_index st)\<rparr>)"
    using wf_sizes [OF assms(1)] assms(3) by (simp add: sizes_ok_def)
  then show ?thesis unfolding link_child_def
    by (rule sizes_ok_write) (use wf_valid [OF assms(1,2)] in blast)
qed

lemma link_child_wf:
  fixes st t i e
  defines "c \<equiv> BootstrapTable (next_bootstrap_index st)"
  assumes "paging_wf lk st P" "P t = Some (r, js)" "length js < 3" "i < 512"
    and "table_entries st t ! i = 0" "next_bootstrap_index st < 32"
    and "e \<noteq> 0" "\<not> is_huge e" "entry_addr e = Some (table_frame lk c)"
  shows "paging_wf lk (link_child st t i e) (P(c \<mapsto> (r, js @ [i])))"
proof -
  let ?st = "link_child st t i e" and ?P = "P(c \<mapsto> (r, js @ [i]))"
  note wf = assms(2)
  note ent = link_child_simps [OF wf assms(3)]
  have c: "P c = None" "table_entries st c = page_table_new" "valid_table c"
    using fresh_table [OF wf assms(7)] assms(7) by (simp_all add: c_def)
  have ct: "c \<noteq> t" using c(1) assms(3) by auto
  have old: "x \<noteq> c" if "P x = Some p" for x p using that c(1) by auto
  have len: "i < length (table_entries st t)"
    using wf_sizes [OF wf] wf_valid [OF wf assms(3)] assms(5) by (simp add: sizes_ok_def)
  have same: "table_entries ?st x ! k = table_entries st x ! k" if "x \<noteq> t \<or> k \<noteq> i" for x k
    using that by (auto simp: ent)
  have links: "links_to lk ?st x k d" if "links_to lk st x k d" for x k d
    using that same [of x k] assms(6) by (cases "x = t \<and> k = i") (auto simp: links_to_def)
  have link: "links_to lk ?st t i c" using assms(8-10) len by (simp add: links_to_def ent)
  have use: "table_in_use ?st x \<longleftrightarrow> table_in_use st x \<or> x = c" for x
    by (cases x) (auto simp: ent c_def)
  show ?thesis
    unfolding paging_wf_def
  proof (intro conjI allI impI)
    show "sizes_ok ?st" by (rule sizes_ok_link_child [OF wf assms(3,7)])
    show "?P x \<noteq> None \<longleftrightarrow> valid_table x \<and> table_in_use ?st x" for x
      using wf_dom [OF wf, of x] c(3) by (cases "x = c") (simp_all add: use)
    show "table_entries ?st x = page_table_new" if "valid_table x \<and> \<not> table_in_use ?st x" for x
    proof -
      have "\<not> table_in_use st x" "x \<noteq> t" using that wf_valid [OF wf assms(3)] by (auto simp: use)
      then show ?thesis using wf_unused [OF wf, of x] that by (simp add: ent)
    qed
    show "?P KernelPml4 = Some (KernelPml4, [])" using wf_kernel [OF wf] by (simp add: c_def)
    show "i' < 512" "\<exists>u. ?P u = Some (r', js') \<and> links_to lk ?st u i' x" if "?P x = Some (r', js' @ [i'])" for x r' js' i'
    proof -
      have "i' < 512 \<and> (\<exists>u. ?P u = Some (r', js') \<and> links_to lk ?st u i' x)"
      proof (cases "x = c")
        case True
        then show ?thesis using that assms(3,5) link ct by (auto intro!: exI [of _ t])
      next
        case False
        then have "P x = Some (r', js' @ [i'])" using that by simp
        from wf_parent [OF wf this] obtain u where "i' < 512" "P u = Some (r', js')" "links_to lk st u i' x" by blast
        moreover have "u \<noteq> c" using old calculation(2) by blast
        ultimately show ?thesis using links by (intro conjI exI [of _ u]) simp_all
      qed
      then show "i' < 512" "\<exists>u. ?P u = Some (r', js') \<and> links_to lk ?st u i' x" by blast+
    qed
    show "huge_leaf ?st x js' i' \<or> (\<exists>d. ?P d = Some (r', js' @ [i']) \<and> links_to lk ?st x i' d)"
      if "?P x = Some (r', js') \<and> length js' < 3 \<and> i' < 512 \<and> table_entries ?st x ! i' \<noteq> 0" for x r' js' i'
    proof (cases "x = t \<and> i' = i")
      case True
      then have "r' = r" "js' = js" using that assms(3) ct by auto
      then show ?thesis using True link by (auto intro!: exI [of _ c])
    next
      case False
      then have e: "table_entries ?st x ! i' = table_entries st x ! i'" using same by blast
      have "x \<noteq> c"
      proof
        assume "x = c"
        then have "table_entries ?st x ! i' = 0" using c(2) that ct by (simp add: ent)
        then show False using that by simp
      qed
      then have p: "P x = Some (r', js')" using that by simp
      from wf_child [OF wf p] that e
      have "huge_leaf st x js' i' \<or> (\<exists>d. P d = Some (r', js' @ [i']) \<and> links_to lk st x i' d)" by simp
      then show ?thesis
      proof
        assume "huge_leaf st x js' i'" then show ?thesis using e by (simp add: huge_leaf_def)
      next
        assume "\<exists>d. P d = Some (r', js' @ [i']) \<and> links_to lk st x i' d"
        then show ?thesis using links old by (metis fun_upd_apply)
      qed
    qed
    fix x r' js'
    assume x: "?P x = Some (r', js')"
    have "length js' \<le> 3 \<and> ?P r' = Some (r', []) \<and> (js' = [] \<longrightarrow> x = r')"
      using x wf_path [OF wf, of x r' js'] wf_path [OF wf assms(3)] assms(4) old
      by (auto split: if_splits)
    then show "length js' \<le> 3" "?P r' = Some (r', [])" "js' = [] \<Longrightarrow> x = r'" by blast+
  qed (use wf_direct [OF wf] in \<open>auto simp: c_def\<close>)
qed

lemma link_child_extends:
  assumes "paging_wf lk st P" "P t = Some (r, js)" "length js < 3" "next_bootstrap_index st < 32"
  shows "paging_extends st P (link_child st t i e) (P(BootstrapTable (next_bootstrap_index st) \<mapsto> (r, js @ [i])))"
proof -
  let ?c = "BootstrapTable (next_bootstrap_index st)"
  note f = fresh_table [OF assms(1,4)]
  show ?thesis
    unfolding paging_extends_def
  proof (intro conjI allI impI; (elim conjE)?)
    fix x p assume "P x = Some p"
    then show "(P(?c \<mapsto> (r, js @ [i]))) x = Some p" using f(1) by auto
  next
    fix x r' js'
    assume x: "(P(?c \<mapsto> (r, js @ [i]))) x = Some (r', js')" "length js' = 3"
    then have "x \<noteq> t" using assms(2,3) f(1) by (auto split: if_splits)
    then show "table_entries (link_child st t i e) x = (if P x = None then page_table_new else table_entries st x)"
      using x f unfolding link_child_simps [OF assms(1,2)] by (cases "x = ?c") auto
  next
    fix x assume "(P(?c \<mapsto> (r, js @ [i]))) x = Some (x, [])"
    then show "P x = Some (x, [])" by (auto split: if_splits)
  qed
qed

text \<open>A linked table lengthens exactly the paths that lead through its entry, by the flags of that entry.\<close>

lemma path_flags_empty:
  assumes "table_entries st c = page_table_new" "list_all (\<lambda>i. i < 512) ks"
  shows "path_flags lk st c ks = []"
  using assms by (cases ks) (simp_all add: child_table_def)

lemma link_child_path_flags:
  fixes st t i e
  defines "c \<equiv> BootstrapTable (next_bootstrap_index st)"
  assumes "link_ok lk" "paging_wf lk st P" "P t = Some (r, js)" "length js < 3" "i < 512"
    and "table_entries st t ! i = 0" "next_bootstrap_index st < 32"
    and "e \<noteq> 0" "\<not> is_huge e" "entry_addr e = Some (table_frame lk c)"
  shows "P x = Some (q, ps) \<Longrightarrow> length ps + length ks \<le> 3 \<Longrightarrow> list_all (\<lambda>k. k < 512) ks \<Longrightarrow>
    path_flags lk (link_child st t i e) x ks = path_flags lk st x ks @
      (if q = r \<and> length ps \<le> length js \<and> (\<exists>zs. ps @ ks = js @ i # zs) then [entry_flags e] else [])"
proof (induction ks arbitrary: x ps)
  case Nil
  then show ?case by auto
next
  case (Cons k ks)
  let ?st = "link_child st t i e"
  note wf = assms(3)
  note ent = link_child_simps [OF wf assms(4)]
  have c: "P c = None" "table_entries st c = page_table_new" "valid_table c"
    using fresh_table [OF wf assms(8)] assms(8) by (simp_all add: c_def)
  have k: "length ps < 3" "k < 512" using Cons.prems by auto
  show ?case
  proof (cases "x = t \<and> k = i")
    case True
    then have q: "q = r" "ps = js" using Cons.prems(1) assms(4) by simp_all
    have len: "i < length (table_entries st t)"
      using wf_sizes [OF wf] wf_valid [OF wf assms(4)] assms(6) by (simp add: sizes_ok_def)
    have "links_to lk ?st t i c" using assms(9-11) len by (simp add: links_to_def ent)
    then have "child_table lk ?st t i = Some c" by (rule child_table_links [OF assms(2) c(3)])
    moreover have "path_flags lk ?st c ks = []"
      using c(1,2) assms(4) Cons.prems(3) by (intro path_flags_empty) (auto simp: ent)
    moreover have "table_entries ?st t ! i = e" using len by (simp add: ent)
    moreover have "child_table lk st t i = None" using assms(7) by (simp add: child_table_def)
    ultimately show ?thesis using True q by simp
  next
    case other: False
    then have e: "table_entries ?st x ! k = table_entries st x ! k" by (auto simp: ent)
    then have ch: "child_table lk ?st x k = child_table lk st x k" by (simp add: child_table_def)
    note chi = child_table_iff [OF assms(2) wf Cons.prems(1) k]
    have strict: "length ps < length js"
      if on: "q = r \<and> length ps \<le> length js \<and> (\<exists>zs. ps @ k # ks = js @ i # zs)"
    proof (rule ccontr)
      assume "\<not> length ps < length js"
      then have "ps = js \<and> k = i" using on by (auto simp: append_eq_append_conv)
      then show False using other paths_inj [OF assms(2) wf Cons.prems(1)] assms(4) on by blast
    qed
    show ?thesis
    proof (cases "child_table lk st x k")
      case None
      have "\<not> (q = r \<and> length ps \<le> length js \<and> (\<exists>zs. ps @ k # ks = js @ i # zs))"
      proof
        assume on: "q = r \<and> length ps \<le> length js \<and> (\<exists>zs. ps @ k # ks = js @ i # zs)"
        then obtain zs where z: "(ps @ [k]) @ ks = js @ i # zs" by auto
        have "\<exists>us. js = (ps @ [k]) @ us"
          using z strict [OF on] by (auto simp: append_eq_append_conv2 Cons_eq_append_conv)
        then obtain us where "js = (ps @ [k]) @ us" ..
        then have "\<exists>d. P d = Some (q, ps @ [k])" using path_prefix [OF wf, of t r "ps @ [k]" us] assms(4) on by simp
        then show False using chi None by simp
      qed
      then show ?thesis using None ch by simp
    next
      case (Some d)
      then have d: "P d = Some (q, ps @ [k])" using chi by simp
      have l: "length (ps @ [k]) + length ks \<le> 3" "list_all (\<lambda>k. k < 512) ks" using Cons.prems(2,3) by simp_all
      have "(q = r \<and> length (ps @ [k]) \<le> length js \<and> (\<exists>zs. (ps @ [k]) @ ks = js @ i # zs)) \<longleftrightarrow>
          (q = r \<and> length ps \<le> length js \<and> (\<exists>zs. ps @ k # ks = js @ i # zs))"
        using strict by auto
      then show ?thesis using Cons.IH [OF d l] Some ch e by simp
    qed
  qed
qed

text \<open>
  \<open>paths_grow\<close>: mapping an address of \<open>root\<close> only appends entries with the given flags to paths of that root
  that share its top-level entry.
\<close>

definition paths_grow :: "link_addresses \<Rightarrow> table_paths \<Rightarrow> PagingStatics \<Rightarrow> PagingStatics \<Rightarrow> table_ref \<Rightarrow> u64 \<Rightarrow>
    page_flags \<Rightarrow> bool" where
  "paths_grow lk P st st' root va fl \<longleftrightarrow> (\<forall>r vb. P r = Some (r, []) \<longrightarrow>
     (\<exists>n. path_flags lk st' r (table_indices vb) = path_flags lk st r (table_indices vb) @ replicate n fl \<and>
        (n \<noteq> 0 \<longrightarrow> r = root \<and> extract_page_map_level_4_index vb = extract_page_map_level_4_index va)))"

lemma paths_growE:
  assumes "paths_grow lk P st st' root va fl" "P r = Some (r, [])"
  obtains n where "path_flags lk st' r (table_indices vb) = path_flags lk st r (table_indices vb) @ replicate n fl"
    "n \<noteq> 0 \<Longrightarrow> r = root \<and> extract_page_map_level_4_index vb = extract_page_map_level_4_index va"
  using assms unfolding paths_grow_def by metis

lemma paths_grow_refl: "paths_grow lk P st st root va fl"
  unfolding paths_grow_def by (intro allI impI exI [of _ 0]) simp

lemma paths_grow_trans:
  assumes "paths_grow lk P st st1 root va fl" "paths_grow lk P1 st1 st2 root va fl" "\<And>x p. P x = Some p \<Longrightarrow> P1 x = Some p"
  shows "paths_grow lk P st st2 root va fl"
  unfolding paths_grow_def
proof (intro allI impI)
  fix r vb assume r: "P r = Some (r, [])"
  obtain n where n: "path_flags lk st1 r (table_indices vb) = path_flags lk st r (table_indices vb) @ replicate n fl"
    "n \<noteq> 0 \<Longrightarrow> r = root \<and> extract_page_map_level_4_index vb = extract_page_map_level_4_index va"
    by (rule paths_growE [OF assms(1) r, of vb]) (rule that)
  obtain m where m: "path_flags lk st2 r (table_indices vb) = path_flags lk st1 r (table_indices vb) @ replicate m fl"
    "m \<noteq> 0 \<Longrightarrow> r = root \<and> extract_page_map_level_4_index vb = extract_page_map_level_4_index va"
    by (rule paths_growE [OF assms(2) assms(3) [OF r], of vb]) (rule that)
  show "\<exists>n. path_flags lk st2 r (table_indices vb) = path_flags lk st r (table_indices vb) @ replicate n fl \<and>
      (n \<noteq> 0 \<longrightarrow> r = root \<and> extract_page_map_level_4_index vb = extract_page_map_level_4_index va)"
    using n m by (intro exI [of _ "n + m"]) (auto simp: replicate_add)
qed

text \<open>
  What each \<open>ensure_*_exists\<close> call does: it yields the table on the path, adding one table exactly when
  the entry is empty, and fails exactly when it would need one and the pool is used up.
\<close>

definition intermediate_flags :: "page_flags \<Rightarrow> bool" where
  "intermediate_flags fl \<longleftrightarrow> flags_ok fl \<and> (\<forall>pa. frame_ok pa \<longrightarrow> \<not> is_huge (pa OR fl))"

lemma intermediate_flags_used:
  "intermediate_flags compute_intermediate_page_table_flags"
  "intermediate_flags (compute_intermediate_flags_for_leaf fl)"
  by (simp_all add: intermediate_flags_def flags_ok_intermediate intermediate_not_huge is_huge_def)

lemma ensure_child_exists_exact:
  assumes "link_ok lk" "paging_wf lk st P" "P t = Some (r, js)" "length js < 3" "i < 512"
    and "intermediate_flags fl" "\<not> huge_leaf st t js i" "table_indices va = js @ i # ks"
  obtains (full) "\<not> (\<exists>u. P u = Some (r, table_indices va))" "next_bootstrap_index st = 32"
      "ensure_child_exists lk st t i fl = None"
  | (child) c st' P' where "ensure_child_exists lk st t i fl = Some (c, st')" "paging_wf lk st' P'"
      "paging_extends st P st' P'" "P' c = Some (r, js @ [i])"
      "next_bootstrap_index st' + length (path_flags lk st r (table_indices va)) =
         next_bootstrap_index st + length (path_flags lk st' r (table_indices va))"
      "paths_grow lk P st st' r va fl"
proof (cases "table_entries st t ! i = 0")
  case False
  from wf_child [OF assms(2-5) False] assms(7) obtain c where c: "P c = Some (r, js @ [i])" "links_to lk st t i c" by blast
  have "ensure_child_exists lk st t i fl = Some (c, st)"
    using c(2) retrieve_table_frame [OF assms(1), of c] wf_valid [OF assms(2) c(1)]
    by (simp add: ensure_child_exists_def entry_is_unused_def links_to_def)
  then show thesis using False by (intro child [OF _ assms(2) paging_extends_refl c(1)]) (simp_all add: paths_grow_refl)
next
  case True
  have no: "\<not> (\<exists>u. P u = Some (r, table_indices va))"
  proof
    assume "\<exists>u. P u = Some (r, table_indices va)"
    then obtain u where "P u = Some (r, (js @ [i]) @ ks)" using assms(8) by auto
    from path_prefix [OF assms(2) this] obtain d where "P d = Some (r, js @ [i])" ..
    then have "child_table lk st t i = Some d" using child_table_iff [OF assms(1-5)] by simp
    with True show False by (simp add: child_table_def)
  qed
  have root: "P r = Some (r, [])" using wf_path [OF assms(2,3)] by blast
  show thesis
  proof (cases "next_bootstrap_index st < 32")
    case False
    then have "next_bootstrap_index st = 32" using wf_sizes [OF assms(2)] by (simp add: sizes_ok_def)
    then show thesis using True no
      by (intro full) (simp_all add: ensure_child_exists_def entry_is_unused_def allocate_and_link_bootstrap_table_def
          allocate_bootstrap_page_table_def BOOTSTRAP_PAGE_TABLE_PAGE_COUNT_def)
  next
    case room: True
    define c where "c = BootstrapTable (next_bootstrap_index st)"
    define e where "e = table_frame lk c OR fl"
    have v: "valid_table c" using room by (simp add: c_def)
    note fr = table_frame_ok [OF assms(1) v]
    have fl: "flags_ok fl" "\<not> is_huge e" using assms(6) fr(1) by (simp_all add: intermediate_flags_def e_def)
    note en = entry_of_frame [OF fr(1) fl(1)]
    have "ensure_child_exists lk st t i fl = Some (c, link_child st t i e)"
      using True room fr(2) en(1)
      by (simp add: ensure_child_exists_def entry_is_unused_def allocate_and_link_bootstrap_table_def
          allocate_bootstrap_page_table_def BOOTSTRAP_PAGE_TABLE_PAGE_COUNT_def c_def e_def link_child_def Let_def)
    moreover have "paging_wf lk (link_child st t i e) (P(c \<mapsto> (r, js @ [i])))"
      unfolding c_def by (rule link_child_wf [OF assms(2-5) True room _ fl(2)]) (use en(2,4) in \<open>simp_all add: e_def c_def\<close>)
    moreover have "paging_extends st P (link_child st t i e) (P(c \<mapsto> (r, js @ [i])))"
      unfolding c_def by (rule link_child_extends [OF assms(2-4) room])
    moreover have grow: "path_flags lk (link_child st t i e) q (table_indices vb) = path_flags lk st q (table_indices vb) @
        (if q = r \<and> (\<exists>zs. table_indices vb = js @ i # zs) then [fl] else [])" if "P q = Some (q, [])" for q vb
    proof -
      have l: "length ([] :: nat list) + length (table_indices vb) \<le> 3" "list_all (\<lambda>i. i < 512) (table_indices vb)"
        by (simp_all add: table_indices_def index_bounds)
      have "entry_addr e = Some (table_frame lk (BootstrapTable (next_bootstrap_index st)))" "e \<noteq> 0" "entry_flags e = fl"
        using en(2-4) by (simp_all add: e_def c_def)
      with link_child_path_flags [OF assms(1-5) True room this(2) fl(2) this(1) that l] show ?thesis by simp
    qed
    moreover have "paths_grow lk P st (link_child st t i e) r va fl"
      unfolding paths_grow_def
    proof (intro allI impI)
      fix q vb assume q: "P q = Some (q, [])"
      have "hd (table_indices vb) = hd (table_indices va)" if "table_indices vb = js @ i # zs" for zs
        unfolding that assms(8) by (simp add: hd_append)
      then have h: "extract_page_map_level_4_index vb = extract_page_map_level_4_index va"
        if "\<exists>zs. table_indices vb = js @ i # zs" using that by (metis table_indices_def list.sel(1))
      show "\<exists>n. path_flags lk (link_child st t i e) q (table_indices vb) = path_flags lk st q (table_indices vb) @ replicate n fl \<and>
          (n \<noteq> 0 \<longrightarrow> q = r \<and> extract_page_map_level_4_index vb = extract_page_map_level_4_index va)"
        unfolding grow [OF q]
        by (rule exI [of _ "if q = r \<and> (\<exists>zs. table_indices vb = js @ i # zs) then 1 else 0"]) (use h in auto)
    qed
    moreover have "next_bootstrap_index (link_child st t i e) + length (path_flags lk st r (table_indices va)) =
        next_bootstrap_index st + length (path_flags lk (link_child st t i e) r (table_indices va))"
      unfolding grow [OF root] using assms(8) by (simp add: link_child_simps [OF assms(2,3)])
    ultimately show thesis by (intro child [of c "link_child st t i e" "P(c \<mapsto> (r, js @ [i]))"]) simp_all
  qed
qed

lemma no_huge_on_path:
  assumes "paging_wf lk st P" "P t = Some (root, i4 # js)" "root = KernelPml4 \<longrightarrow> i4 \<noteq> DIRECT_MAP_SLOT"
  shows "\<not> huge_leaf st t (i4 # js) i"
proof
  assume "huge_leaf st t (i4 # js) i"
  then obtain k where "t = DirectMapTable k" by (auto simp: huge_leaf_def)
  with wf_direct [OF assms(1), of k root "i4 # js"] assms(2,3) show False by simp
qed

lemmas resolve_defs = resolve_page_table_for_address_def resolve_page_directory_for_address_def
  ensure_page_directory_pointer_table_exists_def ensure_page_directory_exists_def ensure_page_table_exists_def

text \<open>The whole walk to the page table of an address: it follows the tables that exist and adds the others.\<close>

lemma ensure_child_follows:
  assumes "link_ok lk" "paging_wf lk st P" "P t = Some (r, js)" "P c = Some (r, js @ [i])"
  shows "ensure_child_exists lk st t i fl = Some (c, st)"
proof -
  from wf_parent [OF assms(2,4)] obtain u where u: "P u = Some (r, js)" "links_to lk st u i c" by blast
  have "u = t" using paths_inj [OF assms(1,2) u(1) assms(3)] .
  then show ?thesis
    using u(2) retrieve_table_frame [OF assms(1), of c] wf_valid [OF assms(2,4)]
    by (simp add: ensure_child_exists_def entry_is_unused_def links_to_def)
qed

lemma resolve_page_table_follows:
  assumes "link_ok lk" "paging_wf lk st P" "P root = Some (root, [])" "P t = Some (root, table_indices va)"
  shows "resolve_page_table_for_address lk st root va fl = Some ((t, extract_page_table_index va), st)"
proof -
  let ?i4 = "extract_page_map_level_4_index va" and ?i3 = "extract_page_directory_pointer_table_index va"
    and ?i2 = "extract_page_directory_index va"
  have t: "P t = Some (root, (([] @ [?i4]) @ [?i3]) @ [?i2])" using assms(4) by (simp add: table_indices_def)
  from wf_parent [OF assms(2) t] obtain t2 where t2: "P t2 = Some (root, ([] @ [?i4]) @ [?i3])" by blast
  from wf_parent [OF assms(2) t2] obtain t3 where t3: "P t3 = Some (root, [] @ [?i4])" by blast
  note f = ensure_child_follows [OF assms(1,2)]
  show ?thesis using f [OF assms(3) t3] f [OF t3 t2] f [OF t2 t] by (simp add: resolve_defs)
qed

lemma resolve_page_table_exact:
  assumes "link_ok lk" "paging_wf lk st P" "P root = Some (root, [])" "intermediate_flags fl"
    and "root = KernelPml4 \<longrightarrow> extract_page_map_level_4_index va \<noteq> DIRECT_MAP_SLOT"
  obtains (full) "32 < next_bootstrap_index st + missing_tables lk st root va"
      "resolve_page_table_for_address lk st root va fl = None"
      "\<not> (\<exists>t. P t = Some (root, table_indices va))"
  | (table) t st' P' where
      "resolve_page_table_for_address lk st root va fl = Some ((t, extract_page_table_index va), st')"
      "paging_wf lk st' P'" "paging_extends st P st' P'" "P' t = Some (root, table_indices va)"
      "next_bootstrap_index st' = next_bootstrap_index st + missing_tables lk st root va"
      "paths_grow lk P st st' root va fl"
proof (cases "\<exists>t. P t = Some (root, table_indices va)")
  case True
  then obtain t where t: "P t = Some (root, table_indices va)" by blast
  show thesis
    by (rule that(2) [OF resolve_page_table_follows [OF assms(1-3) t] assms(2) paging_extends_refl t _ paths_grow_refl])
      (use True path_flags_complete [OF assms(1-3), of va] in \<open>simp add: missing_tables_def\<close>)
next
  case new: False
  let ?i4 = "extract_page_map_level_4_index va" and ?i3 = "extract_page_directory_pointer_table_index va"
    and ?i2 = "extract_page_directory_index va"
  let ?len = "\<lambda>st. length (path_flags lk st root (table_indices va))"
  note ix = index_bounds [of va]
  have h4: "\<not> huge_leaf st root [] ?i4" by (simp add: huge_leaf_def)
  have l0: "length ([] :: nat list) < 3" by simp
  have t0: "table_indices va = [] @ ?i4 # [?i3, ?i2]" by (simp add: table_indices_def)
  have stop: thesis if "resolve_page_table_for_address lk st root va fl = None" "next_bootstrap_index sk = 32"
    "next_bootstrap_index sk + ?len st = next_bootstrap_index st + ?len sk" "?len sk < 3" for sk
    using that path_flags_complete(2) [OF assms(1-3), of va] new by (intro full) (simp_all add: missing_tables_def)
  have short: "?len sk < 3" if "paging_wf lk sk Pk" "Pk root = Some (root, [])"
    "\<not> (\<exists>u. Pk u = Some (root, table_indices va))" for sk Pk
    using path_flags_complete [OF assms(1) that(1,2), of va] that(3) by (simp add: le_less)
  show thesis
  proof (cases rule: ensure_child_exists_exact [OF assms(1-3) l0 ix(1) assms(4) h4 t0, case_names full child])
    case full
    then show thesis by (intro stop [of st] short [OF assms(2,3)]) (simp_all add: resolve_defs)
  next
    case c3: (child t3 st3 P3)
    note r3 = extends_keep [OF c3(3) assms(3)]
    have h3: "\<not> huge_leaf st3 t3 ([] @ [?i4]) ?i3" by (simp add: huge_leaf_def)
    have l1: "length ([] @ [?i4]) < 3" by simp
    have t1: "table_indices va = ([] @ [?i4]) @ ?i3 # [?i2]" by (simp add: table_indices_def)
    show thesis
    proof (cases rule: ensure_child_exists_exact [OF assms(1) c3(2,4) l1 ix(2) assms(4) h3 t1, case_names full child])
      case full
      then show thesis using c3(1,5) by (intro stop [of st3] short [OF c3(2) r3]) (simp_all add: resolve_defs)
    next
      case c2: (child t2 st2 P2)
      note r2 = extends_keep [OF c2(3) r3]
      have h2: "\<not> huge_leaf st2 t2 (([] @ [?i4]) @ [?i3]) ?i2"
        using no_huge_on_path [OF c2(2) _ assms(5), of t2 "[?i3]"] c2(4) by simp
      have l2: "length (([] @ [?i4]) @ [?i3]) < 3" by simp
      have t2: "table_indices va = (([] @ [?i4]) @ [?i3]) @ ?i2 # []" by (simp add: table_indices_def)
      show thesis
      proof (cases rule: ensure_child_exists_exact [OF assms(1) c2(2,4) l2 ix(3) assms(4) h2 t2, case_names full child])
        case full
        then show thesis using c3(1,5) c2(1,5) by (intro stop [of st2] short [OF c2(2) r2]) (simp_all add: resolve_defs)
      next
        case c1: (child t1 st1 P1)
        have leaf: "P1 t1 = Some (root, table_indices va)" using c1(4) by (simp add: table_indices_def)
        show thesis
        proof (rule that(2))
          show "resolve_page_table_for_address lk st root va fl = Some ((t1, extract_page_table_index va), st1)"
            using c3(1) c2(1) c1(1) by (simp add: resolve_defs)
          show "paging_extends st P st1 P1"
            by (rule paging_extends_trans [OF c3(3) paging_extends_trans [OF c2(3) c1(3)]])
          show "P1 t1 = Some (root, table_indices va)" by (rule leaf)
          have "?len st1 = 3"
            using path_flags_complete(1) [OF assms(1) c1(2) extends_keep [OF c1(3) r2]] leaf by blast
          then show "next_bootstrap_index st1 = next_bootstrap_index st + missing_tables lk st root va"
            using c3(5) c2(5) c1(5) path_flags_complete(2) [OF assms(1-3), of va] by (simp add: missing_tables_def)
          show "paths_grow lk P st st1 root va fl"
            by (rule paths_grow_trans [OF c3(6) paths_grow_trans [OF c2(6) c1(6) extends_keep [OF c2(3)]] extends_keep [OF c3(3)]])
        qed (rule c1(2))
      qed
    qed
  qed
qed

section \<open>Writing a leaf\<close>

lemma leaf_write_wf:
  assumes "paging_wf lk st P" "P t = Some (r, js)" "length js = 3"
  shows "paging_wf lk (write_table_entry st t i e) P"
proof -
  let ?st = "write_table_entry st t i e"
  note wf = assms(1)
  have v: "valid_table t" using wf_valid [OF wf assms(2)] by blast
  note ent = table_entries_write [OF wf_sizes [OF wf] v]
  have same: "table_entries ?st x = table_entries st x" if "P x = Some (r', js')" "length js' < 3" for x r' js'
    using that assms(2,3) by (auto simp: ent)
  have use: "table_in_use ?st x = table_in_use st x" for x by (cases x) simp_all
  show ?thesis
    unfolding paging_wf_def
  proof (intro conjI allI impI)
    show "sizes_ok ?st" by (rule sizes_ok_write [OF wf_sizes [OF wf] v])
    show "P x \<noteq> None \<longleftrightarrow> valid_table x \<and> table_in_use ?st x" for x unfolding use by (rule wf_dom [OF wf])
    show "table_entries ?st x = page_table_new" if "valid_table x \<and> \<not> table_in_use ?st x" for x
    proof -
      have "x \<noteq> t" using that wf_valid [OF wf assms(2)] by (auto simp: use)
      then show ?thesis using wf_unused [OF wf, of x] that by (simp add: ent use)
    qed
    show "P KernelPml4 = Some (KernelPml4, [])" by (rule wf_kernel [OF wf])
    show "i' < 512" "\<exists>u. P u = Some (r', js') \<and> links_to lk ?st u i' x" if x: "P x = Some (r', js' @ [i'])" for x r' js' i'
    proof -
      from wf_parent [OF wf x] obtain u where u: "i' < 512" "P u = Some (r', js')" "links_to lk st u i' x" by blast
      have "length js' < 3" using wf_path [OF wf x] by simp
      from same [OF u(2) this] u show "i' < 512" "\<exists>u. P u = Some (r', js') \<and> links_to lk ?st u i' x"
        by (auto simp: links_to_def)
    qed
    show "huge_leaf ?st x js' i' \<or> (\<exists>d. P d = Some (r', js' @ [i']) \<and> links_to lk ?st x i' d)"
      if x: "P x = Some (r', js') \<and> length js' < 3 \<and> i' < 512 \<and> table_entries ?st x ! i' \<noteq> 0" for x r' js' i'
    proof -
      have e: "table_entries ?st x = table_entries st x" using same x by blast
      from wf_child [OF wf, of x r' js' i'] x e show ?thesis by (simp add: huge_leaf_def links_to_def)
    qed
    show "length js' \<le> 3" "P r' = Some (r', [])" "js' = [] \<Longrightarrow> x = r'" if "P x = Some (r', js')" for x r' js'
      using wf_path [OF wf that] by blast+
    show "r' = KernelPml4" "\<exists>ks. js' = DIRECT_MAP_SLOT # ks" if "P (DirectMapTable k) = Some (r', js')" for k r' js'
      using wf_direct [OF wf that] by blast+
  qed
qed

lemma leaf_write_path_flags:
  assumes "link_ok lk" "paging_wf lk st P" "P t = Some (r, js)" "length js = 3"
  shows "P x = Some (q, ps) \<Longrightarrow> length ps + length ks \<le> 3 \<Longrightarrow> list_all (\<lambda>k. k < 512) ks \<Longrightarrow>
    path_flags lk (write_table_entry st t i e) x ks = path_flags lk st x ks"
proof (induction ks arbitrary: x ps)
  case (Cons k ks)
  have v: "valid_table t" using wf_valid [OF assms(2,3)] by blast
  have "x \<noteq> t" using Cons.prems(1,2) assms(3,4) by auto
  then have e: "table_entries (write_table_entry st t i e) x = table_entries st x"
    using table_entries_write [OF wf_sizes [OF assms(2)] v] by simp
  have k: "length ps < 3" "k < 512" using Cons.prems by auto
  note chi = child_table_iff [OF assms(1,2) Cons.prems(1) k]
  have l: "length (ps @ [k]) + length ks \<le> 3" "list_all (\<lambda>k. k < 512) ks" using Cons.prems(2,3) by simp_all
  have "child_table lk (write_table_entry st t i e) x k = child_table lk st x k" by (simp add: child_table_def e)
  moreover have "path_flags lk (write_table_entry st t i e) d ks = path_flags lk st d ks" if "child_table lk st x k = Some d" for d
    by (rule Cons.IH [OF _ l]) (use chi that in blast)
  ultimately show ?case using e by (cases "child_table lk st x k") simp_all
qed simp

lemma translate_at:
  assumes "link_ok lk" "paging_wf lk st P" "P root = Some (root, [])" "P t = Some (root, table_indices va)"
  shows "translate lk st root va = (if table_entries st t ! extract_page_table_index va = 0 then None
    else Some (table_entries st t ! extract_page_table_index va))"
proof -
  have u: "(\<exists>u. P u = Some (root, table_indices va) \<and> Q u) \<longleftrightarrow> Q t" for Q
    using assms(4) paths_inj [OF assms(1,2) _ assms(4)] by blast
  note tr = translate_iff [OF assms(1-3), of va, unfolded u]
  show ?thesis
  proof (cases "translate lk st root va")
    case None
    then show ?thesis using tr [of "table_entries st t ! extract_page_table_index va"] by simp
  next
    case (Some e)
    then show ?thesis using tr [of e] by simp
  qed
qed

lemma translate_none:
  assumes "link_ok lk" "paging_wf lk st P" "P root = Some (root, [])" "\<not> (\<exists>t. P t = Some (root, table_indices va))"
  shows "translate lk st root va = None"
proof (cases "translate lk st root va")
  case (Some e)
  then show ?thesis using assms(4) translate_iff [OF assms(1-3), of va e] by blast
qed

lemma leaf_write_translate:
  assumes "link_ok lk" "paging_wf lk st P" "P t = Some (r, table_indices va)" "P root = Some (root, [])"
  shows "translate lk (write_table_entry st t (extract_page_table_index va) e) root vb =
    (if root = r \<and> page_number vb = page_number va then (if e = 0 then None else Some e)
     else translate lk st root vb)"
proof -
  let ?st = "write_table_entry st t (extract_page_table_index va) e"
  have len: "length (table_indices va) = 3" by (simp add: table_indices_def)
  note wf' = leaf_write_wf [OF assms(2,3) len, of "extract_page_table_index va" e]
  have v: "valid_table t" using wf_valid [OF assms(2,3)] by blast
  note ent = table_entries_write [OF wf_sizes [OF assms(2)] v]
  have l: "extract_page_table_index va < length (table_entries st t)"
    using wf_sizes [OF assms(2)] v index_bounds(4) [of va] by (simp add: sizes_ok_def)
  show ?thesis
  proof (cases "\<exists>u. P u = Some (root, table_indices vb)")
    case False
    then have "\<not> (root = r \<and> page_number vb = page_number va)" using assms(3) by (auto simp: page_number_eq_iff)
    then show ?thesis
      using translate_none [OF assms(1) wf' assms(4)] translate_none [OF assms(1,2,4)] False by simp
  next
    case True
    then obtain u where u: "P u = Some (root, table_indices vb)" by blast
    note at = translate_at [OF assms(1) wf' assms(4) u] translate_at [OF assms(1,2,4) u]
    show ?thesis
    proof (cases "u = t")
      case True
      then have "root = r" "table_indices vb = table_indices va" using u assms(3) by simp_all
      then show ?thesis unfolding at using l by (simp add: True ent page_number_eq_iff)
    next
      case False
      have "\<not> (root = r \<and> table_indices vb = table_indices va)"
      proof
        assume "root = r \<and> table_indices vb = table_indices va"
        then have "P t = Some (root, table_indices vb)" using assms(3) by simp
        from paths_inj [OF assms(1,2) u this] False show False by simp
      qed
      then show ?thesis unfolding at using False by (auto simp: ent page_number_eq_iff)
    qed
  qed
qed

text \<open>
  Mapping one page, on every branch: refused without effect when the flags permit writing and
  execution, failing exactly when the pool has fewer tables than the path misses, and otherwise changing the
  translation of exactly the addresses of that page in that root.
\<close>

definition maps_page :: "link_addresses \<Rightarrow> PagingStatics \<Rightarrow> table_paths \<Rightarrow> table_ref \<Rightarrow> u64 \<Rightarrow> page_entry \<Rightarrow>
    PagingStatics \<Rightarrow> table_paths \<Rightarrow> bool" where
  "maps_page lk st P root va e st' P' \<longleftrightarrow> paging_wf lk st' P' \<and>
     (\<forall>x p. P x = Some p \<longrightarrow> P' x = Some p) \<and> (\<forall>x. P' x = Some (x, []) \<longrightarrow> P x = Some (x, [])) \<and>
     next_bootstrap_index st' = next_bootstrap_index st + missing_tables lk st root va \<and>
     paths_grow lk P st st' root va (compute_intermediate_flags_for_leaf (entry_flags e)) \<and>
     (\<exists>t. P' t = Some (root, table_indices va)) \<and>
     (\<forall>r vb. P r = Some (r, []) \<longrightarrow> translate lk st' r vb =
        (if r = root \<and> page_number vb = page_number va then Some e else translate lk st r vb))"

lemma maps_pageD:
  assumes "maps_page lk st P root va e st' P'"
  shows mp_wf: "paging_wf lk st' P'"
    and mp_keep: "P x = Some p \<Longrightarrow> P' x = Some p"
    and mp_roots: "P' x = Some (x, []) \<Longrightarrow> P x = Some (x, [])"
    and mp_next: "next_bootstrap_index st' = next_bootstrap_index st + missing_tables lk st root va"
    and mp_table: "\<exists>t. P' t = Some (root, table_indices va)"
    and mp_translate: "P r = Some (r, []) \<Longrightarrow> translate lk st' r vb =
        (if r = root \<and> page_number vb = page_number va then Some e else translate lk st r vb)"
    and mp_paths: "paths_grow lk P st st' root va (compute_intermediate_flags_for_leaf (entry_flags e))"
proof -
  note w = assms [unfolded maps_page_def]
  show "paging_wf lk st' P'" "\<exists>t. P' t = Some (root, table_indices va)" using w by blast+
  show "P' x = Some p" if "P x = Some p" using w [THEN conjunct2, THEN conjunct1] that by blast
  show "P x = Some (x, [])" if "P' x = Some (x, [])"
    using w [THEN conjunct2, THEN conjunct2, THEN conjunct1] that by blast
  show "next_bootstrap_index st' = next_bootstrap_index st + missing_tables lk st root va"
    using w [THEN conjunct2, THEN conjunct2, THEN conjunct2, THEN conjunct1] .
  show "paths_grow lk P st st' root va (compute_intermediate_flags_for_leaf (entry_flags e))"
    using w [THEN conjunct2, THEN conjunct2, THEN conjunct2, THEN conjunct2, THEN conjunct1] .
  show "translate lk st' r vb =
        (if r = root \<and> page_number vb = page_number va then Some e else translate lk st r vb)"
    if "P r = Some (r, [])"
    using w [THEN conjunct2, THEN conjunct2, THEN conjunct2, THEN conjunct2, THEN conjunct2, THEN conjunct2] that by blast
qed

lemma map_single_page_exact:
  assumes "link_ok lk" "paging_wf lk st P" "P root = Some (root, [])"
    and "root = KernelPml4 \<longrightarrow> extract_page_map_level_4_index va \<noteq> DIRECT_MAP_SLOT"
    and "frame_ok pa" "flags_ok fl"
  obtains (violation) "flags_contain fl WRITABLE" "\<not> flags_contain fl NO_EXECUTE"
      "map_single_page lk st root va pa fl = Some (Err WritableAndExecutableViolation, st)"
  | (full) "\<not> (flags_contain fl WRITABLE \<and> \<not> flags_contain fl NO_EXECUTE)"
      "32 < next_bootstrap_index st + missing_tables lk st root va"
      "map_single_page lk st root va pa fl = None" "\<not> (\<exists>t. P t = Some (root, table_indices va))"
  | (mapped) st' P' where "\<not> (flags_contain fl WRITABLE \<and> \<not> flags_contain fl NO_EXECUTE)"
      "map_single_page lk st root va pa fl = Some (Ok (), st')" "maps_page lk st P root va (pa OR fl) st' P'"
proof (cases "flags_contain fl WRITABLE \<and> \<not> flags_contain fl NO_EXECUTE")
  case True
  then show thesis by (intro violation)
    (simp_all add: map_single_page_def validate_page_table_flags_enforce_write_xor_execute_def
      reject_if_both_writable_and_executable_def check_writable_flag_is_set_def check_executable_flag_is_set_def)
next
  case False
  then have ok: "validate_page_table_flags_enforce_write_xor_execute fl = Ok ()"
    by (auto simp: validate_page_table_flags_enforce_write_xor_execute_def
      reject_if_both_writable_and_executable_def check_writable_flag_is_set_def check_executable_flag_is_set_def)
  note en = entry_of_frame [OF assms(5,6)]
  show thesis
  proof (cases rule: resolve_page_table_exact
      [OF assms(1-3) intermediate_flags_used(2) [of fl] assms(4), case_names full table])
    case full
    then show thesis using False by (intro that(2)) (simp_all add: map_single_page_def ok)
  next
    case (table t st1 P1)
    let ?st = "write_table_entry st1 t (extract_page_table_index va) (pa OR fl)"
    have len: "length (table_indices va) = 3" by (simp add: table_indices_def)
    note wf' = leaf_write_wf [OF table(2,4) len, of "extract_page_table_index va" "pa OR fl"]
    have "translate lk ?st r vb =
        (if r = root \<and> page_number vb = page_number va then Some (pa OR fl) else translate lk st r vb)"
      if "P r = Some (r, [])" for r vb
      using leaf_write_translate [OF assms(1) table(2,4) extends_keep [OF table(3) that], of "pa OR fl" vb]
        translate_extends [OF assms(1,2) table(2,3) that, of vb] en(4) by simp
    note tr = this
    have paths: "path_flags lk ?st r (table_indices vb) = path_flags lk st1 r (table_indices vb)" if "P r = Some (r, [])" for r vb
    proof -
      have l: "length ([] :: nat list) + length (table_indices vb) \<le> 3" "list_all (\<lambda>i. i < 512) (table_indices vb)"
        by (simp_all add: table_indices_def index_bounds)
      show ?thesis by (rule leaf_write_path_flags [OF assms(1) table(2,4) len extends_keep [OF table(3) that] l])
    qed
    have "maps_page lk st P root va (pa OR fl) ?st P1"
      unfolding maps_page_def
    proof (intro conjI allI impI)
      show "next_bootstrap_index ?st = next_bootstrap_index st + missing_tables lk st root va" using table(5) by simp
      show "paths_grow lk P st ?st root va (compute_intermediate_flags_for_leaf (entry_flags (pa OR fl)))"
        using table(6) unfolding paths_grow_def en(3) by (simp add: paths)
      show "\<exists>t. P1 t = Some (root, table_indices va)" using table(4) by (rule exI)
    qed (rule wf' tr extends_keep [OF table(3)] extends_root [OF table(3)]; assumption)+
    moreover have "map_single_page lk st root va pa fl = Some (Ok (), ?st)"
      using table(1) en(1) by (simp add: map_single_page_def ok write_page_table_entry_def)
    ultimately show thesis using False by (intro that(3))
  qed
qed

lemma maps_page_path:
  assumes "link_ok lk" "paging_wf lk st P" "P root = Some (root, [])" "maps_page lk st P root va e st' P'"
  shows "path_flags lk st' root (table_indices va) = path_flags lk st root (table_indices va) @
    replicate (missing_tables lk st root va) (compute_intermediate_flags_for_leaf (entry_flags e))"
proof (rule paths_growE [OF mp_paths [OF assms(4)] assms(3), of va])
  fix n assume n: "path_flags lk st' root (table_indices va) = path_flags lk st root (table_indices va) @
    replicate n (compute_intermediate_flags_for_leaf (entry_flags e))"
  have "length (path_flags lk st' root (table_indices va)) = 3"
    using path_flags_complete(1) [OF assms(1) mp_wf [OF assms(4)] mp_keep [OF assms(4,3)]] mp_table [OF assms(4)] by blast
  then have "n = missing_tables lk st root va" by (simp add: n missing_tables_def)
  with n show ?thesis by simp
qed

lemma maps_page_others:
  assumes "maps_page lk st P root va e st' P'" "P r = Some (r, [])" "r \<noteq> root"
  shows "address_space lk st' r = address_space lk st r"
proof
  fix vb
  obtain n where "path_flags lk st' r (table_indices vb) = path_flags lk st r (table_indices vb) @
      replicate n (compute_intermediate_flags_for_leaf (entry_flags e))" "n = 0"
    by (rule paths_growE [OF mp_paths [OF assms(1)] assms(2), of vb]) (use assms(3) in blast)
  then show "address_space lk st' r vb = address_space lk st r vb"
    using mp_translate [OF assms(1,2), of vb] assms(3) by (simp add: address_space_def)
qed

lemma resolve_mapped_physical_address_mapped:
  assumes "link_ok lk" "paging_wf lk st P" "P root = Some (root, [])" "translate lk st root va = Some e"
  shows "resolve_mapped_physical_address lk st root va = Some (Ok (e AND physical_address_mask), st)"
proof -
  from assms(4) obtain t where t: "e \<noteq> 0" "P t = Some (root, table_indices va)"
    "table_entries st t ! extract_page_table_index va = e"
    unfolding translate_iff [OF assms(1-3)] by blast
  have "e AND physical_address_mask < 2 ^ 52"
  proof -
    have "frame_ok (e AND physical_address_mask)" by (simp add: frame_ok_mask and.assoc)
    then show ?thesis by (simp add: frame_ok_def)
  qed
  then show ?thesis
    using resolve_page_table_follows [OF assms(1-3) t(2)] t(1,3)
    by (simp add: resolve_mapped_physical_address_def entry_is_unused_def entry_addr_def phys_addr_new_iff)
qed

end
