(* ===== verification/Loaded_Image.thy ===== *)
theory Loaded_Image
  imports User_Loading Page_Table_Walk Memory_Claims
begin

text \<open>
  What a process sees of the loaded image. \<open>user_byte\<close> is the byte the process reads at an address:
  its translation, then the memory behind the direct map. The loader's steps are characterised by
  their effect on it, under the invariant that mapped pages have distinct frames the allocator does
  not offer.
\<close>

section \<open>Byte addresses\<close>

definition page_offset :: "u64 \<Rightarrow> u64" where
  "page_offset va = va AND 0xFFF"

definition byte_address :: "u64 \<Rightarrow> u64 \<Rightarrow> u64" where
  "byte_address frame va = DIRECT_MAP_REGION_START + (frame + page_offset va)"

lemma unat_page_offset: "unat (page_offset va) = unat va mod 4096"
proof -
  have "page_offset va = take_bit 12 va" by (simp add: page_offset_def take_bit_eq_mask mask_eq_exp_minus_1)
  then show ?thesis by (simp only: unsigned_take_bit_eq) (simp add: take_bit_eq_mod)
qed

lemma frame_ok_unat:
  assumes "frame_ok f"
  shows "unat f mod 4096 = 0" "unat f < 2 ^ 52"
  using assms word_mod_4096 [of f] by (auto simp: frame_ok_def word_less_nat_alt)

lemma frame_ok_multiple:
  assumes "frame_ok f"
  obtains a where "unat f = 4096 * a"
proof -
  have "4096 dvd unat f" using frame_ok_unat(1) [OF assms] by (simp only: dvd_eq_mod_eq_0)
  then show thesis using that by (rule dvdE)
qed

lemma unat_frame_offset:
  assumes "frame_ok f"
  shows "unat (f + page_offset va) = unat f + unat va mod 4096"
  using frame_ok_unat [OF assms] by (subst unat_add_fits) (simp_all add: unat_page_offset)

lemma byte_address_eq_iff:
  assumes "frame_ok f" "frame_ok g"
  shows "byte_address f va = byte_address g vb \<longleftrightarrow> f = g \<and> page_offset va = page_offset vb"
proof -
  have "byte_address f va = byte_address g vb \<longleftrightarrow> unat (f + page_offset va) = unat (g + page_offset vb)"
    by (simp add: byte_address_def)
  also have "\<dots> \<longleftrightarrow> unat f + unat va mod 4096 = unat g + unat vb mod 4096"
    by (simp only: unat_frame_offset [OF assms(1)] unat_frame_offset [OF assms(2)])
  also have "\<dots> \<longleftrightarrow> unat f = unat g \<and> unat va mod 4096 = unat vb mod 4096"
  proof -
    obtain a where a: "unat f = 4096 * a" by (rule frame_ok_multiple [OF assms(1)])
    obtain b where b: "unat g = 4096 * b" by (rule frame_ok_multiple [OF assms(2)])
    have "x = y \<and> a = b" if e: "4096 * a + x = 4096 * b + y" "x < 4096" "y < 4096" for x y :: nat
    proof -
      have "(4096 * a + x) div 4096 = (4096 * b + y) div 4096" using e(1) by (rule arg_cong)
      then have "a = b" using e(2,3) by simp
      with e(1) show ?thesis by simp
    qed
    from this [of "unat va mod 4096" "unat vb mod 4096"] show ?thesis unfolding a b by auto
  qed
  also have "\<dots> \<longleftrightarrow> f = g \<and> page_offset va = page_offset vb"
    using unat_page_offset [of va] unat_page_offset [of vb] unat_inj [of "page_offset va" "page_offset vb"] by simp
  finally show ?thesis .
qed

lemma unat_uminus_u64:
  fixes w :: u64
  assumes "w \<noteq> 0"
  shows "unat (- w) = 2 ^ 64 - unat w"
proof -
  have "unat (w + - w) = (unat w + unat (- w)) mod 2 ^ 64" by (simp only: unat_word_ariths(1)) simp
  then have "2 ^ 64 dvd unat w + unat (- w)" by (simp add: dvd_eq_mod_eq_0)
  then obtain k where k: "unat w + unat (- w) = 2 ^ 64 * k" by (rule dvdE)
  have "0 < unat w" using assms by (simp add: unat_gt_0)
  moreover have "unat w < 2 ^ 64" "unat (- w) < 2 ^ 64"
    using unsigned_less [of w, where 'a = nat] unsigned_less [of "- w", where 'a = nat] by simp_all
  ultimately have "0 < 2 ^ 64 * k" "2 ^ 64 * k < 2 ^ 64 * 2" using k by linarith+
  then have "k = 1" by simp
  with k show ?thesis by simp
qed

lemma zero_page_byte:
  assumes "frame_ok f" "frame_ok g"
  shows "zero_page_at_address f mem (byte_address g va) = (if f = g then 0 else mem (byte_address g va))"
proof -
  have d: "byte_address g va - (f + DIRECT_MAP_REGION_START) = g + page_offset va - f"
    by (simp add: byte_address_def)
  note gu = unat_frame_offset [OF assms(2), of va]
  have o: "unat va mod 4096 < 4096" by simp
  obtain a where a: "unat f = 4096 * a" by (rule frame_ok_multiple [OF assms(1)])
  obtain b where b: "unat g = 4096 * b" by (rule frame_ok_multiple [OF assms(2)])
  have fg: "f = g \<longleftrightarrow> a = b" using a b unat_inj [of f g] by simp
  have small: "unat (g + page_offset va - f) < 4096 \<longleftrightarrow> f = g"
  proof (cases "unat f \<le> unat g")
    case True
    then have "page_offset va + g \<ge> f" using gu by (simp add: word_le_nat_alt add.commute)
    then have "unat (g + page_offset va - f) = unat (g + page_offset va) - unat f"
      by (intro unat_sub) (simp add: add.commute)
    then have "unat (g + page_offset va - f) = 4096 * b + unat va mod 4096 - 4096 * a"
      by (simp only: gu a b)
    moreover have "a \<le> b" using True a b by simp
    ultimately show ?thesis using o fg by auto
  next
    case False
    then have "b < a" using a b by simp
    then have lt: "4096 * b + 4096 \<le> 4096 * a" by simp
    have "f \<ge> g + page_offset va" using lt o gu a b by (simp add: word_le_nat_alt)
    then have u: "unat (f - (g + page_offset va)) = 4096 * a - (4096 * b + unat va mod 4096)"
      by (simp only: unat_sub gu a b)
    have big: "4096 * a < 2 ^ 52" using frame_ok_unat(2) [OF assms(1)] a by simp
    have nz: "f - (g + page_offset va) \<noteq> 0"
    proof
      assume "f - (g + page_offset va) = 0"
      then have "unat (f - (g + page_offset va)) = 0" by simp
      then show False using u lt o by simp
    qed
    have "unat (- (f - (g + page_offset va))) = 2 ^ 64 - (4096 * a - (4096 * b + unat va mod 4096))"
      unfolding unat_uminus_u64 [OF nz] u ..
    then have "unat (g + page_offset va - f) = 2 ^ 64 - (4096 * a - (4096 * b + unat va mod 4096))"
      by simp
    then show ?thesis using big \<open>b < a\<close> fg by simp
  qed
  show ?thesis by (simp add: zero_page_at_address_def Let_def d small PAGE_SIZE_IN_BYTES_def)
qed

section \<open>What the process reads\<close>

definition entry_frame :: "page_entry \<Rightarrow> u64" where
  "entry_frame e = e AND physical_address_mask"

lemma entry_frame_ok [simp]: "frame_ok (entry_frame e)"
  by (simp add: entry_frame_def frame_ok_mask and.assoc)

lemma entry_frame_of: "frame_ok f \<Longrightarrow> flags_ok fl \<Longrightarrow> entry_frame (f OR fl) = f"
  by (simp add: entry_frame_def frame_ok_mask flags_ok_def bit.conj_disj_distrib2)

definition user_byte :: "link_addresses \<Rightarrow> LoaderState \<Rightarrow> table_ref \<Rightarrow> u64 \<Rightarrow> u8 option" where
  "user_byte lk st root va =
     map_option (\<lambda>e. memory st (byte_address (entry_frame e) va)) (translate lk (paging st) root va)"

definition frame_held :: "PhysicalAllocator \<Rightarrow> u64 \<Rightarrow> bool" where
  "frame_held pa f \<longleftrightarrow> frame_of f < MAXIMUM_PHYSICAL_PAGES \<and> page_type_table pa ! frame_of f \<noteq> Free"

definition free_pages_aligned :: "PhysicalAllocator \<Rightarrow> bool" where
  "free_pages_aligned pa \<longleftrightarrow> list_all (\<lambda>a. a mod 4096 = 0) (stack_contents (free_page_stack pa))"

text \<open>The invariant of a load into \<open>root\<close>; \<open>T\<close> is what the other address spaces hold.\<close>

type_synonym other_spaces = "table_ref \<rightharpoonup> u64 \<Rightarrow> page_entry option \<times> page_flags list"

definition user_table_flags :: page_flags where
  "user_table_flags = PRESENT OR WRITABLE OR USER_ACCESSIBLE"

definition loader_inv :: "link_addresses \<Rightarrow> other_spaces \<Rightarrow> LoaderState \<Rightarrow> table_paths \<Rightarrow> table_ref \<Rightarrow> bool" where
  "loader_inv lk T st P root \<longleftrightarrow> paging_wf lk (paging st) P \<and> P root = Some (root, []) \<and> root \<noteq> KernelPml4 \<and>
     phys_inv (allocator st) \<and> free_pages_aligned (allocator st) \<and>
     (\<forall>va e. translate lk (paging st) root va = Some e \<longrightarrow> frame_held (allocator st) (entry_frame e)) \<and>
     (\<forall>va vb e f. translate lk (paging st) root va = Some e \<longrightarrow> translate lk (paging st) root vb = Some f \<longrightarrow>
        entry_frame e = entry_frame f \<longrightarrow> page_number va = page_number vb) \<and>
     (\<forall>r f. T r = Some f \<longrightarrow> P r = Some (r, []) \<and> r \<noteq> root \<and> address_space lk (paging st) r = f) \<and>
     (\<forall>va. set (path_flags lk (paging st) root (table_indices va)) \<subseteq> {user_table_flags})"

lemma loader_invD:
  assumes "loader_inv lk T st P root"
  shows li_wf: "paging_wf lk (paging st) P" and li_root: "P root = Some (root, [])" "root \<noteq> KernelPml4"
    and li_phys: "phys_inv (allocator st)" and li_aligned: "free_pages_aligned (allocator st)"
    and li_held: "translate lk (paging st) root va = Some e \<Longrightarrow> frame_held (allocator st) (entry_frame e)"
    and li_inj: "translate lk (paging st) root va = Some e \<Longrightarrow> translate lk (paging st) root vb = Some f \<Longrightarrow>
      entry_frame e = entry_frame f \<Longrightarrow> page_number va = page_number vb"
    and li_others: "T r = Some g \<Longrightarrow> P r = Some (r, []) \<and> r \<noteq> root \<and> address_space lk (paging st) r = g"
    and li_paths: "set (path_flags lk (paging st) root (table_indices va)) \<subseteq> {user_table_flags}"
proof -
  note w = assms [unfolded loader_inv_def]
  show "paging_wf lk (paging st) P" "P root = Some (root, [])" "root \<noteq> KernelPml4"
    "phys_inv (allocator st)" "free_pages_aligned (allocator st)" using w by blast+
  show "frame_held (allocator st) (entry_frame e)" if "translate lk (paging st) root va = Some e"
    using w [THEN conjunct2, THEN conjunct2, THEN conjunct2, THEN conjunct2, THEN conjunct2, THEN conjunct1] that by blast
  show "page_number va = page_number vb" if "translate lk (paging st) root va = Some e"
    "translate lk (paging st) root vb = Some f" "entry_frame e = entry_frame f"
    using w [THEN conjunct2, THEN conjunct2, THEN conjunct2, THEN conjunct2, THEN conjunct2, THEN conjunct2, THEN conjunct1]
      that by blast
  show "P r = Some (r, []) \<and> r \<noteq> root \<and> address_space lk (paging st) r = g" if "T r = Some g"
    using w [THEN conjunct2, THEN conjunct2, THEN conjunct2, THEN conjunct2, THEN conjunct2, THEN conjunct2, THEN conjunct2,
        THEN conjunct1] that by blast
  show "set (path_flags lk (paging st) root (table_indices va)) \<subseteq> {user_table_flags}"
    using w [THEN conjunct2, THEN conjunct2, THEN conjunct2, THEN conjunct2, THEN conjunct2, THEN conjunct2, THEN conjunct2,
        THEN conjunct2] by blast
qed

text \<open>Addresses of one page have one translation, so a page is determined by its number.\<close>

lemma frame_of_less:
  assumes "frame_of f < MAXIMUM_PHYSICAL_PAGES" "f mod 4096 = 0"
  shows "frame_ok f"
proof -
  have "unat f div 4096 < 262144"
    using assms(1) by (simp add: compute_page_frame_number_def PAGE_SIZE_IN_BYTES_def MAXIMUM_PHYSICAL_PAGES_def unat_div)
  then have "unat f < 2 ^ 52" by simp
  then show ?thesis using assms(2) by (simp add: frame_ok_def word_less_nat_alt)
qed

lemma frame_of_eq_iff:
  assumes "frame_ok f" "frame_ok g"
  shows "frame_of f = frame_of g \<longleftrightarrow> f = g"
proof -
  obtain a where a: "unat f = 4096 * a" by (rule frame_ok_multiple [OF assms(1)])
  obtain b where b: "unat g = 4096 * b" by (rule frame_ok_multiple [OF assms(2)])
  have "frame_of f = a" "frame_of g = b"
    using a b by (simp_all add: compute_page_frame_number_def PAGE_SIZE_IN_BYTES_def unat_div)
  then show ?thesis using a b unat_inj [of f g] by auto
qed

text \<open>An allocated frame was free, is aligned and is zeroed; the other frames keep type and contents.\<close>

text \<open>The next \<open>n\<close> pages of the free stack are distinct free frames.\<close>

definition frames_free :: "PhysicalAllocator \<Rightarrow> u64 list \<Rightarrow> bool" where
  "frames_free pa as \<longleftrightarrow> distinct (map frame_of as) \<and> list_all (\<lambda>a. page_type_table pa ! frame_of a = Free) as"

definition free_supply :: "PhysicalAllocator \<Rightarrow> nat \<Rightarrow> bool" where
  "free_supply pa n \<longleftrightarrow> n \<le> length (stack_contents (free_page_stack pa)) \<and>
     frames_free pa (take n (rev (stack_contents (free_page_stack pa))))"

lemma frames_free_append: "frames_free pa (as @ bs) \<Longrightarrow> frames_free pa as"
  by (simp add: frames_free_def)

lemma free_supply_mono:
  assumes "free_supply pa n" "m \<le> n"
  shows "free_supply pa m"
proof -
  have "take n xs = take m xs @ drop m (take n xs)" for xs :: "u64 list"
    using assms(2) append_take_drop_id [of m "take n xs"] by (simp add: min_absorb1)
  then show ?thesis using assms frames_free_append unfolding free_supply_def by (metis le_trans)
qed

lemma allocate_one_user_page_exact:
  assumes "phys_inv (allocator st)" "free_pages_aligned (allocator st)"
  obtains (failed) st' where "allocate_one_user_page st = Some (Err ElfLoadError.PageAllocationFailed, st')"
      "\<And>k. \<not> free_supply (allocator st) (Suc k)"
  | (page) f st' where "allocate_one_user_page st = Some (Ok f, st')" "frame_ok f"
      "frame_of f < MAXIMUM_PHYSICAL_PAGES" "page_type_table (allocator st) ! frame_of f = Free"
      "paging st' = paging st" "phys_inv (allocator st')" "free_pages_aligned (allocator st')"
      "memory st' = zero_page_at_address f (memory st)"
      "page_type_table (allocator st') = (page_type_table (allocator st))[frame_of f := UserOwned]"
      "\<And>k. free_supply (allocator st) (Suc k) \<Longrightarrow> free_supply (allocator st') k"
proof (cases rule: allocate_page_as_cases [OF assms(1), of UserOwned "memory st", case_names empty stale page])
  case (page a s)
  let ?pa = "(allocator st)\<lparr> free_page_stack := s, page_type_table := (page_type_table (allocator st))[frame_of a := UserOwned] \<rparr>"
  have al: "a mod 4096 = 0" "list_all (\<lambda>a. a mod 4096 = 0) (stack_contents s)"
    using assms(2) page(1) by (simp_all add: free_pages_aligned_def)
  have f: "frame_ok a" by (rule frame_of_less [OF page(2) al(1)])
  have inv: "phys_inv ?pa"
    using page(4) phys_inv_types [of "(allocator st)\<lparr> free_page_stack := s \<rparr>" "frame_of a" UserOwned] by simp
  have "allocate_one_user_page st = Some (Ok a, st\<lparr>allocator := ?pa, memory := zero_page_at_address a (memory st)\<rparr>)"
    using page(5) by (simp add: allocate_one_user_page_def allocate_user_page_def)
  moreover have "free_supply ?pa k" if "free_supply (allocator st) (Suc k)" for k
    using that page(1)
    by (auto simp: free_supply_def frames_free_def list_all_iff nth_list_update image_iff)
  ultimately show thesis using that(2) [OF _ f page(2,3)] inv al(2) by (simp add: free_pages_aligned_def)
qed (rule that(1), simp add: allocate_one_user_page_def allocate_user_page_def, simp add: free_supply_def frames_free_def)+

section \<open>Mapping pages\<close>

definition write_xor_execute :: "page_flags \<Rightarrow> bool" where
  "write_xor_execute fl \<longleftrightarrow> \<not> (flags_contain fl WRITABLE \<and> \<not> flags_contain fl NO_EXECUTE)"

text \<open>Flags of a page of the process: not both writable and executable, and open to ring 3.\<close>

definition user_leaf_flags :: "page_flags \<Rightarrow> bool" where
  "user_leaf_flags fl \<longleftrightarrow> write_xor_execute fl \<and> flags_contain fl USER_ACCESSIBLE"

lemma user_leaf_intermediate: "user_leaf_flags fl \<Longrightarrow> compute_intermediate_flags_for_leaf fl = user_table_flags"
  by (simp add: user_leaf_flags_def compute_intermediate_flags_for_leaf_def compute_intermediate_page_table_flags_def
      user_table_flags_def or.assoc)

definition region_mapped :: "table_paths \<Rightarrow> table_ref \<Rightarrow> u64 \<Rightarrow> bool" where
  "region_mapped P root va \<longleftrightarrow> (\<exists>t. P t = Some (root, table_indices va))"

text \<open>\<open>maps_zeroed\<close>: the pages in \<open>ps\<close> are mapped to fresh zeroed frames with the given flags, the rest of
  the address space is as before.\<close>

definition maps_zeroed :: "link_addresses \<Rightarrow> table_ref \<Rightarrow> LoaderState \<Rightarrow> nat set \<Rightarrow> page_flags \<Rightarrow> LoaderState \<Rightarrow> bool" where
  "maps_zeroed lk root st ps fl st' \<longleftrightarrow>
     (\<forall>va. if page_number va \<in> ps
        then (\<exists>e. translate lk (paging st') root va = Some e \<and> entry_flags e = fl) \<and> user_byte lk st' root va = Some 0
        else translate lk (paging st') root va = translate lk (paging st) root va \<and>
          user_byte lk st' root va = user_byte lk st root va)"

lemma maps_zeroed_refl: "maps_zeroed lk root st {} fl st"
  by (simp add: maps_zeroed_def)

lemma maps_zeroed_trans:
  assumes "maps_zeroed lk root st ps fl st1" "maps_zeroed lk root st1 qs fl st2"
  shows "maps_zeroed lk root st (ps \<union> qs) fl st2"
  unfolding maps_zeroed_def
proof (intro allI)
  fix va
  show "if page_number va \<in> ps \<union> qs
        then (\<exists>e. translate lk (paging st2) root va = Some e \<and> entry_flags e = fl) \<and> user_byte lk st2 root va = Some 0
        else translate lk (paging st2) root va = translate lk (paging st) root va \<and>
          user_byte lk st2 root va = user_byte lk st root va"
    using assms(1) [unfolded maps_zeroed_def, THEN spec, of va] assms(2) [unfolded maps_zeroed_def, THEN spec, of va]
    by (cases "page_number va \<in> ps"; cases "page_number va \<in> qs") simp_all
qed

lemma allocate_and_map_one_page_exact:
  assumes "link_ok lk" "loader_inv lk T st P root" "flags_ok fl" "user_leaf_flags fl"
  obtains (failed) st' where "allocate_and_map_one_page lk st root va fl = Some (Err ElfLoadError.PageAllocationFailed, st')"
      "\<And>k. \<not> free_supply (allocator st) (Suc k)"
  | (full) "allocate_and_map_one_page lk st root va fl = None" "29 < next_bootstrap_index (paging st)"
      "\<not> region_mapped P root va"
  | (mapped) st' P' where "allocate_and_map_one_page lk st root va fl = Some (Ok (), st')" "loader_inv lk T st' P' root"
      "maps_zeroed lk root st {page_number va} fl st'" "region_mapped P' root va"
      "\<And>vb. region_mapped P root vb \<Longrightarrow> region_mapped P' root vb"
      "next_bootstrap_index (paging st') \<le>
        next_bootstrap_index (paging st) + (if region_mapped P root va then 0 else 3)"
      "\<And>k. free_supply (allocator st) (Suc k) \<Longrightarrow> free_supply (allocator st') k"
proof (cases rule: allocate_one_user_page_exact [OF li_phys [OF assms(2)] li_aligned [OF assms(2)], case_names failed page])
  case (failed st')
  then show thesis by (intro that(1)) (simp_all add: allocate_and_map_one_page_def)
next
  case (page f st1)
  have f52: "phys_addr_new f = Some f" using page(2) by (simp add: phys_addr_new_iff frame_ok_def)
  have kr: "root = KernelPml4 \<longrightarrow> extract_page_map_level_4_index va \<noteq> DIRECT_MAP_SLOT" using li_root(2) [OF assms(2)] by blast
  show thesis
  proof (cases rule: map_single_page_exact [OF assms(1) li_wf [OF assms(2)] li_root(1) [OF assms(2)] kr page(2) assms(3),
        case_names violation full mapped])
    case violation
    then show thesis using assms(4) by (simp add: user_leaf_flags_def write_xor_execute_def)
  next
    case full
    then show thesis
      using page(1,5) f52 missing_tables_bounds [OF assms(1) li_wf [OF assms(2)] li_root(1) [OF assms(2)], of va]
      by (intro that(2)) (simp_all add: allocate_and_map_one_page_def region_mapped_def)
  next
    case (mapped pg P')
    define st' where "st' = st1\<lparr>paging := pg\<rparr>"
    note mp = maps_pageD [OF mapped(3)]
    have res: "allocate_and_map_one_page lk st root va fl = Some (Ok (), st')"
      using page(1,5) f52 mapped(2) by (simp add: allocate_and_map_one_page_def st'_def)
    have tr: "translate lk (paging st') root vb =
        (if page_number vb = page_number va then Some (f OR fl) else translate lk (paging st) root vb)" for vb
      using mp(6) [OF li_root(1) [OF assms(2)]] by (simp add: st'_def)
    have ef: "entry_frame (f OR fl) = f" by (rule entry_frame_of [OF page(2) assms(3)])
    have other: "entry_frame e \<noteq> f" if "translate lk (paging st) root vb = Some e" for vb e
      using li_held [OF assms(2) that] page(4) by (auto simp: frame_held_def)
    have mem: "memory st' = zero_page_at_address f (memory st)" using page(8) by (simp add: st'_def)
    have ub: "user_byte lk st' root vb = (if page_number vb = page_number va then Some 0 else user_byte lk st root vb)" for vb
      using other [of vb] page(2)
      by (cases "translate lk (paging st) root vb")
        (auto simp: user_byte_def tr mem ef zero_page_byte)
    have efl: "entry_flags (f OR fl) = fl" by (rule entry_of_frame(3) [OF page(2) assms(3)])
    have li: "loader_inv lk T st' P' root"
      unfolding loader_inv_def
    proof (intro conjI allI impI)
      fix vb
      obtain n where "path_flags lk pg root (table_indices vb) =
          path_flags lk (paging st) root (table_indices vb) @ replicate n user_table_flags"
        by (rule paths_growE [OF mp(7) li_root(1) [OF assms(2)], of vb])
          (simp add: efl user_leaf_intermediate [OF assms(4)])
      then show "set (path_flags lk (paging st') root (table_indices vb)) \<subseteq> {user_table_flags}"
        using li_paths [OF assms(2), of vb] by (auto simp: st'_def)
    next
      show "paging_wf lk (paging st') P'" using mp(1) by (simp add: st'_def)
      show "P' root = Some (root, [])" by (rule mp(2) [OF li_root(1) [OF assms(2)]])
      show "root \<noteq> KernelPml4" by (rule li_root(2) [OF assms(2)])
      show "phys_inv (allocator st')" "free_pages_aligned (allocator st')" using page(6,7) by (simp_all add: st'_def)
      have len: "frame_of f < length (page_type_table (allocator st))"
        using page(3) li_phys [OF assms(2)] by (simp add: phys_inv_def)
      have keep: "frame_held (allocator st') g" if "frame_held (allocator st) g \<or> g = f" for g
        using that page(3) len by (auto simp: frame_held_def st'_def page(9) nth_list_update)
      show "frame_held (allocator st') (entry_frame e)" if "translate lk (paging st') root vb = Some e" for vb e
        using that keep li_held [OF assms(2), of vb e] by (auto simp: tr ef split: if_splits)
      show "page_number vb = page_number vc" if "translate lk (paging st') root vb = Some e"
        "translate lk (paging st') root vc = Some g" "entry_frame e = entry_frame g" for vb vc e g
        using that li_inj [OF assms(2), of vb e vc g] other [of vb] other [of vc] by (auto simp: tr ef split: if_splits)
      fix r g assume "T r = Some g"
      then have r: "P r = Some (r, [])" "r \<noteq> root" "address_space lk (paging st) r = g"
        using li_others [OF assms(2)] by blast+
      then show "P' r = Some (r, [])" "r \<noteq> root" using mp(2) by blast+
      show "address_space lk (paging st') r = g" using maps_page_others [OF mapped(3) r(1,2)] r(3) by (simp add: st'_def)
    qed
    have mz: "maps_zeroed lk root st {page_number va} fl st'" by (simp add: maps_zeroed_def tr ub efl)
    have "region_mapped P' root va" using mp(5) by (simp only: region_mapped_def)
    moreover have "region_mapped P' root vb" if "region_mapped P root vb" for vb
      using mp(2) that unfolding region_mapped_def by blast
    moreover have "next_bootstrap_index (paging st') \<le>
        next_bootstrap_index (paging st) + (if region_mapped P root va then 0 else 3)"
    proof -
      have "paging st' = pg" by (simp add: st'_def)
      then show ?thesis
        using mp(4) missing_tables_bounds [OF assms(1) li_wf [OF assms(2)] li_root(1) [OF assms(2)], of va]
        by (simp add: region_mapped_def)
    qed
    moreover have "free_supply (allocator st') k" if "free_supply (allocator st) (Suc k)" for k
      using page(10) [OF that] by (simp add: st'_def)
    ultimately show thesis by (rule that(3) [OF res li mz])
  qed
qed

text \<open>
  A run of pages. Each region of 512 pages needs at most three tables, and none once one of its pages
  is mapped.
\<close>

lemma page_size_word: "(of_nat PAGE_SIZE_IN_BYTES :: u64) = 4096"
  by (simp add: PAGE_SIZE_IN_BYTES_def)

definition regions_of :: "nat \<Rightarrow> nat \<Rightarrow> nat" where
  "regions_of p n = (if n = 0 then 0 else (p + n - 1) div 512 - p div 512 + 1)"

lemma regions_of_Suc:
  "m > 0 \<Longrightarrow> regions_of p (Suc m) = regions_of (Suc p) m + (if Suc p div 512 = p div 512 then 0 else 1)"
proof -
  assume "m > 0"
  then have le: "Suc p div 512 \<le> (p + m) div 512" by (intro div_le_mono) simp
  have "Suc p div 512 = p div 512 \<or> Suc p div 512 = Suc (p div 512)" by (simp add: div_Suc)
  with \<open>m > 0\<close> le show ?thesis by (auto simp: regions_of_def)
qed

lemma page_number_small: "unat va < 2 ^ 48 \<Longrightarrow> page_number va = unat va div 4096"
  by (simp add: page_number_def)

definition run_needs_tables :: "LoaderState \<Rightarrow> table_paths \<Rightarrow> table_ref \<Rightarrow> u64 \<Rightarrow> nat \<Rightarrow> bool" where
  "run_needs_tables st P root va n \<longleftrightarrow>
     32 + (if n > 0 \<and> region_mapped P root va then 3 else 0) <
       next_bootstrap_index (paging st) + 3 * regions_of (page_number va) n"

lemma region_mapped_cong:
  "page_number va div 512 = page_number vb div 512 \<Longrightarrow> region_mapped P root va = region_mapped P root vb"
  by (simp add: region_mapped_def table_indices_eq_iff [symmetric])

lemma run_needs_tables_step:
  assumes "run_needs_tables st1 P1 root vb m" "m > 0" "page_number vb = Suc (page_number va)" "region_mapped P1 root va"
    and "next_bootstrap_index (paging st1) \<le> next_bootstrap_index (paging st) + (if region_mapped P root va then 0 else 3)"
  shows "run_needs_tables st P root va (Suc m)"
proof (cases "Suc (page_number va) div 512 = page_number va div 512")
  case True
  then have "region_mapped P1 root vb" using assms(3,4) region_mapped_cong [of va vb P1 root] by simp
  then show ?thesis using assms regions_of_Suc [OF assms(2), of "page_number va"] True
    by (auto simp: run_needs_tables_def split: if_splits)
next
  case False
  then show ?thesis using assms regions_of_Suc [OF assms(2), of "page_number va"]
    by (auto simp: run_needs_tables_def split: if_splits)
qed

lemma map_pages_until_exact:
  assumes "link_ok lk" "flags_ok fl" "user_leaf_flags fl"
  shows "loader_inv lk T st P root \<Longrightarrow> unat cur mod 4096 = 0 \<Longrightarrow> unat end_va = unat cur + 4096 * n \<Longrightarrow>
    unat end_va \<le> 2 ^ 48 \<Longrightarrow>
    (\<exists>st'. map_pages_until lk st root cur end_va fl = Some (Err ElfLoadError.PageAllocationFailed, st') \<and>
       \<not> free_supply (allocator st) n) \<or>
    (map_pages_until lk st root cur end_va fl = None \<and> run_needs_tables st P root cur n) \<or>
    (\<exists>st' P'. map_pages_until lk st root cur end_va fl = Some (Ok (), st') \<and> loader_inv lk T st' P' root \<and>
       maps_zeroed lk root st {unat cur div 4096 ..< unat cur div 4096 + n} fl st' \<and>
       (\<forall>vb. region_mapped P root vb \<longrightarrow> region_mapped P' root vb) \<and>
       (n > 0 \<longrightarrow> region_mapped P' root cur) \<and>
       next_bootstrap_index (paging st') + (if n > 0 \<and> region_mapped P root cur then 3 else 0) \<le>
         next_bootstrap_index (paging st) + 3 * regions_of (page_number cur) n \<and>
       (\<forall>k. free_supply (allocator st) (n + k) \<longrightarrow> free_supply (allocator st') k))"
proof (induction n arbitrary: st P cur)
  case 0
  then have "\<not> cur < end_va" by (simp add: word_less_nat_alt)
  then have "map_pages_until lk st root cur end_va fl = Some (Ok (), st)" by (simp add: map_pages_until.simps)
  then show ?case using 0(1) maps_zeroed_refl [of lk root st fl] by (auto simp: regions_of_def)
next
  case (Suc n)
  have lt: "cur < end_va" using Suc.prems(3) by (simp add: word_less_nat_alt)
  have c48: "unat cur < 2 ^ 48" using Suc.prems(3,4) by simp
  have nxt: "unat (cur + 4096) = unat cur + 4096" using Suc.prems(3,4) by (subst unat_add_fits) simp_all
  have step: "map_pages_until lk st root cur end_va fl =
      Option.bind (allocate_and_map_one_page lk st root cur fl) (\<lambda>(r, st1).
          case r of Inl e \<Rightarrow> Some (Err e, st1)
          | Inr _ \<Rightarrow> map_pages_until lk st1 root (cur + 4096) end_va fl)"
    using lt by (subst map_pages_until.simps) (simp only: page_size_word if_True)
  show ?case
  proof (cases rule: allocate_and_map_one_page_exact [OF assms(1) Suc.prems(1) assms(2,3), of cur, case_names failed full mapped])
    case (failed st')
    then show ?thesis by (simp add: step)
  next
    case full
    have "regions_of (page_number cur) (Suc n) \<ge> 1" by (simp add: regions_of_def)
    then have "run_needs_tables st P root cur (Suc n)" using full(2,3) by (simp add: run_needs_tables_def)
    then show ?thesis using full(1) by (simp add: step)
  next
    case (mapped st1 P1)
    have eq: "map_pages_until lk st root cur end_va fl = map_pages_until lk st1 root (cur + 4096) end_va fl"
      using mapped(1) by (simp add: step)
    have al: "unat (cur + 4096) mod 4096 = 0" "unat end_va = unat (cur + 4096) + 4096 * n"
      using Suc.prems(2,3) nxt by simp_all
    have pn: "unat (cur + 4096) div 4096 = Suc (unat cur div 4096)" by (simp add: nxt)
    have pn': "n > 0 \<Longrightarrow> page_number (cur + 4096) = Suc (page_number cur)"
      using page_number_small [OF c48] page_number_small [of "cur + 4096"] Suc.prems(3,4) nxt pn by simp
    have ps: "{page_number cur} \<union> {unat (cur + 4096) div 4096 ..< unat (cur + 4096) div 4096 + n} =
        {unat cur div 4096 ..< unat cur div 4096 + Suc n}"
      unfolding pn page_number_small [OF c48] by auto
    from Suc.IH [OF mapped(2) al Suc.prems(4)] show ?thesis
    proof (elim disjE)
      assume "map_pages_until lk st1 root (cur + 4096) end_va fl = None \<and> run_needs_tables st1 P1 root (cur + 4096) n"
      then have r: "map_pages_until lk st root cur end_va fl = None" "run_needs_tables st1 P1 root (cur + 4096) n"
        by (simp_all add: eq)
      have "n > 0" using r(1) eq al(2) by (cases n) (simp_all add: map_pages_until.simps word_less_nat_alt)
      from run_needs_tables_step [OF r(2) this pn' [OF this] mapped(4,6)] r(1) show ?thesis by blast
    next
      assume "\<exists>st' P'. map_pages_until lk st1 root (cur + 4096) end_va fl = Some (Ok (), st') \<and> loader_inv lk T st' P' root \<and>
       maps_zeroed lk root st1 {unat (cur + 4096) div 4096 ..< unat (cur + 4096) div 4096 + n} fl st' \<and>
       (\<forall>vb. region_mapped P1 root vb \<longrightarrow> region_mapped P' root vb) \<and>
       (n > 0 \<longrightarrow> region_mapped P' root (cur + 4096)) \<and>
       next_bootstrap_index (paging st') + (if n > 0 \<and> region_mapped P1 root (cur + 4096) then 3 else 0) \<le>
         next_bootstrap_index (paging st1) + 3 * regions_of (page_number (cur + 4096)) n \<and>
       (\<forall>k. free_supply (allocator st1) (n + k) \<longrightarrow> free_supply (allocator st') k)"
      then obtain st' P' where r: "map_pages_until lk st1 root (cur + 4096) end_va fl = Some (Ok (), st')"
        "loader_inv lk T st' P' root"
        "maps_zeroed lk root st1 {unat (cur + 4096) div 4096 ..< unat (cur + 4096) div 4096 + n} fl st'"
        "\<And>vb. region_mapped P1 root vb \<Longrightarrow> region_mapped P' root vb"
        "next_bootstrap_index (paging st') + (if n > 0 \<and> region_mapped P1 root (cur + 4096) then 3 else 0) \<le>
         next_bootstrap_index (paging st1) + 3 * regions_of (page_number (cur + 4096)) n"
        "\<And>k. free_supply (allocator st1) (n + k) \<Longrightarrow> free_supply (allocator st') k" by blast
      have nb: "next_bootstrap_index (paging st') + (if region_mapped P root cur then 3 else 0) \<le>
         next_bootstrap_index (paging st) + 3 * regions_of (page_number cur) (Suc n)"
      proof (cases "n > 0")
        case True
        note rs = regions_of_Suc [OF True, of "page_number cur"]
        show ?thesis
        proof (cases "Suc (page_number cur) div 512 = page_number cur div 512")
          case same: True
          then have "region_mapped P1 root (cur + 4096)"
            using mapped(4) pn' [OF True] region_mapped_cong [of cur "cur + 4096" P1 root] by simp
          then show ?thesis using r(5) mapped(6) rs same pn' [OF True] True by (simp split: if_splits)
        next
          case False
          then show ?thesis using r(5) mapped(6) rs pn' [OF True] True by (simp split: if_splits)
        qed
      next
        case False
        then show ?thesis using r(5) mapped(6) by (simp add: regions_of_def split: if_splits)
      qed
      have mz: "maps_zeroed lk root st {unat cur div 4096 ..< unat cur div 4096 + Suc n} fl st'"
        using maps_zeroed_trans [OF mapped(3) r(3)] by (simp only: ps)
      show ?thesis
      proof (intro disjI2 exI conjI allI impI)
        show "map_pages_until lk st root cur end_va fl = Some (Ok (), st')" using r(1) by (simp add: eq)
        show "region_mapped P' root cur" by (rule r(4) [OF mapped(4)])
        show "region_mapped P' root vb" if "region_mapped P root vb" for vb by (rule r(4) [OF mapped(5) [OF that]])
        show "next_bootstrap_index (paging st') + (if Suc n > 0 \<and> region_mapped P root cur then 3 else 0) \<le>
         next_bootstrap_index (paging st) + 3 * regions_of (page_number cur) (Suc n)" using nb by simp
        show "free_supply (allocator st') k" if "free_supply (allocator st) (Suc n + k)" for k
          by (rule r(6), rule mapped(7)) (use that in simp)
      qed (rule r(2) mz)+
    qed (use mapped(7) in \<open>auto simp: eq\<close>)
  qed
qed

section \<open>Writing bytes\<close>

lemma loader_inv_memory [simp]: "loader_inv lk T (st\<lparr>memory := m\<rparr>) P root = loader_inv lk T st P root"
  by (simp add: loader_inv_def)

lemma same_address:
  assumes "unat va < 2 ^ 48" "unat vb < 2 ^ 48"
  shows "page_number va = page_number vb \<and> page_offset va = page_offset vb \<longleftrightarrow> va = vb"
proof -
  have "page_number va = page_number vb \<and> page_offset va = page_offset vb \<longleftrightarrow>
      unat va div 4096 = unat vb div 4096 \<and> unat va mod 4096 = unat vb mod 4096"
    using page_number_small [OF assms(1)] page_number_small [OF assms(2)]
      unat_page_offset [of va] unat_page_offset [of vb] unat_inj [of "page_offset va" "page_offset vb"] by simp
  also have "\<dots> \<longleftrightarrow> unat va = unat vb" by (metis div_mult_mod_eq)
  finally show ?thesis by simp
qed

lemma user_byte_write:
  assumes "loader_inv lk T st P root" "translate lk (paging st) root va = Some e"
    and "unat va < 2 ^ 48" "unat vb < 2 ^ 48"
  shows "user_byte lk (st\<lparr>memory := (memory st)(byte_address (entry_frame e) va := b)\<rparr>) root vb =
    (if vb = va then Some b else user_byte lk st root vb)"
proof (cases "translate lk (paging st) root vb")
  case None
  then have "vb \<noteq> va" using assms(2) by auto
  then show ?thesis using None by (simp add: user_byte_def)
next
  case (Some f)
  have "byte_address (entry_frame f) vb = byte_address (entry_frame e) va \<longleftrightarrow> vb = va"
  proof
    assume "byte_address (entry_frame f) vb = byte_address (entry_frame e) va"
    then have "entry_frame f = entry_frame e" "page_offset vb = page_offset va" by (simp_all add: byte_address_eq_iff)
    then show "vb = va" using li_inj [OF assms(1) Some assms(2)] same_address [OF assms(4,3)] by simp
  next
    assume "vb = va"
    then show "byte_address (entry_frame f) vb = byte_address (entry_frame e) va" using Some assms(2) by simp
  qed
  then show ?thesis using Some by (auto simp: user_byte_def)
qed

lemma write_one_byte_mapped:
  assumes "link_ok lk" "loader_inv lk T st P root" "translate lk (paging st) root va = Some e"
  shows "write_one_byte_to_user_address lk st root va b =
    Some (Ok (), st\<lparr>memory := (memory st)(byte_address (entry_frame e) va := b)\<rparr>)"
proof -
  have "resolve_user_virtual_to_physical lk st root va = Some (Ok (entry_frame e), st)"
    using resolve_mapped_physical_address_mapped [OF assms(1) li_wf [OF assms(2)] li_root(1) [OF assms(2)] assms(3)]
    by (simp add: resolve_user_virtual_to_physical_def entry_frame_def)
  then show ?thesis
    by (simp add: write_one_byte_to_user_address_def Let_def byte_address_def page_offset_def PAGE_SIZE_IN_BYTES_def)
qed

text \<open>An address that is not mapped is never written.\<close>

lemma write_one_byte_unmapped:
  assumes "link_ok lk" "loader_inv lk T st P root" "translate lk (paging st) root va = None"
  shows "write_one_byte_to_user_address lk st root va b \<noteq> Some (Ok (), st')"
proof -
  note wf = li_wf [OF assms(2)] and root = li_root(1) [OF assms(2)]
  have kr: "root = KernelPml4 \<longrightarrow> extract_page_map_level_4_index va \<noteq> DIRECT_MAP_SLOT" using li_root(2) [OF assms(2)] by blast
  show ?thesis
  proof (cases rule: resolve_page_table_exact [OF assms(1) wf root intermediate_flags_used(1) kr, case_names full table])
    case full
    then show ?thesis
      by (simp add: write_one_byte_to_user_address_def resolve_user_virtual_to_physical_def resolve_mapped_physical_address_def)
  next
    case (table t pg P')
    have "translate lk pg root va = None"
      using translate_extends [OF assms(1) wf table(2,3) root] assms(3) by simp
    then have "table_entries pg t ! extract_page_table_index va = 0"
      using translate_at [OF assms(1) table(2) extends_keep [OF table(3) root] table(4)] by (simp split: if_splits)
    then show ?thesis using table(1)
      by (simp add: write_one_byte_to_user_address_def resolve_user_virtual_to_physical_def
          resolve_mapped_physical_address_def entry_is_unused_def)
  qed
qed

text \<open>
  Both byte loops write the bytes \<open>f i\<close> to consecutive addresses: they are the same run, and it ends in
  success exactly when every address is mapped.
\<close>

definition writes_run :: "link_addresses \<Rightarrow> LoaderState \<Rightarrow> table_ref \<Rightarrow> u64 \<Rightarrow> nat \<Rightarrow> bytes \<Rightarrow> LoaderState \<Rightarrow> bool" where
  "writes_run lk st root dest i bs st' \<longleftrightarrow>
     paging st' = paging st \<and> allocator st' = allocator st \<and>
     (\<forall>vb. unat vb < 2 ^ 48 \<longrightarrow> user_byte lk st' root vb =
        (if unat dest + i \<le> unat vb \<and> unat vb < unat dest + i + length bs
         then Some (bs ! (unat vb - (unat dest + i))) else user_byte lk st root vb))"

lemma zero_loop_is_copy:
  "write_zero_bytes_from lk st root dest i n = copy_bytes_from lk st root dest i (replicate n 0)"
  by (induction n arbitrary: st i) (simp_all add: load_then_def)

lemma copy_bytes_exact:
  assumes "link_ok lk"
  shows "loader_inv lk T st P root \<Longrightarrow> unat dest + i + length bs \<le> 2 ^ 48 \<Longrightarrow>
    (if \<forall>k < length bs. translate lk (paging st) root (dest + of_nat (i + k)) \<noteq> None
     then \<exists>st'. copy_bytes_from lk st root dest i bs = Some (Ok (), st') \<and> loader_inv lk T st' P root \<and>
       writes_run lk st root dest i bs st'
     else \<forall>st'. copy_bytes_from lk st root dest i bs \<noteq> Some (Ok (), st'))"
proof (induction bs arbitrary: st i)
  case Nil
  then show ?case by (auto simp: writes_run_def)
next
  case (Cons b bs)
  let ?a = "dest + of_nat i"
  have a: "unat ?a = unat dest + i"
    using Cons.prems(2) by (subst unat_add_fits) (simp_all add: unat_of_nat_small)
  have all: "(\<forall>k < length (b # bs). Q (i + k)) \<longleftrightarrow> Q i \<and> (\<forall>k < length bs. Q (Suc i + k))" for Q
    by (auto simp: less_Suc_eq_0_disj)
  show ?case
  proof (cases "translate lk (paging st) root ?a")
    case None
    then have "copy_bytes_from lk st root dest i (b # bs) \<noteq> Some (Ok (), st')" for st'
      using write_one_byte_unmapped [OF assms Cons.prems(1) None] by (auto simp: load_then_Ok)
    with None show ?thesis by (subst all) (simp del: copy_bytes_from.simps)
  next
    case (Some e)
    define st1 where "st1 = st\<lparr>memory := (memory st)(byte_address (entry_frame e) ?a := b)\<rparr>"
    have w: "copy_bytes_from lk st root dest i (b # bs) = copy_bytes_from lk st1 root dest (Suc i) bs"
      using write_one_byte_mapped [OF assms Cons.prems(1) Some] by (simp add: st1_def)
    have li: "loader_inv lk T st1 P root" using Cons.prems(1) by (simp add: st1_def)
    have pg: "paging st1 = paging st" "allocator st1 = allocator st" by (simp_all add: st1_def)
    have le: "unat dest + Suc i + length bs \<le> 2 ^ 48" using Cons.prems(2) by simp
    have ub: "user_byte lk st1 root vb = (if vb = ?a then Some b else user_byte lk st root vb)" if "unat vb < 2 ^ 48" for vb
      unfolding st1_def by (rule user_byte_write [OF Cons.prems(1) Some _ that]) (use a Cons.prems(2) in simp)
    note ih = Cons.IH [OF li le, unfolded pg]
    show ?thesis
    proof (cases "\<forall>k < length bs. translate lk (paging st) root (dest + of_nat (Suc i + k)) \<noteq> None")
      case True
      with ih obtain st' where st': "copy_bytes_from lk st1 root dest (Suc i) bs = Some (Ok (), st')"
        "loader_inv lk T st' P root" "writes_run lk st1 root dest (Suc i) bs st'" by auto
      have "user_byte lk st' root vb = (if unat dest + i \<le> unat vb \<and> unat vb < unat dest + i + length (b # bs)
         then Some ((b # bs) ! (unat vb - (unat dest + i))) else user_byte lk st root vb)" if v: "unat vb < 2 ^ 48" for vb
      proof -
        have e: "vb = ?a \<longleftrightarrow> unat vb = unat dest + i" using a unat_inj [of vb ?a] by simp
        show ?thesis
          using st'(3) v ub [OF v] unfolding writes_run_def e
          by (auto simp: nth_Cons' Suc_le_eq)
      qed
      then have "writes_run lk st root dest i (b # bs) st'"
        using st'(3) pg unfolding writes_run_def by simp
      then show ?thesis using st' True Some by (subst all) (simp add: w del: copy_bytes_from.simps)
    next
      case False
      with ih have "copy_bytes_from lk st1 root dest (Suc i) bs \<noteq> Some (Ok (), st')" for st' by (auto split: if_splits)
      then show ?thesis using False by (subst all) (simp add: w del: copy_bytes_from.simps)
    qed
  qed
qed

section \<open>Loading a segment\<close>

lemma user_flags_exact:
  assumes "translate_segment_flags_to_user_page_permissions sf = Ok p"
  shows "flags_ok (build_user_page_table_flags p)" "user_leaf_flags (build_user_page_table_flags p)"
    and "flags_contain (build_user_page_table_flags p) WRITABLE \<longleftrightarrow> sf AND 2 \<noteq> 0"
    and "flags_contain (build_user_page_table_flags p) NO_EXECUTE \<longleftrightarrow> sf AND 1 = 0"
    and "flags_contain (build_user_page_table_flags p) (PRESENT OR USER_ACCESSIBLE)"
  using assms
  by (auto simp: translate_segment_flags_to_user_page_permissions_def reject_writable_and_executable_combination_def
      reject_non_readable_segment_def build_user_page_permissions_for_segment_def elf_constants Let_def
      build_user_page_table_flags_def flags_ok_def user_leaf_flags_def write_xor_execute_def flags_contain_def page_flag_defs
      physical_address_mask_def split: if_splits)

lemma unat_align_down: "unat (align_down_to_page_boundary a) = 4096 * (unat a div 4096)"
proof -
  have "align_down_to_page_boundary a = a AND NOT (mask 12)"
    by (simp add: align_down_to_page_boundary_def PAGE_SIZE_IN_BYTES_def mask_eq_exp_minus_1)
  also have "\<dots> = push_bit 12 (drop_bit 12 a)" by (rule bit_word_eqI) (auto simp: bit_simps)
  finally have "align_down_to_page_boundary a = push_bit 12 (drop_bit 12 a)" .
  then have "unat (align_down_to_page_boundary a) = unat a div 4096 * 4096 mod 2 ^ 64"
    by (simp add: push_bit_eq_mult drop_bit_eq_div unat_word_ariths unat_div mod_simps)
  also have "\<dots> = unat a div 4096 * 4096"
  proof (rule mod_less)
    have "unat a div 4096 * 4096 \<le> unat a" by simp
    also have "unat a < 2 ^ 64" using unsigned_less [of a, where 'a = nat] by simp
    finally show "unat a div 4096 * 4096 < 2 ^ 64" .
  qed
  finally show ?thesis by simp
qed

lemma unat_align_up:
  assumes "unat a \<le> 2 ^ 48"
  shows "unat (align_up_to_page_boundary a) = 4096 * ((unat a + 4095) div 4096)"
proof -
  have "unat (4095 + a) = unat a + 4095" using assms by (subst unat_add_fits) simp_all
  then show ?thesis
    by (simp add: align_up_to_page_boundary_def page_size_word unat_align_down)
qed

definition segment_pages :: "LoadableSegment \<Rightarrow> nat set" where
  "segment_pages seg = {unat (virtual_address seg) div 4096 ..<
     (unat (virtual_address seg) + unat (memory_size seg) + 4095) div 4096}"

definition segment_page_count :: "LoadableSegment \<Rightarrow> nat" where
  "segment_page_count seg = (unat (virtual_address seg) + unat (memory_size seg) + 4095) div 4096 -
     unat (virtual_address seg) div 4096"

definition segment_regions :: "LoadableSegment \<Rightarrow> nat" where
  "segment_regions seg = regions_of (unat (virtual_address seg) div 4096) (segment_page_count seg)"

definition segment_in_user_half :: "LoadableSegment \<Rightarrow> bool" where
  "segment_in_user_half seg \<longleftrightarrow> unat (virtual_address seg) + unat (memory_size seg) \<le> 2 ^ 47 \<and>
     unat (virtual_address seg) + unat (file_size seg) \<le> 2 ^ 47"

definition segment_page_flags :: "LoadableSegment \<Rightarrow> page_flags" where
  "segment_page_flags seg = build_user_page_table_flags (build_user_page_permissions_for_segment (flags seg))"

text \<open>The state after a segment: its file bytes, zeros in the rest of its pages, everything else as before.\<close>

definition segment_loaded :: "link_addresses \<Rightarrow> table_ref \<Rightarrow> bytes \<Rightarrow> LoadableSegment \<Rightarrow> LoaderState \<Rightarrow> LoaderState \<Rightarrow> bool" where
  "segment_loaded lk root elf seg st st' \<longleftrightarrow>
     (\<forall>vb. unat vb < 2 ^ 48 \<longrightarrow>
        user_byte lk st' root vb =
          (if unat (virtual_address seg) \<le> unat vb \<and> unat vb < unat (virtual_address seg) + unat (file_size seg)
           then Some (elf ! (unat (file_offset seg) + (unat vb - unat (virtual_address seg))))
           else if unat vb div 4096 \<in> segment_pages seg then Some 0 else user_byte lk st root vb) \<and>
        (if unat vb div 4096 \<in> segment_pages seg
         then \<exists>e. translate lk (paging st') root vb = Some e \<and> entry_flags e = segment_page_flags seg
         else translate lk (paging st') root vb = translate lk (paging st) root vb))"

lemma allocate_and_map_pages_exact:
  assumes "link_ok lk" "loader_inv lk T st P root" "flags_ok fl" "user_leaf_flags fl" "segment_in_user_half seg"
  obtains (failed) st' where "allocate_and_map_pages_for_segment lk st root seg fl = Some (Err ElfLoadError.PageAllocationFailed, st')"
      "\<not> free_supply (allocator st) (segment_page_count seg)"
  | (full) "allocate_and_map_pages_for_segment lk st root seg fl = None"
      "32 < next_bootstrap_index (paging st) + 3 * segment_regions seg"
  | (mapped) st' P' where "allocate_and_map_pages_for_segment lk st root seg fl = Some (Ok (), st')"
      "loader_inv lk T st' P' root" "maps_zeroed lk root st (segment_pages seg) fl st'"
      "next_bootstrap_index (paging st') \<le> next_bootstrap_index (paging st) + 3 * segment_regions seg"
      "\<And>k. free_supply (allocator st) (segment_page_count seg + k) \<Longrightarrow> free_supply (allocator st') k"
proof -
  let ?a = "unat (virtual_address seg)" and ?m = "unat (memory_size seg)"
  let ?s = "align_down_to_page_boundary (virtual_address seg)"
    and ?e = "align_up_to_page_boundary (virtual_address seg + memory_size seg)"
  let ?n = "segment_page_count seg"
  have n: "?n = (?a + ?m + 4095) div 4096 - ?a div 4096" by (simp add: segment_page_count_def)
  have sum: "unat (virtual_address seg + memory_size seg) = ?a + ?m"
    using assms(5) by (subst unat_add_fits) (simp_all add: segment_in_user_half_def)
  have le: "?a div 4096 \<le> (?a + ?m + 4095) div 4096" by (intro div_le_mono) simp
  have am: "?a + ?m \<le> 2 ^ 47" using assms(5) by (simp add: segment_in_user_half_def)
  have s: "unat ?s = 4096 * (?a div 4096)" by (rule unat_align_down)
  have e: "unat ?e = 4096 * ((?a + ?m + 4095) div 4096)" using unat_align_up [of "virtual_address seg + memory_size seg"] am sum by simp
  have se: "unat ?e = unat ?s + 4096 * ?n" using le s e n by (simp add: diff_mult_distrib2)
  have e48: "unat ?e \<le> 2 ^ 48"
  proof -
    have "unat ?e \<le> ?a + ?m + 4095" unfolding e by simp
    then show ?thesis using am by simp
  qed
  have s0: "unat ?s mod 4096 = 0" "unat ?s div 4096 = ?a div 4096" by (simp_all add: s)
  have sp: "{unat ?s div 4096 ..< unat ?s div 4096 + ?n} = segment_pages seg"
    using le s0(2) n by (simp add: segment_pages_def)
  have "unat ?s < 2 ^ 48" using am unfolding s by (simp add: less_mult_imp_div_less)
  then have pn: "page_number ?s = ?a div 4096" using s0(2) by (simp add: page_number_small)
  have rg: "regions_of (page_number ?s) ?n = segment_regions seg" by (simp add: pn segment_regions_def)
  from map_pages_until_exact [OF assms(1,3,4,2) s0(1) se e48]
  show thesis
    unfolding sp rg run_needs_tables_def allocate_and_map_pages_for_segment_def [symmetric]
  proof (elim disjE exE conjE)
    fix st' assume "allocate_and_map_pages_for_segment lk st root seg fl = Some (Err ElfLoadError.PageAllocationFailed, st')"
      "\<not> free_supply (allocator st) ?n"
    then show thesis by (rule that(1))
  next
    assume n: "allocate_and_map_pages_for_segment lk st root seg fl = None"
      "32 + (if 0 < ?n \<and> region_mapped P root ?s then 3 else 0) < next_bootstrap_index (paging st) + 3 * segment_regions seg"
    then show thesis by (intro that(2)) simp_all
  next
    fix st' P' assume m: "allocate_and_map_pages_for_segment lk st root seg fl = Some (Ok (), st')"
      "loader_inv lk T st' P' root" "maps_zeroed lk root st (segment_pages seg) fl st'"
      "next_bootstrap_index (paging st') + (if 0 < ?n \<and> region_mapped P root ?s then 3 else 0)
       \<le> next_bootstrap_index (paging st) + 3 * segment_regions seg"
      "\<forall>k. free_supply (allocator st) (?n + k) \<longrightarrow> free_supply (allocator st') k"
    then show thesis by (intro that(3) [OF m(1-3)]) simp_all
  qed
qed

lemma address_in_segment_pages:
  assumes "unat (virtual_address seg) \<le> x" "x < unat (virtual_address seg) + unat (memory_size seg)"
  shows "x div 4096 \<in> segment_pages seg"
proof -
  have "x div 4096 < (x + 4096) div 4096" by simp
  also have "\<dots> \<le> (unat (virtual_address seg) + unat (memory_size seg) + 4095) div 4096"
    using assms(2) by (intro div_le_mono) simp
  finally show ?thesis using assms(1) by (simp add: segment_pages_def div_le_mono)
qed

lemma maps_zeroed_at:
  assumes "maps_zeroed lk root st ps fl st'" "unat vb < 2 ^ 48"
  shows "if unat vb div 4096 \<in> ps
     then (\<exists>e. translate lk (paging st') root vb = Some e \<and> entry_flags e = fl) \<and> user_byte lk st' root vb = Some 0
     else translate lk (paging st') root vb = translate lk (paging st) root vb \<and>
       user_byte lk st' root vb = user_byte lk st root vb"
  using assms(1) [unfolded maps_zeroed_def, THEN spec, of vb] page_number_small [OF assms(2)] by simp

lemma writes_runD:
  assumes "writes_run lk st root dest i bs st'"
  shows wr_paging: "paging st' = paging st" and wr_allocator: "allocator st' = allocator st"
    and wr_byte: "unat vb < 2 ^ 48 \<Longrightarrow> user_byte lk st' root vb =
        (if unat dest + i \<le> unat vb \<and> unat vb < unat dest + i + length bs
         then Some (bs ! (unat vb - (unat dest + i))) else user_byte lk st root vb)"
  using assms unfolding writes_run_def by blast+

lemma zero_fill_exact:
  assumes "link_ok lk" "loader_inv lk T st P root" "segment_in_user_half seg"
    and "maps_zeroed lk root st0 (segment_pages seg) fl st1" "paging st = paging st1"
  obtains st' where "zero_fill_bss_portion_of_segment lk st root seg = Some (Ok (), st')" "loader_inv lk T st' P root"
    "paging st' = paging st" "allocator st' = allocator st"
    "\<And>vb. unat vb < 2 ^ 48 \<Longrightarrow> user_byte lk st' root vb =
        (if unat (virtual_address seg) + unat (file_size seg) \<le> unat vb \<and>
            unat vb < unat (virtual_address seg) + unat (memory_size seg)
         then Some 0 else user_byte lk st root vb)"
proof (cases "memory_size seg \<le> file_size seg")
  case True
  then show thesis using assms(2) by (intro that [of st]) (auto simp: zero_fill_bss_portion_of_segment_def word_le_nat_alt)
next
  case False
  let ?a = "unat (virtual_address seg)" and ?f = "unat (file_size seg)" and ?m = "unat (memory_size seg)"
  let ?d = "virtual_address seg + file_size seg" and ?z = "replicate (?m - ?f) (0 :: u8)"
  have fm: "?f < ?m" using False by (simp add: word_le_nat_alt)
  have am: "?a + ?m \<le> 2 ^ 47" using assms(3) by (simp add: segment_in_user_half_def)
  have d: "unat ?d = ?a + ?f" using am fm by (subst unat_add_fits) simp_all
  have c: "unat (memory_size seg - file_size seg) = ?m - ?f" using False by (intro unat_sub) simp
  have le: "unat ?d + 0 + length ?z \<le> 2 ^ 48" using d am fm by simp
  have mapped: "translate lk (paging st) root (?d + of_nat (0 + k)) \<noteq> None" if "k < length ?z" for k
  proof -
    have u: "unat (?d + of_nat (0 + k)) = ?a + ?f + k"
      using that d am fm by (subst unat_add_fits) (simp_all add: unat_of_nat_small)
    have "unat (?d + of_nat (0 + k)) div 4096 \<in> segment_pages seg"
      by (rule address_in_segment_pages) (use u that fm in simp_all)
    moreover have "unat (?d + of_nat (0 + k)) < 2 ^ 48" using u that am by simp
    ultimately show ?thesis using maps_zeroed_at [OF assms(4), of "?d + of_nat (0 + k)"] assms(5) by auto
  qed
  then have "\<forall>k < length ?z. translate lk (paging st) root (?d + of_nat (0 + k)) \<noteq> None" by blast
  with copy_bytes_exact [OF assms(1,2) le] obtain st' where st':
    "copy_bytes_from lk st root ?d 0 ?z = Some (Ok (), st')" "loader_inv lk T st' P root" "writes_run lk st root ?d 0 ?z st'"
    by (auto simp del: length_replicate)
  show thesis
  proof (rule that [OF _ st'(2) wr_paging [OF st'(3)] wr_allocator [OF st'(3)]])
    show "zero_fill_bss_portion_of_segment lk st root seg = Some (Ok (), st')"
      using False st'(1) by (simp add: zero_fill_bss_portion_of_segment_def write_zero_bytes_through_user_mapping_def
          zero_loop_is_copy c)
    show "user_byte lk st' root vb = (if ?a + ?f \<le> unat vb \<and> unat vb < ?a + ?m then Some 0 else user_byte lk st root vb)"
      if "unat vb < 2 ^ 48" for vb
      using wr_byte [OF st'(3) that] fm by (auto simp: d)
  qed
qed

lemma if_holdsD:
  "(if c then a else b) \<Longrightarrow> c \<Longrightarrow> a" "(if c then a else b) \<Longrightarrow> \<not> c \<Longrightarrow> b"
  by simp_all

lemma copy_segment_exact:
  assumes "link_ok lk" "loader_inv lk T st P root" "segment_in_user_half seg" "slice_len_ok elf" "segment_in_file elf seg"
  shows "if \<forall>k < unat (file_size seg). translate lk (paging st) root (virtual_address seg + of_nat k) \<noteq> None
    then \<exists>st'. copy_segment_bytes_into_user_pages lk st root elf seg = Some (Ok (), st') \<and> loader_inv lk T st' P root \<and>
      paging st' = paging st \<and> allocator st' = allocator st \<and>
      (\<forall>vb. unat vb < 2 ^ 48 \<longrightarrow> user_byte lk st' root vb =
        (if unat (virtual_address seg) \<le> unat vb \<and> unat vb < unat (virtual_address seg) + unat (file_size seg)
         then Some (elf ! (unat (file_offset seg) + (unat vb - unat (virtual_address seg))))
         else user_byte lk st root vb))
    else \<forall>st'. copy_segment_bytes_into_user_pages lk st root elf seg \<noteq> Some (Ok (), st')"
proof -
  let ?o = "unat (file_offset seg)" and ?f = "unat (file_size seg)"
  let ?src = "take ?f (drop ?o elf)"
  have of: "?o + ?f \<le> length elf" using assms(5) by (simp add: segment_in_file_def)
  then have w: "usize_wrapping_add ?o ?f = ?o + ?f"
    using assms(4) by (intro usize_wrapping_add_small) (simp add: slice_len_ok_def)
  have c: "copy_segment_bytes_into_user_pages lk st root elf seg = copy_bytes_from lk st root (virtual_address seg) 0 ?src"
    using of by (simp add: copy_segment_bytes_into_user_pages_def w slice_get_def copy_bytes_through_user_mapping_def)
  have len: "length ?src = ?f" using of by simp
  have le: "unat (virtual_address seg) + 0 + length ?src \<le> 2 ^ 48"
    using assms(3) len by (simp add: segment_in_user_half_def)
  have nth: "?src ! k = elf ! (?o + k)" if "k < ?f" for k using that of by simp
  show ?thesis
  proof (cases "\<forall>k < ?f. translate lk (paging st) root (virtual_address seg + of_nat k) \<noteq> None")
    case True
    then have "\<forall>k < length ?src. translate lk (paging st) root (virtual_address seg + of_nat (0 + k)) \<noteq> None"
      by (simp only: len add_0)
    from if_holdsD(1) [OF copy_bytes_exact [OF assms(1,2) le] this] obtain st' where st':
      "copy_bytes_from lk st root (virtual_address seg) 0 ?src = Some (Ok (), st')" "loader_inv lk T st' P root"
      "writes_run lk st root (virtual_address seg) 0 ?src st'" by blast
    have "user_byte lk st' root vb =
        (if unat (virtual_address seg) \<le> unat vb \<and> unat vb < unat (virtual_address seg) + ?f
         then Some (elf ! (?o + (unat vb - unat (virtual_address seg)))) else user_byte lk st root vb)" if "unat vb < 2 ^ 48" for vb
    proof -
      note b = wr_byte [OF st'(3) that, unfolded len add_0_right]
      show ?thesis
        using nth [of "unat vb - unat (virtual_address seg)"] unfolding b
        by (simp del: nth_take nth_drop add: less_diff_conv2)
    qed
    with True st' wr_paging [OF st'(3)] wr_allocator [OF st'(3)] show ?thesis
      unfolding c if_P [OF True] by blast
  next
    case False
    then have "\<not> (\<forall>k < length ?src. translate lk (paging st) root (virtual_address seg + of_nat (0 + k)) \<noteq> None)"
      by (simp only: len add_0 not_False_eq_True)
    from if_holdsD(2) [OF copy_bytes_exact [OF assms(1,2) le] this] show ?thesis
      unfolding c if_not_P [OF False] .
  qed
qed

lemma segment_flags_ok:
  assumes "translate_segment_flags_to_user_page_permissions (flags seg) = Ok p"
  shows "build_user_page_table_flags p = segment_page_flags seg"
  using assms by (auto simp: translate_segment_flags_to_user_page_permissions_def segment_page_flags_def and_then_Inr)

lemma load_one_segment_exact:
  assumes "link_ok lk" "loader_inv lk T st P root" "segment_in_user_half seg" "slice_len_ok elf" "segment_in_file elf seg"
  obtains (failed) e st' where "load_one_segment_into_user_page_table lk st root elf seg = Some (Err e, st')"
      "file_size seg \<le> memory_size seg \<Longrightarrow>
       translate_segment_flags_to_user_page_permissions (flags seg) = Err e \<or>
       e = ElfLoadError.PageAllocationFailed \<and> \<not> free_supply (allocator st) (segment_page_count seg)"
  | (stuck) "load_one_segment_into_user_page_table lk st root elf seg = None"
      "file_size seg \<le> memory_size seg \<Longrightarrow> 32 < next_bootstrap_index (paging st) + 3 * segment_regions seg"
  | (loaded) st' P' where "load_one_segment_into_user_page_table lk st root elf seg = Some (Ok (), st')"
      "loader_inv lk T st' P' root" "segment_loaded lk root elf seg st st'" "user_leaf_flags (segment_page_flags seg)"
      "next_bootstrap_index (paging st') \<le> next_bootstrap_index (paging st) + 3 * segment_regions seg"
      "\<And>k. free_supply (allocator st) (segment_page_count seg + k) \<Longrightarrow> free_supply (allocator st') k"
proof (cases "translate_segment_flags_to_user_page_permissions (flags seg)")
  case (Inl e)
  then show thesis
    by (intro that(1) [of e st] disjI1) (simp_all add: load_one_segment_into_user_page_table_def)
next
  case (Inr p)
  note fl = user_flags_exact(1,2) [OF Inr, unfolded segment_flags_ok [OF Inr]]
  have start: "load_one_segment_into_user_page_table lk st root elf seg =
     load_then (allocate_and_map_pages_for_segment lk st root seg (segment_page_flags seg)) (\<lambda>_ st.
     load_then (copy_segment_bytes_into_user_pages lk st root elf seg) (\<lambda>_ st.
     load_then (zero_fill_bss_portion_of_segment lk st root seg) (\<lambda>_ st. Some (Ok (), st))))"
    by (simp add: load_one_segment_into_user_page_table_def Inr segment_flags_ok [OF Inr])
  show thesis
  proof (cases rule: allocate_and_map_pages_exact [OF assms(1,2) fl assms(3), case_names failed full mapped])
    case (failed st')
    then show thesis
      by (intro that(1) [of ElfLoadError.PageAllocationFailed st']) (simp_all add: start)
  next
    case full
    then show thesis by (intro that(2)) (simp_all add: start)
  next
    case (mapped st1 P1)
    note cp = copy_segment_exact [OF assms(1) mapped(2) assms(3-5)]
    show thesis
    proof (cases "\<forall>k < unat (file_size seg). translate lk (paging st1) root (virtual_address seg + of_nat k) \<noteq> None")
      case True
      from if_holdsD(1) [OF cp this] obtain st2 where st2: "copy_segment_bytes_into_user_pages lk st1 root elf seg = Some (Ok (), st2)"
        "loader_inv lk T st2 P1 root" "paging st2 = paging st1" "allocator st2 = allocator st1"
        "\<And>vb. unat vb < 2 ^ 48 \<Longrightarrow> user_byte lk st2 root vb =
        (if unat (virtual_address seg) \<le> unat vb \<and> unat vb < unat (virtual_address seg) + unat (file_size seg)
         then Some (elf ! (unat (file_offset seg) + (unat vb - unat (virtual_address seg))))
         else user_byte lk st1 root vb)" by blast
      obtain st3 where st3: "zero_fill_bss_portion_of_segment lk st2 root seg = Some (Ok (), st3)" "loader_inv lk T st3 P1 root"
        "paging st3 = paging st2" "allocator st3 = allocator st2" "\<And>vb. unat vb < 2 ^ 48 \<Longrightarrow> user_byte lk st3 root vb =
        (if unat (virtual_address seg) + unat (file_size seg) \<le> unat vb \<and>
            unat vb < unat (virtual_address seg) + unat (memory_size seg)
         then Some 0 else user_byte lk st2 root vb)"
        by (rule zero_fill_exact [OF assms(1) st2(2) assms(3) mapped(3) st2(3)]) (rule that)
      have ld: "segment_loaded lk root elf seg st st3"
        unfolding segment_loaded_def
      proof (intro allI impI conjI)
        fix vb :: u64 assume v: "unat vb < 2 ^ 48"
        note mz = maps_zeroed_at [OF mapped(3) v]
        show "user_byte lk st3 root vb =
          (if unat (virtual_address seg) \<le> unat vb \<and> unat vb < unat (virtual_address seg) + unat (file_size seg)
           then Some (elf ! (unat (file_offset seg) + (unat vb - unat (virtual_address seg))))
           else if unat vb div 4096 \<in> segment_pages seg then Some 0 else user_byte lk st root vb)"
          using mz address_in_segment_pages [of seg "unat vb"] unfolding st3(5) [OF v] st2(5) [OF v] by (auto split: if_splits)
        show "if unat vb div 4096 \<in> segment_pages seg
         then \<exists>e. translate lk (paging st3) root vb = Some e \<and> entry_flags e = segment_page_flags seg
         else translate lk (paging st3) root vb = translate lk (paging st) root vb"
          using mz by (simp add: st3(3) st2(3) split: if_splits)
      qed
      have "load_one_segment_into_user_page_table lk st root elf seg = Some (Ok (), st3)"
        using mapped(1) st2(1) st3(1) by (simp add: start)
      moreover have "next_bootstrap_index (paging st3) \<le> next_bootstrap_index (paging st) + 3 * segment_regions seg"
        using mapped(4) by (simp add: st3(3) st2(3))
      moreover have "free_supply (allocator st3) k" if "free_supply (allocator st) (segment_page_count seg + k)" for k
        using mapped(5) [OF that] by (simp add: st3(4) st2(4))
      ultimately show thesis by (intro that(3) [OF _ st3(2) ld fl(2)])
    next
      case False
      from if_holdsD(2) [OF cp this]
      have no: "copy_segment_bytes_into_user_pages lk st1 root elf seg \<noteq> Some (Ok (), st')" for st' by blast
      have small: "\<not> file_size seg \<le> memory_size seg"
      proof
        assume le: "file_size seg \<le> memory_size seg"
        have "translate lk (paging st1) root (virtual_address seg + of_nat k) \<noteq> None" if "k < unat (file_size seg)" for k
        proof -
          have u: "unat (virtual_address seg + of_nat k) = unat (virtual_address seg) + k"
            using that assms(3) by (subst unat_add_fits) (simp_all add: unat_of_nat_small segment_in_user_half_def)
          have "unat (virtual_address seg + of_nat k) div 4096 \<in> segment_pages seg"
            by (rule address_in_segment_pages) (use u that le in \<open>simp_all add: word_le_nat_alt\<close>)
          moreover have "unat (virtual_address seg + of_nat k) < 2 ^ 48"
            using u that assms(3) by (simp add: segment_in_user_half_def)
          ultimately show ?thesis using maps_zeroed_at [OF mapped(3), of "virtual_address seg + of_nat k"] by auto
        qed
        with False show False by blast
      qed
      show thesis
      proof (cases "copy_segment_bytes_into_user_pages lk st1 root elf seg")
        case None
        then show thesis using mapped(1) small by (intro that(2)) (simp_all add: start)
      next
        case (Some rs)
        then obtain e st' where "copy_segment_bytes_into_user_pages lk st1 root elf seg = Some (Err e, st')"
          using no by (cases rs; cases "fst rs") auto
        then show thesis using mapped(1) small by (intro that(1)) (simp_all add: start)
      qed
    qed
  qed
qed

end
