(* ===== verification/Process_Image.thy ===== *)
theory Process_Image
  imports Process_Launch Loaded_Image
begin

text \<open>
  The address space of a process loaded from an ELF image: the segments in order, the stack, and the
  trampoline pages. \<open>owner\<close> and \<open>segment_byte\<close> describe it from the segment list alone; the loader is
  proved to build exactly that.
\<close>

section \<open>A fresh address space\<close>

lemma new_root_wf:
  fixes st
  defines "c \<equiv> BootstrapTable (next_bootstrap_index st)"
    and "st' \<equiv> st\<lparr>next_bootstrap_index := Suc (next_bootstrap_index st)\<rparr>"
  assumes "paging_wf lk st P" "next_bootstrap_index st < 32"
  shows "paging_wf lk st' (P(c \<mapsto> (c, [])))"
proof -
  let ?P = "P(c \<mapsto> (c, []))"
  note wf = assms(3)
  have c: "P c = None" "table_entries st c = page_table_new" "valid_table c" "c \<noteq> KernelPml4"
    using fresh_table [OF wf assms(4)] assms(4) by (simp_all add: c_def)
  have ent: "table_entries st' x = table_entries st x" for x by (simp add: st'_def)
  have old: "x \<noteq> c" if "P x = Some p" for x p using that c(1) by auto
  have links: "links_to lk st' x k d = links_to lk st x k d" "huge_leaf st' x js k = huge_leaf st x js k" for x k d js
    by (simp_all add: links_to_def huge_leaf_def ent)
  have use: "table_in_use st' x \<longleftrightarrow> table_in_use st x \<or> x = c" for x by (cases x) (auto simp: c_def st'_def)
  show ?thesis
    unfolding paging_wf_def
  proof (intro conjI allI impI)
    show "sizes_ok st'" using wf_sizes [OF wf] assms(4) by (simp add: sizes_ok_def ent) (simp add: st'_def)
    show "?P x \<noteq> None \<longleftrightarrow> valid_table x \<and> table_in_use st' x" for x
      using wf_dom [OF wf, of x] c(3) by (cases "x = c") (simp_all add: use)
    show "table_entries st' x = page_table_new" if "valid_table x \<and> \<not> table_in_use st' x" for x
      using wf_unused [OF wf, of x] that by (simp add: ent use)
    show "?P KernelPml4 = Some (KernelPml4, [])" using wf_kernel [OF wf] c(4) by simp
    show "i < 512" "\<exists>u. ?P u = Some (r, js) \<and> links_to lk st' u i x" if "?P x = Some (r, js @ [i])" for x r js i
    proof -
      have "P x = Some (r, js @ [i])" using that by (simp split: if_splits)
      from wf_parent [OF wf this] obtain u where "i < 512" "P u = Some (r, js)" "links_to lk st u i x" by blast
      moreover have "u \<noteq> c" by (rule old [OF calculation(2)])
      ultimately show "i < 512" "\<exists>u. ?P u = Some (r, js) \<and> links_to lk st' u i x"
        unfolding links by (simp, intro exI [of _ u]) simp
    qed
    show "huge_leaf st' x js i \<or> (\<exists>d. ?P d = Some (r, js @ [i]) \<and> links_to lk st' x i d)"
      if "?P x = Some (r, js) \<and> length js < 3 \<and> i < 512 \<and> table_entries st' x ! i \<noteq> 0" for x r js i
    proof -
      have "x \<noteq> c" using that c(2) by (auto simp: ent)
      then have "P x = Some (r, js)" using that by simp
      from wf_child [OF wf this] that
      have "huge_leaf st x js i \<or> (\<exists>d. P d = Some (r, js @ [i]) \<and> links_to lk st x i d)" by (simp add: ent)
      then show ?thesis unfolding links
      proof
        assume "\<exists>d. P d = Some (r, js @ [i]) \<and> links_to lk st x i d"
        then obtain d where d: "P d = Some (r, js @ [i])" "links_to lk st x i d" by blast
        then have "?P d = Some (r, js @ [i])" using old [OF d(1)] by simp
        with d(2) show "huge_leaf st x js i \<or> (\<exists>d. ?P d = Some (r, js @ [i]) \<and> links_to lk st x i d)" by blast
      qed blast
    qed
    fix x r js
    assume x: "?P x = Some (r, js)"
    have "length js \<le> 3 \<and> ?P r = Some (r, []) \<and> (js = [] \<longrightarrow> x = r)"
      using x wf_path [OF wf, of x r js] old by (auto split: if_splits)
    then show "length js \<le> 3" "?P r = Some (r, [])" "js = [] \<Longrightarrow> x = r" by blast+
  qed (use wf_direct [OF wf] in \<open>auto simp: c_def\<close>)
qed

lemma allocate_root_exact:
  assumes "link_ok lk" "paging_wf lk st P"
  obtains (full) "allocate_user_page_map_level_4 st = None" "32 \<le> next_bootstrap_index st"
  | (fresh) root st' P' where "allocate_user_page_map_level_4 st = Some (root, st')" "paging_wf lk st' P'"
      "P' root = Some (root, [])" "root \<noteq> KernelPml4" "P root = None" "\<And>va. address_space lk st' root va = (None, [])"
      "next_bootstrap_index st' = Suc (next_bootstrap_index st)"
      "\<And>r va. P' r = Some (r, []) \<Longrightarrow> r \<noteq> root \<Longrightarrow> address_space lk st' r va = address_space lk st r va"
      "\<And>x p. P x = Some p \<Longrightarrow> P' x = Some p"
proof (cases "next_bootstrap_index st < 32")
  case False
  then show thesis by (intro full)
    (simp_all add: allocate_user_page_map_level_4_def allocate_bootstrap_page_table_def BOOTSTRAP_PAGE_TABLE_PAGE_COUNT_def)
next
  case True
  let ?c = "BootstrapTable (next_bootstrap_index st)" and ?st = "st\<lparr>next_bootstrap_index := Suc (next_bootstrap_index st)\<rparr>"
  let ?P = "P(?c \<mapsto> (?c, []))"
  note c = fresh_table [OF assms(2) True]
  note wf = new_root_wf [OF assms(2) True]
  have root: "?P ?c = Some (?c, [])" by simp
  have ent: "table_entries ?st x = table_entries st x" for x by simp
  have ch: "child_table lk ?st x k = child_table lk st x k" for x k by (simp add: child_table_def ent)
  have walk: "table_walk lk ?st x ks = table_walk lk st x ks" for x ks by (induction ks arbitrary: x) (simp_all add: ch)
  have flags: "path_flags lk ?st x ks = path_flags lk st x ks" for x ks
    by (induction ks arbitrary: x) (simp_all add: ch ent split: option.split)
  have same: "address_space lk ?st r va = address_space lk st r va" for r va
    by (simp add: address_space_def flags translate_def walk ent)
  have "path_flags lk st ?c (table_indices va) = []" for va
    by (rule path_flags_empty [OF c(2)]) (simp add: table_indices_def index_bounds)
  moreover have "child_table lk st ?c (extract_page_map_level_4_index va) = None" for va
    unfolding child_table_def c(2) by (simp add: index_bounds)
  ultimately have none: "address_space lk st ?c va = (None, [])" for va
    by (simp add: address_space_def translate_def table_indices_def)
  show thesis
  proof (rule fresh [OF _ wf root _ c(1)])
    show "allocate_user_page_map_level_4 st = Some (?c, ?st)"
      using True by (simp add: allocate_user_page_map_level_4_def allocate_bootstrap_page_table_def
          BOOTSTRAP_PAGE_TABLE_PAGE_COUNT_def usize_wrapping_add_small Let_def)
    show "address_space lk ?st ?c va = (None, [])" for va unfolding same by (rule none)
    show "address_space lk ?st r va = address_space lk st r va" for r va by (rule same)
    show "?P x = Some p" if "P x = Some p" for x p using that c(1) by auto
  qed simp_all
qed

section \<open>The image\<close>

definition segment_byte :: "bytes \<Rightarrow> LoadableSegment \<Rightarrow> u64 \<Rightarrow> u8" where
  "segment_byte elf seg vb =
     (if unat (virtual_address seg) \<le> unat vb \<and> unat vb < unat (virtual_address seg) + unat (file_size seg)
      then elf ! (unat (file_offset seg) + (unat vb - unat (virtual_address seg))) else 0)"

text \<open>Where segments share a page, the later one has it.\<close>

fun owner :: "LoadableSegment list \<Rightarrow> nat \<Rightarrow> LoadableSegment option" where
  "owner [] page = None"
| "owner (seg # segs) page =
     (case owner segs page of
        Some later \<Rightarrow> Some later
      | None \<Rightarrow> if page \<in> segment_pages seg then Some seg else None)"

definition segments_loaded ::
  "link_addresses \<Rightarrow> table_ref \<Rightarrow> bytes \<Rightarrow> LoadableSegment list \<Rightarrow> LoaderState \<Rightarrow> LoaderState \<Rightarrow> bool" where
  "segments_loaded lk root elf segs st st' \<longleftrightarrow>
     (\<forall>vb. unat vb < 2 ^ 48 \<longrightarrow>
        (case owner segs (unat vb div 4096) of
           None \<Rightarrow> user_byte lk st' root vb = user_byte lk st root vb \<and>
             translate lk (paging st') root vb = translate lk (paging st) root vb
         | Some seg \<Rightarrow> user_byte lk st' root vb = Some (segment_byte elf seg vb) \<and>
             (\<exists>e. translate lk (paging st') root vb = Some e \<and> entry_flags e = segment_page_flags seg)))"

definition segment_loadable :: "bytes \<Rightarrow> LoadableSegment \<Rightarrow> bool" where
  "segment_loadable elf seg \<longleftrightarrow> segment_in_user_half seg \<and> segment_in_file elf seg \<and> file_size seg \<le> memory_size seg"

definition segment_flags_ok :: "LoadableSegment \<Rightarrow> bool" where
  "segment_flags_ok seg \<longleftrightarrow> flags seg AND 4 \<noteq> 0 \<and> \<not> segment_is_write_execute seg"

definition image_pages :: "LoadableSegment list \<Rightarrow> nat" where
  "image_pages segs = sum_list (map segment_page_count segs)"

definition image_regions :: "LoadableSegment list \<Rightarrow> nat" where
  "image_regions segs = sum_list (map segment_regions segs)"

lemma segment_flags_ok_iff:
  "segment_flags_ok seg \<longleftrightarrow> (\<exists>p. translate_segment_flags_to_user_page_permissions (flags seg) = Ok p)"
  by (auto simp: segment_flags_ok_def segment_is_write_execute_def translate_segment_flags_to_user_page_permissions_def
      reject_writable_and_executable_combination_def reject_non_readable_segment_def elf_constants and_then_def
      Let_def split: if_splits)

lemma segments_loaded_Cons:
  assumes "segment_loadable elf seg" "segment_loaded lk root elf seg st st1" "segments_loaded lk root elf segs st1 st2"
  shows "segments_loaded lk root elf (seg # segs) st st2"
  unfolding segments_loaded_def
proof (intro allI impI)
  fix vb :: u64 assume v: "unat vb < 2 ^ 48"
  have fm: "unat (file_size seg) \<le> unat (memory_size seg)"
    using assms(1) by (simp add: segment_loadable_def word_le_nat_alt)
  have in_pages: "unat vb div 4096 \<in> segment_pages seg"
    if "unat (virtual_address seg) \<le> unat vb \<and> unat vb < unat (virtual_address seg) + unat (file_size seg)"
    by (rule address_in_segment_pages) (use that fm in simp_all)
  note one = assms(2) [unfolded segment_loaded_def, rule_format, OF v]
  note rest = assms(3) [unfolded segments_loaded_def, rule_format, OF v]
  show "case owner (seg # segs) (unat vb div 4096) of
           None \<Rightarrow> user_byte lk st2 root vb = user_byte lk st root vb \<and>
             translate lk (paging st2) root vb = translate lk (paging st) root vb
         | Some seg \<Rightarrow> user_byte lk st2 root vb = Some (segment_byte elf seg vb) \<and>
             (\<exists>e. translate lk (paging st2) root vb = Some e \<and> entry_flags e = segment_page_flags seg)"
  proof (cases "owner segs (unat vb div 4096)")
    case (Some later)
    then show ?thesis using rest by simp
  next
    case None
    note r = rest [unfolded None option.case]
    show ?thesis
    proof (cases "unat vb div 4096 \<in> segment_pages seg")
      case True
      then show ?thesis using one r None unfolding segment_byte_def by auto
    next
      case False
      then show ?thesis using one r None in_pages by auto
    qed
  qed
qed

text \<open>The slots of the array the parser fills.\<close>

fun present :: "'a option list \<Rightarrow> 'a list" where
  "present [] = []"
| "present (None # xs) = present xs"
| "present (Some x # xs) = x # present xs"

lemma present_append [simp]: "present (xs @ ys) = present xs @ present ys"
  by (induction xs rule: present.induct) simp_all

lemma present_map_Some [simp]: "present (map Some xs) = xs"
  by (induction xs) simp_all

lemma present_replicate_None [simp]: "present (replicate n None) = []"
  by (induction n) simp_all

lemma present_segment_slots [simp]: "present (segment_slots segs) = take 8 segs"
  by (simp add: segment_slots_def)

lemma load_segments_exact:
  assumes "link_ok lk" "slice_len_ok elf"
  shows "loader_inv lk T st P root \<Longrightarrow> list_all (segment_loadable elf) (present arr) \<Longrightarrow>
    (\<exists>e st'. load_segments_into_user_page_table lk st root elf arr = Some (Err e, st') \<and>
       \<not> (list_all segment_flags_ok (present arr) \<and> free_supply (allocator st) (image_pages (present arr)))) \<or>
    (load_segments_into_user_page_table lk st root elf arr = None \<and>
       32 < next_bootstrap_index (paging st) + 3 * image_regions (present arr)) \<or>
    (\<exists>st' P'. load_segments_into_user_page_table lk st root elf arr = Some (Ok (), st') \<and> loader_inv lk T st' P' root \<and>
       list_all segment_flags_ok (present arr) \<and> segments_loaded lk root elf (present arr) st st' \<and>
       next_bootstrap_index (paging st') \<le> next_bootstrap_index (paging st) + 3 * image_regions (present arr) \<and>
       (\<forall>k. free_supply (allocator st) (image_pages (present arr) + k) \<longrightarrow> free_supply (allocator st') k))"
proof (induction arr arbitrary: st P rule: present.induct)
  case 1
  then show ?case by (auto simp: segments_loaded_def image_regions_def image_pages_def)
next
  case (2 xs)
  then show ?case by (simp add: load_optional_segment_into_user_page_table_def)
next
  case (3 seg xs)
  have sl: "segment_loadable elf seg" "list_all (segment_loadable elf) (present xs)" using 3(3) by simp_all
  have s: "segment_in_user_half seg" "segment_in_file elf seg" "file_size seg \<le> memory_size seg"
    using sl(1) by (simp_all add: segment_loadable_def)
  have start: "load_segments_into_user_page_table lk st root elf (Some seg # xs) =
     load_then (load_one_segment_into_user_page_table lk st root elf seg) (\<lambda>_ st1.
       load_segments_into_user_page_table lk st1 root elf xs)"
    by (simp add: load_optional_segment_into_user_page_table_def)
  have sums: "image_pages (present (Some seg # xs)) = segment_page_count seg + image_pages (present xs)"
    "image_regions (present (Some seg # xs)) = segment_regions seg + image_regions (present xs)"
    by (simp_all add: image_pages_def image_regions_def)
  show ?case
  proof (cases rule: load_one_segment_exact [OF assms(1) 3(2) s(1) assms(2) s(2), case_names failed stuck loaded])
    case (failed e st')
    have "\<not> (segment_flags_ok seg \<and> free_supply (allocator st) (segment_page_count seg))"
      using failed(2) [OF s(3)] by (auto simp: segment_flags_ok_iff)
    then have "\<not> (list_all segment_flags_ok (present (Some seg # xs)) \<and>
        free_supply (allocator st) (image_pages (present (Some seg # xs))))"
      unfolding sums
      using free_supply_mono [of "allocator st" "segment_page_count seg + image_pages (present xs)" "segment_page_count seg"]
      by auto
    then show ?thesis using failed(1) unfolding start by auto
  next
    case stuck
    then show ?thesis using s(3) unfolding start sums by auto
  next
    case (loaded st1 P1)
    have f: "segment_flags_ok seg"
    proof (rule ccontr)
      assume "\<not> segment_flags_ok seg"
      then obtain e where "translate_segment_flags_to_user_page_permissions (flags seg) = Err e"
        unfolding segment_flags_ok_iff by (cases "translate_segment_flags_to_user_page_permissions (flags seg)") auto
      then show False using loaded(1) by (simp add: load_one_segment_into_user_page_table_def)
    qed
    have eq: "load_segments_into_user_page_table lk st root elf (Some seg # xs) =
        load_segments_into_user_page_table lk st1 root elf xs" using loaded(1) unfolding start by simp
    from 3(1) [OF loaded(2) sl(2)] show ?thesis
    proof (elim disjE exE conjE)
      fix e st' assume r: "load_segments_into_user_page_table lk st1 root elf xs = Some (Err e, st')"
        "\<not> (list_all segment_flags_ok (present xs) \<and> free_supply (allocator st1) (image_pages (present xs)))"
      then have "\<not> (list_all segment_flags_ok (present (Some seg # xs)) \<and>
          free_supply (allocator st) (image_pages (present (Some seg # xs))))"
        unfolding sums using loaded(6) by auto
      then show ?thesis using r(1) unfolding eq by blast
    next
      assume "load_segments_into_user_page_table lk st1 root elf xs = None"
        "32 < next_bootstrap_index (paging st1) + 3 * image_regions (present xs)"
      then show ?thesis using loaded(5) unfolding eq sums by auto
    next
      fix st' P' assume r: "load_segments_into_user_page_table lk st1 root elf xs = Some (Ok (), st')"
        "loader_inv lk T st' P' root" "list_all segment_flags_ok (present xs)"
        "segments_loaded lk root elf (present xs) st1 st'"
        "next_bootstrap_index (paging st') \<le> next_bootstrap_index (paging st1) + 3 * image_regions (present xs)"
        "\<forall>k. free_supply (allocator st1) (image_pages (present xs) + k) \<longrightarrow> free_supply (allocator st') k"
      have "segments_loaded lk root elf (present (Some seg # xs)) st st'"
        using segments_loaded_Cons [OF sl(1) loaded(3) r(4)] by simp
      moreover have "list_all segment_flags_ok (present (Some seg # xs))" using f r(3) by simp
      moreover have "next_bootstrap_index (paging st') \<le>
          next_bootstrap_index (paging st) + 3 * image_regions (present (Some seg # xs))"
        unfolding sums using r(5) loaded(5) by simp
      moreover have "free_supply (allocator st') k"
        if "free_supply (allocator st) (image_pages (present (Some seg # xs)) + k)" for k
        using r(6) loaded(6) [of "image_pages (present xs) + k"] that unfolding sums by (simp add: add.assoc)
      ultimately show ?thesis using r(1,2) unfolding eq by blast
    qed
  qed
qed

section \<open>The stack\<close>

definition stack_pages :: "nat set" where
  "stack_pages = {2032 ..< 2048}"

lemma stack_loop_is_run:
  assumes "unat b + 4096 * (i + n) \<le> 2 ^ 48"
  shows "map_stack_pages_from lk st root b i n fl =
    map_pages_until lk st root (b + of_nat i * 4096) (b + of_nat (i + n) * 4096) fl"
  using assms
proof (induction n arbitrary: st i)
  case 0
  then show ?case by (simp add: map_pages_until.simps)
next
  case (Suc n)
  have u: "unat (b + of_nat k * 4096) = unat b + 4096 * k" if "k \<le> i + Suc n" for k
  proof -
    have "unat b + 4096 * k \<le> 2 ^ 48" using Suc.prems that by (meson add_left_mono le_trans mult_le_mono2)
    moreover have "(of_nat k * 4096 :: u64) = of_nat (4096 * k)" by simp
    ultimately show ?thesis by (subst unat_add_fits) (simp_all add: unat_of_nat_small del: of_nat_mult)
  qed
  have lt: "b + of_nat i * 4096 < b + of_nat (i + Suc n) * 4096"
    unfolding word_less_nat_alt using u [of i] u [of "i + Suc n"] by simp
  have nx: "b + of_nat i * 4096 + 4096 = b + of_nat (Suc i) * 4096" by (simp add: algebra_simps)
  have "map_stack_pages_from lk st1 root b (Suc i) n fl =
      map_pages_until lk st1 root (b + of_nat i * 4096 + 4096) (b + of_nat (i + Suc n) * 4096) fl" for st1
    using Suc.IH [of "Suc i" st1] Suc.prems unfolding nx by simp
  then show ?case
    using lt by (subst map_pages_until.simps)
      (auto simp: page_size_word load_then_def split: option.splits sum.splits)
qed

lemma stack_flags:
  "flags_ok build_user_stack_page_flags" "user_leaf_flags build_user_stack_page_flags"
  by (simp_all add: build_user_stack_page_flags_def flags_ok_def user_leaf_flags_def write_xor_execute_def flags_contain_def
      page_flag_defs physical_address_mask_def)

lemma map_stack_exact:
  assumes "link_ok lk" "loader_inv lk T st P root"
  obtains (failed) e st' where "map_stack_pages_in_user_page_table lk st root = Some (Err e, st')"
      "\<not> free_supply (allocator st) 16"
  | (stuck) "map_stack_pages_in_user_page_table lk st root = None" "29 < next_bootstrap_index (paging st)"
  | (mapped) st' P' where "map_stack_pages_in_user_page_table lk st root = Some (Ok (), st')" "loader_inv lk T st' P' root"
      "maps_zeroed lk root st stack_pages build_user_stack_page_flags st'"
      "next_bootstrap_index (paging st') \<le> next_bootstrap_index (paging st) + 3"
proof -
  let ?b = "0x7F0000 :: u64" and ?e = "0x800000 :: u64"
  have run: "map_stack_pages_in_user_page_table lk st root = map_pages_until lk st root ?b ?e build_user_stack_page_flags"
    using stack_loop_is_run [of ?b 0 16]
    by (simp add: map_stack_pages_in_user_page_table_def map_stack_pages_in_range_def compute_stack_bottom_address_def
        compute_total_stack_pages_def layout_constants)
  have b: "unat ?b mod 4096 = 0" "unat ?e = unat ?b + 4096 * 16" "unat ?e \<le> 2 ^ 48" by simp_all
  have p: "{unat ?b div 4096 ..< unat ?b div 4096 + 16} = stack_pages" by (simp add: stack_pages_def)
  have pn: "page_number ?b = 2032" by (simp add: page_number_small)
  have rg: "regions_of (page_number ?b) 16 = 1" unfolding pn by (simp add: regions_of_def)
  from map_pages_until_exact [OF assms(1) stack_flags assms(2) b] show thesis
    unfolding p rg run_needs_tables_def run [symmetric]
    by (elim disjE exE conjE) (auto intro: that split: if_splits)
qed

section \<open>The trampoline\<close>

definition trampoline_link_ok :: "trampoline_link \<Rightarrow> bool" where
  "trampoline_link_ok tr \<longleftrightarrow>
     trampoline_code_virtual_base tr - KERNEL_BINARY_VIRTUAL_ADDRESS < 0x3FF000 \<and>
     scratch_page_virtual_base tr - KERNEL_BINARY_VIRTUAL_ADDRESS < 0x400000 \<and>
     scratch_page_virtual_base tr \<noteq> trampoline_code_virtual_base tr \<and>
     scratch_page_virtual_base tr \<noteq> trampoline_code_virtual_base tr + 0x1000"

definition trampoline_pages :: "trampoline_link \<Rightarrow> (u64 \<times> page_flags) list" where
  "trampoline_pages tr = [(trampoline_code_virtual_base tr, PRESENT), (trampoline_code_virtual_base tr + 0x1000, PRESENT),
     (scratch_page_virtual_base tr, PRESENT OR WRITABLE OR NO_EXECUTE)]"

fun trampoline_entry :: "(u64 \<times> page_flags) list \<Rightarrow> u64 \<Rightarrow> page_entry option" where
  "trampoline_entry [] vb = None"
| "trampoline_entry ((va, fl) # ps) vb =
     (case trampoline_entry ps vb of
        Some e \<Rightarrow> Some e
      | None \<Rightarrow> if page_number vb = page_number va then Some (kernel_frame va OR fl) else None)"

definition kernel_page :: "u64 \<times> page_flags \<Rightarrow> bool" where
  "kernel_page p \<longleftrightarrow> fst p mod 4096 = 0 \<and> fst p - KERNEL_BINARY_VIRTUAL_ADDRESS < 0x400000 \<and>
     flags_ok (snd p) \<and> write_xor_execute (snd p) \<and> \<not> flags_contain (snd p) USER_ACCESSIBLE"

lemma align_down_aligned: "align_down_to_page va mod 4096 = 0"
proof -
  have "align_down_to_page va = va AND NOT (mask 12)" by (simp add: align_down_to_page_def mask_eq_exp_minus_1)
  then have "take_bit 12 (align_down_to_page va) = 0" by (auto intro!: bit_word_eqI simp: bit_simps)
  then show ?thesis by (simp add: take_bit_eq_mod)
qed

lemma kernel_offset_unat:
  assumes "va - KERNEL_BINARY_VIRTUAL_ADDRESS < 0x400000"
  shows "unat va = 0xFFFFFFFF80100000 + unat (va - KERNEL_BINARY_VIRTUAL_ADDRESS)"
proof -
  have "va = KERNEL_BINARY_VIRTUAL_ADDRESS + (va - KERNEL_BINARY_VIRTUAL_ADDRESS)" by simp
  moreover have "unat (KERNEL_BINARY_VIRTUAL_ADDRESS + (va - KERNEL_BINARY_VIRTUAL_ADDRESS)) =
      unat KERNEL_BINARY_VIRTUAL_ADDRESS + unat (va - KERNEL_BINARY_VIRTUAL_ADDRESS)"
    using assms by (intro unat_add_fits) (simp add: word_less_nat_alt KERNEL_BINARY_VIRTUAL_ADDRESS_def)
  ultimately show ?thesis by (simp add: KERNEL_BINARY_VIRTUAL_ADDRESS_def)
qed

lemma kernel_page_high:
  assumes "va - KERNEL_BINARY_VIRTUAL_ADDRESS < 0x400000"
  shows "2 ^ 35 \<le> page_number va"
proof -
  let ?o = "unat (va - KERNEL_BINARY_VIRTUAL_ADDRESS)"
  have "?o < 0x400000" using assms by (simp add: word_less_nat_alt)
  then have "?o div 4096 < 1024" by (simp add: less_mult_imp_div_less)
  moreover have "unat va div 4096 = 0xFFFFFFFF80100 + ?o div 4096" using kernel_offset_unat [OF assms] by simp
  moreover have "(0xFFFFFFFF80100 + x) mod 2 ^ 36 = 0xFFFF80100 + x" if "x < 1024" for x :: nat
  proof -
    have e: "0xFFFFFFFF80100 + x = (0xFFFF80100 + x) + 65535 * 2 ^ 36" by simp
    show ?thesis unfolding e mod_mult_self1 using that by (intro mod_less) simp
  qed
  ultimately have "page_number va = 0xFFFF80100 + ?o div 4096" by (simp only: page_number_def)
  then show ?thesis by simp
qed

lemma trampoline_pages_kernel:
  assumes "trampoline_link_ok tr"
  shows "list_all kernel_page (trampoline_pages tr)"
proof -
  let ?c = "trampoline_code_virtual_base tr"
  have c: "unat (?c - KERNEL_BINARY_VIRTUAL_ADDRESS) < 0x3FF000"
    using assms by (simp add: trampoline_link_ok_def word_less_nat_alt)
  have sum: "?c + 0x1000 - KERNEL_BINARY_VIRTUAL_ADDRESS = (?c - KERNEL_BINARY_VIRTUAL_ADDRESS) + 0x1000" by simp
  have "unat ((?c - KERNEL_BINARY_VIRTUAL_ADDRESS) + 0x1000) = unat (?c - KERNEL_BINARY_VIRTUAL_ADDRESS) + 0x1000"
    using c by (subst unat_add_fits) simp_all
  then have c1: "?c + 0x1000 - KERNEL_BINARY_VIRTUAL_ADDRESS < 0x400000" using c unfolding sum word_less_nat_alt by simp
  have c0: "?c - KERNEL_BINARY_VIRTUAL_ADDRESS < 0x400000" using c by (simp add: word_less_nat_alt)
  have a: "?c mod 4096 = 0" "scratch_page_virtual_base tr mod 4096 = 0" "(?c + 0x1000) mod 4096 = 0"
    using align_down_aligned page_aligned_arith(1) [of ?c "0x1000"]
    by (simp_all add: trampoline_code_virtual_base_def scratch_page_virtual_base_def)
  have f: "flags_ok PRESENT" "flags_ok (PRESENT OR WRITABLE OR NO_EXECUTE)" "write_xor_execute PRESENT"
    "write_xor_execute (PRESENT OR WRITABLE OR NO_EXECUTE)" "\<not> flags_contain PRESENT USER_ACCESSIBLE"
    "\<not> flags_contain (PRESENT OR WRITABLE OR NO_EXECUTE) USER_ACCESSIBLE"
    by (simp_all add: flags_ok_def write_xor_execute_def flags_contain_def page_flag_defs physical_address_mask_def)
  show ?thesis using assms a c0 c1 f by (simp add: trampoline_pages_def kernel_page_def trampoline_link_ok_def)
qed

text \<open>The pages are mapped one after the other.\<close>

fun map_kernel_pages :: "link_addresses \<Rightarrow> PagingStatics \<Rightarrow> table_ref \<Rightarrow> (u64 \<times> page_flags) list \<Rightarrow> PagingStatics option" where
  "map_kernel_pages lk st root [] = Some st"
| "map_kernel_pages lk st root ((va, fl) # ps) =
     Option.bind (map_kernel_page_into_user lk st root va fl) (\<lambda>st1. map_kernel_pages lk st1 root ps)"

lemma map_trampoline_is_run:
  "map_trampoline_into_user_page_table lk tr st root = map_kernel_pages lk st root (trampoline_pages tr)"
  by (simp add: map_trampoline_into_user_page_table_def trampoline_pages_def Let_def)

lemma map_kernel_page_exact:
  assumes "link_ok lk" "paging_wf lk st P" "P root = Some (root, [])" "root \<noteq> KernelPml4" "kernel_page (va, fl)"
  obtains (stuck) "map_kernel_page_into_user lk st root va fl = None" "29 < next_bootstrap_index st"
  | (mapped) st' P' where "map_kernel_page_into_user lk st root va fl = Some st'"
      "maps_page lk st P root va (kernel_frame va OR fl) st' P'"
proof -
  have k: "va mod 4096 = 0" "va - KERNEL_BINARY_VIRTUAL_ADDRESS < 0x400000" "flags_ok fl" "write_xor_execute fl"
    using assms(5) by (simp_all add: kernel_page_def)
  note f = kernel_frame_ok [OF k(1,2)]
  have kr: "root = KernelPml4 \<longrightarrow> extract_page_map_level_4_index va \<noteq> DIRECT_MAP_SLOT" using assms(4) by blast
  show thesis
  proof (cases rule: map_single_page_exact [OF assms(1-3) kr f(1) k(3), case_names violation full mapped])
    case violation
    then show thesis using k(4) by (simp add: write_xor_execute_def)
  next
    case full
    then show thesis using f(2) missing_tables_bounds [OF assms(1-3), of va]
      by (intro stuck) (simp_all add: map_kernel_page_into_user_def split: if_splits)
  next
    case (mapped st' P')
    then show thesis using f(2) by (intro that(2)) (simp_all add: map_kernel_page_into_user_def)
  qed
qed

lemma user_half_index: "page_number va < 2 ^ 35 \<longleftrightarrow> extract_page_map_level_4_index va < 256"
  using page_number_digits [of va] index_bounds [of va] by auto

lemma map_kernel_pages_exact:
  assumes "link_ok lk" "root \<noteq> KernelPml4"
  shows "paging_wf lk st P \<Longrightarrow> P root = Some (root, []) \<Longrightarrow> list_all kernel_page ps \<Longrightarrow>
    (map_kernel_pages lk st root ps = None \<and> 32 < next_bootstrap_index st + 3 * length ps) \<or>
    (\<exists>st' P'. map_kernel_pages lk st root ps = Some st' \<and> paging_wf lk st' P' \<and> P' root = Some (root, []) \<and>
       (\<forall>x p. P x = Some p \<longrightarrow> P' x = Some p) \<and>
       (\<forall>vb. translate lk st' root vb =
          (case trampoline_entry ps vb of Some e \<Rightarrow> Some e | None \<Rightarrow> translate lk st root vb)) \<and>
       (\<forall>vb. page_number vb < 2 ^ 35 \<longrightarrow>
          path_flags lk st' root (table_indices vb) = path_flags lk st root (table_indices vb)) \<and>
       (\<forall>r. P r = Some (r, []) \<longrightarrow> r \<noteq> root \<longrightarrow> address_space lk st' r = address_space lk st r))"
proof (induction ps arbitrary: st P)
  case Nil
  then show ?case by auto
next
  case (Cons p ps)
  obtain va fl where p: "p = (va, fl)" by (cases p)
  have k: "kernel_page (va, fl)" "list_all kernel_page ps" using Cons.prems(3) p by simp_all
  show ?case
  proof (cases rule: map_kernel_page_exact [OF assms(1) Cons.prems(1,2) assms(2) k(1), case_names stuck mapped])
    case stuck
    then show ?thesis by (simp add: p)
  next
    case (mapped st1 P1)
    note mp = maps_pageD [OF mapped(2)]
    have eq: "map_kernel_pages lk st root (p # ps) = map_kernel_pages lk st1 root ps" using mapped(1) by (simp add: p)
    have n: "next_bootstrap_index st1 \<le> next_bootstrap_index st + 3" using mp(4) by (simp add: missing_tables_def)
    have paths: "path_flags lk st1 root (table_indices vb) = path_flags lk st root (table_indices vb)"
      if v: "page_number vb < 2 ^ 35" for vb
    proof (rule paths_growE [OF mp(7) Cons.prems(2), of vb])
      fix n assume n: "path_flags lk st1 root (table_indices vb) = path_flags lk st root (table_indices vb) @
          replicate n (compute_intermediate_flags_for_leaf (entry_flags (kernel_frame va OR fl)))"
        "n \<noteq> 0 \<Longrightarrow> root = root \<and> extract_page_map_level_4_index vb = extract_page_map_level_4_index va"
      have "2 ^ 35 \<le> page_number va" by (rule kernel_page_high) (use k(1) in \<open>simp add: kernel_page_def\<close>)
      then have "n = 0" using n(2) v user_half_index [of va] user_half_index [of vb] by fastforce
      then show ?thesis using n(1) by simp
    qed
    from Cons.IH [OF mp(1) mp(2) [OF Cons.prems(2)] k(2)] show ?thesis
    proof (elim disjE exE conjE)
      assume "map_kernel_pages lk st1 root ps = None" "32 < next_bootstrap_index st1 + 3 * length ps"
      then show ?thesis using n by (simp add: eq)
    next
      fix st' P' assume r: "map_kernel_pages lk st1 root ps = Some st'" "paging_wf lk st' P'" "P' root = Some (root, [])"
        "\<forall>x p. P1 x = Some p \<longrightarrow> P' x = Some p"
        "\<forall>vb. translate lk st' root vb = (case trampoline_entry ps vb of Some e \<Rightarrow> Some e | None \<Rightarrow> translate lk st1 root vb)"
        "\<forall>vb. page_number vb < 2 ^ 35 \<longrightarrow>
          path_flags lk st' root (table_indices vb) = path_flags lk st1 root (table_indices vb)"
        "\<forall>r. P1 r = Some (r, []) \<longrightarrow> r \<noteq> root \<longrightarrow> address_space lk st' r = address_space lk st1 r"
      show ?thesis unfolding eq
      proof (intro disjI2 exI conjI allI impI)
        show "P' x = Some q" if "P x = Some q" for x q using r(4) mp(2) [OF that] by blast
        show "translate lk st' root vb = (case trampoline_entry (p # ps) vb of Some e \<Rightarrow> Some e | None \<Rightarrow> translate lk st root vb)" for vb
          using r(5) [THEN spec, of vb] mp(6) [OF Cons.prems(2), of vb] by (simp add: p split: option.splits)
        show "path_flags lk st' root (table_indices vb) = path_flags lk st root (table_indices vb)"
          if "page_number vb < 2 ^ 35" for vb using r(6) [rule_format, OF that] paths [OF that] by simp
        show "address_space lk st' q = address_space lk st q" if "P q = Some (q, [])" "q \<noteq> root" for q
          using r(7) [rule_format, OF mp(2) [OF that(1)] that(2)] maps_page_others [OF mapped(2) that] by simp
      qed (rule r(1-3))+
    qed
  qed
qed

lemma trampoline_entry_low:
  assumes "list_all kernel_page ps" "unat vb < 2 ^ 47"
  shows "trampoline_entry ps vb = None"
  using assms(1)
proof (induction ps)
  case (Cons p ps)
  obtain va fl where p: "p = (va, fl)" by (cases p)
  have "unat vb div 4096 < 2 ^ 35" using assms(2) by (simp add: less_mult_imp_div_less)
  moreover have "page_number vb = unat vb div 4096" using assms(2) by (simp add: page_number_small)
  moreover have "2 ^ 35 \<le> page_number va" by (rule kernel_page_high) (use Cons.prems in \<open>simp add: p kernel_page_def\<close>)
  ultimately show ?case using Cons by (simp add: p)
qed simp

end
