(* ===== verification/Loading_Claims.thy ===== *)
theory Loading_Claims
  imports Process_Image
begin

text \<open>
  The properties of the ELF parser, the page tables and the launch of a process, as theorems over the
  definitions of \<open>Elf_Loader\<close>, \<open>Page_Tables\<close>, \<open>User_Loading\<close> and \<open>Process_Launch\<close>.
\<close>

section \<open>The address space of a launched process\<close>

definition elf_wellformed :: "bytes \<Rightarrow> bool" where
  "elf_wellformed elf \<longleftrightarrow> elf_header_ok elf \<and>
     (\<forall>i < header_count elf. program_header_ok elf (header_offset_at elf i) \<and> u32_at elf (header_offset_at elf i) = 1)"

definition image_segments :: "bytes \<Rightarrow> LoadableSegment list" where
  "image_segments elf = take 8 (map (\<lambda>i. segment_at elf (header_offset_at elf i)) [0..<header_count elf])"

definition entry_ok :: "u64 \<Rightarrow> bool" where
  "entry_ok entry \<longleftrightarrow> 0 < unat entry \<and> unat entry < 2 ^ 47"

definition launch_inv :: "link_addresses \<Rightarrow> LaunchState \<Rightarrow> table_paths \<Rightarrow> bool" where
  "launch_inv lk ls P \<longleftrightarrow> paging_wf lk (paging (loader ls)) P \<and> phys_inv (allocator (loader ls)) \<and>
     free_pages_aligned (allocator (loader ls)) \<and> length (thread_pool ls) = MAXIMUM_THREADS"

text \<open>The pages a ring-3 program sees, and the pages above them.\<close>

definition process_space :: "link_addresses \<Rightarrow> trampoline_link \<Rightarrow> bytes \<Rightarrow> LoaderState \<Rightarrow> table_ref \<Rightarrow> bool" where
  "process_space lk tr elf st root \<longleftrightarrow>
     (\<forall>vb. unat vb < 2 ^ 47 \<longrightarrow>
        (if unat vb div 4096 \<in> stack_pages
         then user_byte lk st root vb = Some 0 \<and>
           (\<exists>e. translate lk (paging st) root vb = Some e \<and> entry_flags e = build_user_stack_page_flags)
         else case owner (image_segments elf) (unat vb div 4096) of
           None \<Rightarrow> translate lk (paging st) root vb = None
         | Some seg \<Rightarrow> user_byte lk st root vb = Some (segment_byte elf seg vb) \<and>
             (\<exists>e. translate lk (paging st) root vb = Some e \<and> entry_flags e = segment_page_flags seg))) \<and>
     (\<forall>vb. 2 ^ 35 \<le> page_number vb \<longrightarrow>
        translate lk (paging st) root vb = trampoline_entry (trampoline_pages tr) vb) \<and>
     (\<forall>vb. page_number vb < 2 ^ 35 \<longrightarrow>
        set (path_flags lk (paging st) root (table_indices vb)) \<subseteq> {user_table_flags})"

definition process_started ::
  "link_addresses \<Rightarrow> trampoline_link \<Rightarrow> bytes \<Rightarrow> ProcessType \<Rightarrow> table_paths \<Rightarrow> LaunchState \<Rightarrow> LaunchState \<Rightarrow>
   ServerProcessHandle \<Rightarrow> table_ref \<Rightarrow> bool" where
  "process_started lk tr elf ptype P ls ls' h root \<longleftrightarrow>
     (let i = next_thread_pool_slot_index ls in
      P root = None \<and> valid_table root \<and> process_space lk tr elf (loader ls') root \<and>
      (\<forall>r. P r = Some (r, []) \<longrightarrow>
         address_space lk (paging (loader ls')) r = address_space lk (paging (loader ls)) r) \<and>
      i < MAXIMUM_THREADS \<and> h = \<lparr>process_type = ptype, thread_index = i, thread_identifier = of_nat i\<rparr> \<and>
      next_thread_pool_slot_index ls' = Suc i \<and>
      thread_pool ls' = (thread_pool ls)[i := (build_initial_thread (u64_at elf 24) SERVER_STACK_TOP_VIRTUAL_ADDRESS)
        \<lparr>user_page_table_physical_address := table_frame lk root\<rparr>])"

lemma translate_page_number:
  "page_number va = page_number vb \<Longrightarrow> translate lk st root va = translate lk st root vb"
  by (simp add: page_number_eq_iff translate_def)

lemma owner_low:
  assumes "list_all segment_in_user_half segs" "owner segs page = Some seg"
  shows "page < 2 ^ 35"
  using assms
proof (induction segs)
  case (Cons s segs)
  have "page < 2 ^ 35" if "page \<in> segment_pages s"
  proof -
    have "unat (virtual_address s) + unat (memory_size s) \<le> 2 ^ 47" using Cons.prems(1) by (simp add: segment_in_user_half_def)
    then have "unat (virtual_address s) + unat (memory_size s) + 4095 < 2 ^ 35 * 4096 + 4096" by simp
    then have "(unat (virtual_address s) + unat (memory_size s) + 4095) div 4096 < 2 ^ 35 + 1"
      by (intro less_mult_imp_div_less) simp
    then show ?thesis using that by (simp add: segment_pages_def)
  qed
  then show ?case using Cons by (auto split: option.splits if_splits)
qed simp

lemma layout_exact:
  "build_layout_for_loaded_process entry =
    (if entry_ok entry then
       Ok \<lparr>code_base_virtual_address = SERVER_CODE_BASE_VIRTUAL_ADDRESS,
           stack_top_virtual_address = SERVER_STACK_TOP_VIRTUAL_ADDRESS,
           stack_bottom_virtual_address = compute_stack_bottom_address,
           guard_page_virtual_address = SERVER_STACK_GUARD_PAGE_VIRTUAL_ADDRESS,
           entry_point_virtual_address = entry\<rparr>
     else Err ElfLoadError.EntryPointNotCanonical)"
proof -
  have "entry \<noteq> 0 \<and> \<not> entry > CANONICAL_USER_SPACE_UPPER_BOUND \<longleftrightarrow> entry_ok entry"
    by (auto simp: entry_ok_def CANONICAL_USER_SPACE_UPPER_BOUND_def word_less_nat_alt unat_eq_zero simp flip: unat_gt_0)
  then show ?thesis
    by (auto simp: build_layout_for_loaded_process_def build_process_address_space_layout_def
        validate_entry_point_is_canonical_def entry_point_is_null_def entry_point_is_above_canonical_bound_def
        map_address_space_error_to_elf_load_error_def and_then_def)
qed

lemma finalize_exact:
  assumes "length (thread_pool ls) = MAXIMUM_THREADS"
  shows "finalize_loaded_process_handle ls ptype layout pt =
    (let i = next_thread_pool_slot_index ls in
     if i < MAXIMUM_THREADS then
       Some (Ok \<lparr>process_type = ptype, thread_index = i, thread_identifier = of_nat i\<rparr>,
         ls\<lparr>next_thread_pool_slot_index := Suc i,
            thread_pool := (thread_pool ls)[i := (build_initial_thread (entry_point_virtual_address layout)
              (stack_top_virtual_address layout))\<lparr>user_page_table_physical_address := pt\<rparr>]\<rparr>)
     else Some (Err ElfLoadError.PageAllocationFailed, ls))"
  using assms
  by (auto simp: finalize_loaded_process_handle_def allocate_thread_pool_slot_def store_thread_in_kernel_pool_def
      kernel_thread_at_mut_def MAXIMUM_THREADS_def usize_wrapping_add_small Let_def)

text \<open>The segments and the stack, from a root that maps nothing.\<close>

lemma load_segments_and_stack_exact:
  assumes "link_ok lk" "slice_len_ok elf" "loader_inv lk T st P root" "list_all (segment_loadable elf) (present arr)"
    and "\<And>va. translate lk (paging st) root va = None"
  obtains (failed) e st' where "load_segments_and_stack lk st root elf arr = Some (Err e, st')"
      "\<not> (list_all segment_flags_ok (present arr) \<and> free_supply (allocator st) (image_pages (present arr) + 16))"
  | (stuck) "load_segments_and_stack lk st root elf arr = None"
      "29 < next_bootstrap_index (paging st) + 3 * image_regions (present arr)"
  | (loaded) st' P' where "load_segments_and_stack lk st root elf arr = Some (Ok (), st')" "loader_inv lk T st' P' root"
      "list_all segment_flags_ok (present arr)"
      "next_bootstrap_index (paging st') \<le> next_bootstrap_index (paging st) + 3 * image_regions (present arr) + 3"
      "\<And>vb. unat vb < 2 ^ 48 \<Longrightarrow>
        (if unat vb div 4096 \<in> stack_pages
         then user_byte lk st' root vb = Some 0 \<and>
           (\<exists>e. translate lk (paging st') root vb = Some e \<and> entry_flags e = build_user_stack_page_flags)
         else case owner (present arr) (unat vb div 4096) of
           None \<Rightarrow> translate lk (paging st') root vb = None
         | Some seg \<Rightarrow> user_byte lk st' root vb = Some (segment_byte elf seg vb) \<and>
             (\<exists>e. translate lk (paging st') root vb = Some e \<and> entry_flags e = segment_page_flags seg))"
  using load_segments_exact [OF assms(1-4)]
proof (elim disjE exE conjE)
  fix e st'
  assume r: "load_segments_into_user_page_table lk st root elf arr = Some (Err e, st')"
    "\<not> (list_all segment_flags_ok (present arr) \<and> free_supply (allocator st) (image_pages (present arr)))"
  then show thesis
    using free_supply_mono [of "allocator st" "image_pages (present arr) + 16" "image_pages (present arr)"]
    by (intro failed [of e st']) (auto simp: load_segments_and_stack_def)
next
  assume "load_segments_into_user_page_table lk st root elf arr = None"
    "32 < next_bootstrap_index (paging st) + 3 * image_regions (present arr)"
  then show thesis by (intro stuck) (simp_all add: load_segments_and_stack_def)
next
  fix st1 P1
  assume r: "load_segments_into_user_page_table lk st root elf arr = Some (Ok (), st1)" "loader_inv lk T st1 P1 root"
    "list_all segment_flags_ok (present arr)" "segments_loaded lk root elf (present arr) st st1"
    "next_bootstrap_index (paging st1) \<le> next_bootstrap_index (paging st) + 3 * image_regions (present arr)"
    "\<forall>k. free_supply (allocator st) (image_pages (present arr) + k) \<longrightarrow> free_supply (allocator st1) k"
  have eq: "load_segments_and_stack lk st root elf arr =
      load_then (map_stack_pages_in_user_page_table lk st1 root) (\<lambda>_ st2. Some (Ok (), st2))"
    using r(1) by (simp add: load_segments_and_stack_def)
  show thesis
  proof (cases rule: map_stack_exact [OF assms(1) r(2), case_names failed stuck mapped])
    case (failed e st')
    then show thesis using r(6) by (intro that(1) [of e st']) (auto simp: eq)
  next
    case stuck
    then show thesis using r(5) by (intro that(2)) (simp_all add: eq)
  next
    case (mapped st2 P2)
    show thesis
    proof (rule that(3) [OF _ mapped(2) r(3)])
      fix vb :: u64 assume v: "unat vb < 2 ^ 48"
      note mz = maps_zeroed_at [OF mapped(3) v] and sl = r(4) [unfolded segments_loaded_def, rule_format, OF v]
      show "if unat vb div 4096 \<in> stack_pages
         then user_byte lk st2 root vb = Some 0 \<and>
           (\<exists>e. translate lk (paging st2) root vb = Some e \<and> entry_flags e = build_user_stack_page_flags)
         else case owner (present arr) (unat vb div 4096) of
           None \<Rightarrow> translate lk (paging st2) root vb = None
         | Some seg \<Rightarrow> user_byte lk st2 root vb = Some (segment_byte elf seg vb) \<and>
             (\<exists>e. translate lk (paging st2) root vb = Some e \<and> entry_flags e = segment_page_flags seg)"
      proof (cases "unat vb div 4096 \<in> stack_pages")
        case True
        then show ?thesis using mz by auto
      next
        case False
        then show ?thesis using mz sl assms(5) [of vb] by (auto split: option.splits)
      qed
    qed (use mapped(1,4) r(5) in \<open>simp_all add: eq\<close>)
  qed
qed

lemma loader_inv_fresh:
  assumes "paging_wf lk pg P" "P root = Some (root, [])" "root \<noteq> KernelPml4" "\<And>va. address_space lk pg root va = (None, [])"
    and "phys_inv (allocator st)" "free_pages_aligned (allocator st)"
    and "\<And>r g. T r = Some g \<Longrightarrow> P r = Some (r, []) \<and> r \<noteq> root \<and> address_space lk pg r = g"
  shows "loader_inv lk T (st\<lparr>paging := pg\<rparr>) P root"
proof -
  have "translate lk pg root va = None \<and> path_flags lk pg root (table_indices va) = []" for va
    using assms(4) [of va] by (simp add: address_space_def)
  then show ?thesis using assms by (simp add: loader_inv_def)
qed

lemma process_space_intro:
  assumes "\<And>vb. unat vb < 2 ^ 48 \<Longrightarrow>
        (if unat vb div 4096 \<in> stack_pages
         then user_byte lk st root vb = Some 0 \<and>
           (\<exists>e. translate lk (paging st) root vb = Some e \<and> entry_flags e = build_user_stack_page_flags)
         else case owner (image_segments elf) (unat vb div 4096) of
           None \<Rightarrow> translate lk (paging st) root vb = None
         | Some seg \<Rightarrow> user_byte lk st root vb = Some (segment_byte elf seg vb) \<and>
             (\<exists>e. translate lk (paging st) root vb = Some e \<and> entry_flags e = segment_page_flags seg))"
    and "list_all segment_in_user_half (image_segments elf)" "list_all kernel_page (trampoline_pages tr)"
    and "\<And>vb. translate lk pg root vb = (case trampoline_entry (trampoline_pages tr) vb of Some e \<Rightarrow> Some e
               | None \<Rightarrow> translate lk (paging st) root vb)"
    and "\<And>vb. page_number vb < 2 ^ 35 \<Longrightarrow> set (path_flags lk pg root (table_indices vb)) \<subseteq> {user_table_flags}"
  shows "process_space lk tr elf (st\<lparr>paging := pg\<rparr>) root"
  unfolding process_space_def
proof (intro conjI allI impI)
  fix vb :: u64 assume v: "unat vb < 2 ^ 47"
  have t: "translate lk (paging (st\<lparr>paging := pg\<rparr>)) root vb = translate lk (paging st) root vb"
    using assms(4) [of vb] trampoline_entry_low [OF assms(3) v] by simp
  then have u: "user_byte lk (st\<lparr>paging := pg\<rparr>) root vb = user_byte lk st root vb" by (simp add: user_byte_def)
  show "if unat vb div 4096 \<in> stack_pages
         then user_byte lk (st\<lparr>paging := pg\<rparr>) root vb = Some 0 \<and>
           (\<exists>e. translate lk (paging (st\<lparr>paging := pg\<rparr>)) root vb = Some e \<and> entry_flags e = build_user_stack_page_flags)
         else case owner (image_segments elf) (unat vb div 4096) of
           None \<Rightarrow> translate lk (paging (st\<lparr>paging := pg\<rparr>)) root vb = None
         | Some seg \<Rightarrow> user_byte lk (st\<lparr>paging := pg\<rparr>) root vb = Some (segment_byte elf seg vb) \<and>
             (\<exists>e. translate lk (paging (st\<lparr>paging := pg\<rparr>)) root vb = Some e \<and> entry_flags e = segment_page_flags seg)"
    unfolding t u by (rule assms(1)) (use v in simp)
next
  fix vb :: u64 assume v: "2 ^ 35 \<le> page_number vb"
  let ?w = "of_nat (page_number vb * 4096) :: u64"
  have p: "page_number vb < 2 ^ 36" by (simp add: page_number_def)
  then have w: "unat ?w = page_number vb * 4096" by (intro unat_of_nat_small) simp
  have "page_number ?w = page_number vb" using w p by (simp add: page_number_def)
  then have t: "translate lk (paging st) root vb = translate lk (paging st) root ?w" by (intro translate_page_number) simp
  have d: "unat ?w div 4096 = page_number vb" "unat ?w < 2 ^ 48" using w p by simp_all
  have "page_number vb \<notin> stack_pages" using v by (simp add: stack_pages_def)
  moreover have "owner (image_segments elf) (page_number vb) = None"
    using owner_low [OF assms(2), of "page_number vb"] v by (cases "owner (image_segments elf) (page_number vb)") auto
  ultimately have "translate lk (paging st) root ?w = None" using assms(1) [OF d(2)] unfolding d(1) by simp
  then show "translate lk (paging (st\<lparr>paging := pg\<rparr>)) root vb = trampoline_entry (trampoline_pages tr) vb"
    using assms(4) [of vb] t by (simp split: option.splits)
next
  show "set (path_flags lk (paging (st\<lparr>paging := pg\<rparr>)) root (table_indices vb)) \<subseteq> {user_table_flags}"
    if "page_number vb < 2 ^ 35" for vb using assms(5) [OF that] by simp
qed

lemma build_loaded_process_exact:
  assumes "link_ok lk" "trampoline_link_ok tr" "launch_inv lk ls P" "slice_len_ok elf"
    and "present arr = image_segments elf" "list_all (segment_loadable elf) (image_segments elf)"
  obtains (failed) e ls' where "build_loaded_process lk tr ls ptype (u64_at elf 24) elf arr = Some (Err e, ls')"
      "\<not> (entry_ok (u64_at elf 24) \<and> list_all segment_flags_ok (image_segments elf) \<and>
         free_supply (allocator (loader ls)) (image_pages (image_segments elf) + 16) \<and>
         next_thread_pool_slot_index ls < MAXIMUM_THREADS)"
  | (stuck) "build_loaded_process lk tr ls ptype (u64_at elf 24) elf arr = None"
      "19 < next_bootstrap_index (paging (loader ls)) + 3 * image_regions (image_segments elf)"
  | (started) h ls' root where "build_loaded_process lk tr ls ptype (u64_at elf 24) elf arr = Some (Ok (h, new_space), ls')"
      "entry_ok (u64_at elf 24)" "list_all segment_flags_ok (image_segments elf)"
      "process_started lk tr elf ptype P ls ls' h root"
proof -
  let ?segs = "image_segments elf" and ?ld = "loader ls"
  have inv: "paging_wf lk (paging ?ld) P" "phys_inv (allocator ?ld)" "free_pages_aligned (allocator ?ld)"
    "length (thread_pool ls) = MAXIMUM_THREADS" using assms(3) by (simp_all add: launch_inv_def)
  show thesis
  proof (cases "entry_ok (u64_at elf 24)")
    case False
    then show thesis by (intro that(1)) (simp_all add: build_loaded_process_def layout_exact)
  next
    case entry: True
    show thesis
    proof (cases rule: allocate_root_exact [OF assms(1) inv(1), case_names full fresh])
      case full
      then show thesis using entry by (intro that(2)) (simp_all add: build_loaded_process_def layout_exact)
    next
      case (fresh root pg P0)
      define st where "st = ?ld\<lparr>paging := pg\<rparr>"
      have st: "paging st = pg" "allocator st = allocator ?ld" by (simp_all add: st_def)
      define T where "T = (\<lambda>r. if P r = Some (r, []) then Some (address_space lk (paging ?ld) r) else None)"
      have T: "T r = Some g \<longleftrightarrow> P r = Some (r, []) \<and> g = address_space lk (paging ?ld) r" for r g by (auto simp: T_def)
      have others: "P0 r = Some (r, []) \<and> r \<noteq> root \<and> address_space lk pg r = g" if "T r = Some g" for r g
      proof -
        have r: "P r = Some (r, [])" "g = address_space lk (paging ?ld) r" using that by (simp_all add: T)
        then have "r \<noteq> root" using fresh(5) by auto
        then show ?thesis using fresh(8) [OF fresh(9) [OF r(1)]] fresh(9) [OF r(1)] r(2) by auto
      qed
      have li: "loader_inv lk T st P0 root"
        unfolding st_def by (rule loader_inv_fresh [OF fresh(2-4) fresh(6) inv(2,3) others])
      have loadable: "list_all (segment_loadable elf) (present arr)" using assms(5,6) by simp
      have none: "translate lk (paging st) root va = None" for va using fresh(6) [of va] st by (simp add: address_space_def)
      show thesis
      proof (cases rule: load_segments_and_stack_exact [OF assms(1,4) li loadable none, case_names failed stuck loaded])
        case (failed e st')
        then show thesis using entry fresh(1) st assms(5)
          by (intro that(1) [of e "ls\<lparr>loader := st'\<rparr>"]) (auto simp: build_loaded_process_def layout_exact st_def)
      next
        case stuck
        then show thesis using entry fresh(1,7) st assms(5)
          by (intro that(2)) (simp_all add: build_loaded_process_def layout_exact st_def)
      next
        case (loaded st1 P1)
        have kp: "list_all kernel_page (trampoline_pages tr)" by (rule trampoline_pages_kernel [OF assms(2)])
        have l3: "length (trampoline_pages tr) = 3" by (simp add: trampoline_pages_def)
        note run = map_kernel_pages_exact [OF assms(1) fresh(4) li_wf [OF loaded(2)] li_root(1) [OF loaded(2)] kp]
        have bl: "build_loaded_process lk tr ls ptype (u64_at elf 24) elf arr =
          Option.bind (map_kernel_pages lk (paging st1) root (trampoline_pages tr)) (\<lambda>pg2.
            Option.bind (compute_user_page_table_physical_address lk root) (\<lambda>page_table.
              Option.bind (finalize_loaded_process_handle (ls\<lparr>loader := st1\<lparr>paging := pg2\<rparr>\<rparr>) ptype
                \<lparr>code_base_virtual_address = SERVER_CODE_BASE_VIRTUAL_ADDRESS,
                 stack_top_virtual_address = SERVER_STACK_TOP_VIRTUAL_ADDRESS,
                 stack_bottom_virtual_address = compute_stack_bottom_address,
                 guard_page_virtual_address = SERVER_STACK_GUARD_PAGE_VIRTUAL_ADDRESS,
                 entry_point_virtual_address = u64_at elf 24\<rparr> page_table) (\<lambda>(h, ls2).
                Some (case h of Inl e \<Rightarrow> Err e | Inr handle \<Rightarrow> Ok (handle, new_space), ls2))))"
          using entry fresh(1) loaded(1) by (simp add: build_loaded_process_def layout_exact st_def map_trampoline_is_run)
        from run show thesis
        proof (elim disjE exE conjE)
          assume "map_kernel_pages lk (paging st1) root (trampoline_pages tr) = None"
            "32 < next_bootstrap_index (paging st1) + 3 * length (trampoline_pages tr)"
          then show thesis using loaded(4) fresh(7) st assms(5) l3 by (intro that(2)) (simp_all add: bl)
        next
          fix pg2 P2
          assume t: "map_kernel_pages lk (paging st1) root (trampoline_pages tr) = Some pg2" "paging_wf lk pg2 P2"
            "P2 root = Some (root, [])" "\<forall>x p. P1 x = Some p \<longrightarrow> P2 x = Some p"
            "\<forall>vb. translate lk pg2 root vb = (case trampoline_entry (trampoline_pages tr) vb of Some e \<Rightarrow> Some e
               | None \<Rightarrow> translate lk (paging st1) root vb)"
            "\<forall>vb. page_number vb < 2 ^ 35 \<longrightarrow>
              path_flags lk pg2 root (table_indices vb) = path_flags lk (paging st1) root (table_indices vb)"
            "\<forall>r. P1 r = Some (r, []) \<longrightarrow> r \<noteq> root \<longrightarrow> address_space lk pg2 r = address_space lk (paging st1) r"
          have valid: "valid_table root" using wf_valid [OF t(2,3)] by blast
          note pt = table_frame_ok(2) [OF assms(1) valid, folded compute_user_page_table_physical_address_def]
          have fin: "length (thread_pool (ls\<lparr>loader := st1\<lparr>paging := pg2\<rparr>\<rparr>)) = MAXIMUM_THREADS" using inv(4) by simp
          show thesis
          proof (cases "next_thread_pool_slot_index ls < MAXIMUM_THREADS")
            case False
            then show thesis using t(1) pt
              by (intro that(1) [of ElfLoadError.PageAllocationFailed "ls\<lparr>loader := st1\<lparr>paging := pg2\<rparr>\<rparr>"])
                (simp_all add: bl finalize_exact [OF fin] Let_def)
          next
            case True
            let ?i = "next_thread_pool_slot_index ls"
            let ?h = "\<lparr>process_type = ptype, thread_index = ?i, thread_identifier = of_nat ?i\<rparr>"
            let ?ls = "ls\<lparr>loader := st1\<lparr>paging := pg2\<rparr>, next_thread_pool_slot_index := Suc ?i,
              thread_pool := (thread_pool ls)[?i := (build_initial_thread (u64_at elf 24) SERVER_STACK_TOP_VIRTUAL_ADDRESS)
                \<lparr>user_page_table_physical_address := table_frame lk root\<rparr>]\<rparr>"
            have keep: "address_space lk pg2 r = address_space lk (paging ?ld) r" if "P r = Some (r, [])" for r
            proof -
              have "P1 r = Some (r, []) \<and> r \<noteq> root \<and> address_space lk (paging st1) r = address_space lk (paging ?ld) r"
                by (rule li_others [OF loaded(2)]) (use that in \<open>simp add: T\<close>)
              then show ?thesis using t(7) by simp
            qed
            have "process_space lk tr elf (st1\<lparr>paging := pg2\<rparr>) root"
            proof (rule process_space_intro [OF loaded(5) [unfolded assms(5)] _ kp])
              show "set (path_flags lk pg2 root (table_indices vb)) \<subseteq> {user_table_flags}" if "page_number vb < 2 ^ 35" for vb
                using t(6) [rule_format, OF that] li_paths [OF loaded(2), of vb] by simp
            qed (use t(5) assms(6) in \<open>auto simp: segment_loadable_def list_all_iff\<close>)
            with True keep fresh(5) valid have "process_started lk tr elf ptype P ls ?ls ?h root"
              by (simp add: process_started_def Let_def)
            moreover have "build_loaded_process lk tr ls ptype (u64_at elf 24) elf arr = Some (Ok (?h, new_space), ?ls)"
              using t(1) pt True by (simp add: bl finalize_exact [OF fin] Let_def)
            ultimately show thesis using that(3) [OF _ entry] loaded(3) assms(5) by simp
          qed
        qed
      qed
    qed
  qed
qed

section \<open>The launch\<close>

lemma map_filter_all_Some: "(\<And>x. x \<in> set xs \<Longrightarrow> f x = Some (g x)) \<Longrightarrow> List.map_filter f xs = map g xs"
  by (induction xs) (simp_all add: map_filter_simps)

lemma segments_from_wellformed:
  assumes "elf_wellformed elf"
  shows "take 8 (segments_from elf (unat (u64_at elf 32)) 0 (header_count elf)) = image_segments elf"
proof -
  have "segments_from elf (unat (u64_at elf 32)) 0 (header_count elf) =
      map (segment_at elf) (map (header_offset_at elf) [0..<header_count elf])"
    unfolding segments_from_def header_offset_at_def add_0
    by (rule map_filter_all_Some) (use assms in \<open>auto simp: elf_wellformed_def header_segment_def header_offset_at_def\<close>)
  then show ?thesis by (simp add: image_segments_def comp_def)
qed

lemma header_ok_start: "program_header_ok elf off \<Longrightarrow> off + 4 \<le> length elf"
  by (simp add: program_header_ok_def)

lemma create_from_elf_front:
  assumes "slice_len_ok elf"
  obtains (rejected) e where "create_server_process_from_elf lk tr ls ptype elf = Some (Err e, ls)" "\<not> elf_wellformed elf"
  | (panic) "create_server_process_from_elf lk tr ls ptype elf = None" "0 < header_count elf"
      "2 ^ 64 - 4 \<le> unat (u64_at elf 32)"
  | (parsed) arr where "elf_wellformed elf" "present arr = image_segments elf"
      "create_server_process_from_elf lk tr ls ptype elf = build_loaded_process lk tr ls ptype (u64_at elf 24) elf arr"
proof (cases "validate_program_header_types_are_load_only elf")
  case None
  then show thesis using gate_exact(2) [OF assms] by (intro that(2)) (simp_all add: create_server_process_from_elf_def)
next
  case (Some g)
  show thesis
  proof (cases g)
    case (Inl e)
    have "\<not> elf_wellformed elf"
      using gate_exact(1) [OF assms] Some Inl header_ok_start by (auto simp: elf_wellformed_def elf_header_ok_def)
    then show thesis using Some Inl by (intro that(1)) (simp_all add: create_server_process_from_elf_def)
  next
    case (Inr u)
    then have gate: "validate_program_header_types_are_load_only elf = Some (Ok ())" using Some by simp
    have g: "\<And>i. i < header_count elf \<Longrightarrow> header_offset_at elf i + 4 \<le> length elf \<and> u32_at elf (header_offset_at elf i) = 1"
      using gate_exact(1) [OF assms] gate by blast
    obtain v where v: "validate_elf_header elf = Some v" "v = Ok () \<longleftrightarrow> elf_header_ok elf"
      using validate_elf_header_exact [OF assms] by blast
    show thesis
    proof (cases v)
      case (Inl e)
      then have "\<not> elf_wellformed elf" using v by (auto simp: elf_wellformed_def)
      then show thesis using gate v Inl by (intro that(1)) (simp_all add: create_server_process_from_elf_def)
    next
      case (Inr u')
      then have ok: "elf_header_ok elf" and vo: "validate_elf_header elf = Some (Ok ())" using v by simp_all
      have "64 \<le> length elf" using ok by (simp add: elf_header_ok_def)
      then have entry: "extract_entry_point elf = Some (Ok (u64_at elf 24))"
        using extract_in_bounds(3) [OF assms, of 24] vo by (simp add: extract_entry_point_def extract_entry_point_address_def)
      have eq: "create_server_process_from_elf lk tr ls ptype elf =
          Option.bind (extract_loadable_segments elf) (\<lambda>found. case found of Inl e \<Rightarrow> Some (Err e, ls)
            | Inr segments \<Rightarrow> build_loaded_process lk tr ls ptype (u64_at elf 24) elf segments)"
        using gate vo entry by (simp add: create_server_process_from_elf_def)
      have "extract_loadable_segments elf \<noteq> None"
      proof
        assume "extract_loadable_segments elf = None"
        then have "0 < header_count elf" "2 ^ 64 - 56 \<le> unat (u64_at elf 32)"
          using extract_loadable_segments_exact(2) [OF assms] by blast+
        moreover have "unat (u64_at elf 32) + 4 \<le> length elf" using g [of 0] calculation(1) by (simp add: header_offset_at_def)
        ultimately show False using assms by (simp add: slice_len_ok_def)
      qed
      then obtain found where found: "extract_loadable_segments elf = Some found" by blast
      show thesis
      proof (cases found)
        case (Inl e)
        then have "\<not> elf_wellformed elf"
          using extract_loadable_segments_exact(1) [OF assms] found by (fastforce simp: elf_wellformed_def)
        then show thesis using found Inl by (intro that(1)) (simp_all add: eq)
      next
        case (Inr arr)
        then have "extract_loadable_segments elf = Some (Ok arr)" using found by simp
        from this [unfolded extract_loadable_segments_exact(1) [OF assms]]
        have p: "\<forall>i < header_count elf. program_header_ok elf (header_offset_at elf i)"
          "arr = segment_slots (segments_from elf (unat (u64_at elf 32)) 0 (header_count elf))" by blast+
        have wf: "elf_wellformed elf" using ok p(1) g by (simp add: elf_wellformed_def)
        show thesis
          by (rule that(3) [OF wf, of arr])
            (use segments_from_wellformed [OF wf] p(2) found Inr in \<open>simp_all add: eq\<close>)
      qed
    qed
  qed
qed

lemma wellformed_loadable:
  assumes "elf_wellformed elf" "list_all (\<lambda>seg. segment_in_user_half seg \<and> file_size seg \<le> memory_size seg) (image_segments elf)"
  shows "list_all (segment_loadable elf) (image_segments elf)"
proof -
  have "segment_in_file elf seg" if "seg \<in> set (image_segments elf)" for seg
    using that assms(1) set_take_subset
    by (fastforce simp: image_segments_def elf_wellformed_def program_header_ok_def)
  then show ?thesis using assms(2) by (simp add: list_all_iff segment_loadable_def)
qed

lemma trampoline_entry_flags:
  assumes "list_all kernel_page ps" "trampoline_entry ps vb = Some e"
  shows "write_xor_execute (entry_flags e) \<and> \<not> flags_contain (entry_flags e) USER_ACCESSIBLE"
  using assms
proof (induction ps)
  case (Cons p ps)
  obtain va fl where p: "p = (va, fl)" by (cases p)
  have k: "kernel_page (va, fl)" using Cons.prems(1) p by simp
  then have f: "frame_ok (kernel_frame va)" "flags_ok fl" by (simp_all add: kernel_page_def kernel_frame_ok(1))
  show ?case
    using Cons k entry_of_frame(3) [OF f] by (auto simp: p kernel_page_def split: option.splits if_splits)
qed simp

text \<open>What the flags of the tables, the stack and a segment permit.\<close>

lemma table_flags_permit: "flags_permit a user_table_flags"
  by (cases a) (simp_all add: user_table_flags_def flags_contain_def page_flag_defs)

lemma stack_flags_permit: "flags_permit a build_user_stack_page_flags \<longleftrightarrow> a \<noteq> ExecuteAccess"
  by (cases a) (simp_all add: build_user_stack_page_flags_def flags_contain_def page_flag_defs)

definition segment_permits :: "LoadableSegment \<Rightarrow> user_access \<Rightarrow> bool" where
  "segment_permits seg a =
     (case a of ReadAccess \<Rightarrow> True | WriteAccess \<Rightarrow> flags seg AND 2 \<noteq> 0 | ExecuteAccess \<Rightarrow> flags seg AND 1 \<noteq> 0)"

lemma segment_page_flags_permit:
  assumes "segment_flags_ok seg"
  shows "flags_permit a (segment_page_flags seg) \<longleftrightarrow> segment_permits seg a" "write_xor_execute (segment_page_flags seg)"
proof -
  obtain p where p: "translate_segment_flags_to_user_page_permissions (flags seg) = Ok p"
    using assms segment_flags_ok_iff by blast
  note f = user_flags_exact [OF p, unfolded segment_flags_ok [OF p]]
  show "flags_permit a (segment_page_flags seg) \<longleftrightarrow> segment_permits seg a"
    using f(3-5) by (cases a) (simp_all add: segment_permits_def)
  show "write_xor_execute (segment_page_flags seg)" using f(2) by (simp add: user_leaf_flags_def)
qed

lemma owner_in: "owner segs page = Some seg \<Longrightarrow> seg \<in> set segs"
  by (induction segs) (auto split: option.splits if_splits)

text \<open>The accesses of a ring-3 program, from the segments alone.\<close>

definition image_permits :: "bytes \<Rightarrow> user_access \<Rightarrow> nat \<Rightarrow> bool" where
  "image_permits elf a page =
     (if page \<in> stack_pages then a \<noteq> ExecuteAccess
      else case owner (image_segments elf) page of None \<Rightarrow> False | Some seg \<Rightarrow> segment_permits seg a)"

lemma trampoline_not_user:
  assumes "list_all kernel_page ps" "trampoline_entry ps vb = Some e"
  shows "\<not> flags_permit a (entry_flags e)"
proof -
  have "flags_contain fl USER_ACCESSIBLE" if "flags_contain fl (PRESENT OR USER_ACCESSIBLE)" for fl
    using that by (auto simp: flags_contain_def bit_eq_iff bit_simps)
  then show ?thesis using trampoline_entry_flags [OF assms] by (cases a) auto
qed

lemma process_pages:
  assumes "process_space lk tr elf st root" "list_all kernel_page (trampoline_pages tr)"
    and "list_all segment_flags_ok (image_segments elf)" "list_all segment_in_user_half (image_segments elf)"
  shows "(\<forall>e. translate lk (paging st) root vb = Some e \<longrightarrow> write_xor_execute (entry_flags e)) \<and>
    user_may lk (paging st) root a vb = image_permits elf a (page_number vb)"
proof (cases "page_number vb < 2 ^ 35")
  case False
  then have t: "translate lk (paging st) root vb = trampoline_entry (trampoline_pages tr) vb"
    using assms(1) [unfolded process_space_def, THEN conjunct2, THEN conjunct1, rule_format, of vb] by simp
  have "page_number vb \<notin> stack_pages" using False by (simp add: stack_pages_def)
  moreover have "owner (image_segments elf) (page_number vb) = None"
    using owner_low [OF assms(4), of "page_number vb"] False by (cases "owner (image_segments elf) (page_number vb)") auto
  ultimately show ?thesis
    using trampoline_entry_flags [OF assms(2), of vb] trampoline_not_user [OF assms(2), of vb]
    by (auto simp: t user_may_def address_space_def image_permits_def split: option.split)
next
  case True
  let ?w = "of_nat (page_number vb * 4096) :: u64"
  have w: "unat ?w = page_number vb * 4096" by (rule unat_of_nat_small) (use True in simp)
  have "page_number ?w = page_number vb" using w True by (simp add: page_number_def)
  then have t: "translate lk (paging st) root vb = translate lk (paging st) root ?w"
    using translate_page_number [of ?w vb lk "paging st" root] by simp
  have low: "unat ?w < 2 ^ 47" "unat ?w div 4096 = page_number vb" using w True by simp_all
  note p = assms(1) [unfolded process_space_def, THEN conjunct1, rule_format, OF low(1), unfolded low(2)]
  have "list_all (flags_permit a) (path_flags lk (paging st) root (table_indices vb))"
    using assms(1) [unfolded process_space_def, THEN conjunct2, THEN conjunct2, rule_format, OF True] table_flags_permit
    by (auto simp: list_all_iff)
  then have may: "user_may lk (paging st) root a vb =
      (case translate lk (paging st) root ?w of None \<Rightarrow> False | Some e \<Rightarrow> flags_permit a (entry_flags e))"
    by (simp add: user_may_def address_space_def t split: option.split)
  show ?thesis
  proof (cases "page_number vb \<in> stack_pages")
    case True
    with p obtain e where e: "translate lk (paging st) root ?w = Some e" "entry_flags e = build_user_stack_page_flags" by auto
    show ?thesis unfolding may t e(1) image_permits_def
      using True stack_flags(2) by (simp add: e(2) stack_flags_permit user_leaf_flags_def)
  next
    case False
    show ?thesis
    proof (cases "owner (image_segments elf) (page_number vb)")
      case None
      then have "translate lk (paging st) root ?w = None" using p False by simp
      then show ?thesis unfolding may t image_permits_def using None False by simp
    next
      case (Some seg)
      have ok: "segment_flags_ok seg" using assms(3) owner_in [OF Some] by (simp add: list_all_iff)
      from p False Some obtain e where e: "translate lk (paging st) root ?w = Some e" "entry_flags e = segment_page_flags seg" by auto
      show ?thesis unfolding may t e(1) image_permits_def
        using Some False segment_page_flags_permit [OF ok] by (simp add: e(2))
    qed
  qed
qed

section \<open>A small launch\<close>

definition sample_link :: link_addresses where
  "sample_link = \<lparr>bootstrap_block = 0xFFFFFFFF80200000, direct_map_block = 0xFFFFFFFF80300000,
     kernel_pml4_static = 0xFFFFFFFF80310000\<rparr>"

definition sample_trampoline :: trampoline_link where
  "sample_trampoline = \<lparr>syscall_entry_point = 0xFFFFFFFF80123456, syscall_trampoline_scratch = 0xFFFFFFFF80180040\<rparr>"

definition sample_allocator :: PhysicalAllocator where
  "sample_allocator = new_physical_allocator
     \<lparr>free_page_stack := \<lparr>stack_storage = map (\<lambda>i. of_nat (i * 4096)) [1..<18], stack_count = 17\<rparr>\<rparr>"

definition sample_launch_state :: LaunchState where
  "sample_launch_state =
     \<lparr>loader = \<lparr>paging = paging_statics_new, allocator = sample_allocator, memory = (\<lambda>_. 0xAA)\<rparr>,
      thread_pool = replicate MAXIMUM_THREADS new_thread, next_thread_pool_slot_index = 0\<rparr>"

text \<open>One readable and executable segment of four file bytes and eight bytes of memory at \<open>0x400000\<close>.\<close>

definition sample_elf :: bytes where
  "sample_elf =
     [0x7f, 0x45, 0x4C, 0x46, 2, 1, 1, 0, 0, 0, 0, 0, 0, 0, 0, 0,
      2, 0, 0x3E, 0, 1, 0, 0, 0, 0, 0, 0x40, 0, 0, 0, 0, 0,
      64, 0, 0, 0, 0, 0, 0, 0, 0, 0, 0, 0, 0, 0, 0, 0,
      0, 0, 0, 0, 64, 0, 56, 0, 1, 0, 0, 0, 0, 0, 0, 0,
      1, 0, 0, 0, 5, 0, 0, 0, 120, 0, 0, 0, 0, 0, 0, 0,
      0, 0, 0x40, 0, 0, 0, 0, 0, 0, 0, 0, 0, 0, 0, 0, 0,
      4, 0, 0, 0, 0, 0, 0, 0, 8, 0, 0, 0, 0, 0, 0, 0,
      0, 16, 0, 0, 0, 0, 0, 0, 0x0F, 0x05, 0xEB, 0xFC]"


lemma sample_elf_fields:
  "length sample_elf = 124" "header_count sample_elf = 1" "header_offset_at sample_elf 0 = 64"
  "u64_at sample_elf 24 = 0x400000" "u64_at sample_elf 32 = 64" "u32_at sample_elf 64 = 1"
  "segment_at sample_elf 64 = \<lparr>file_offset = 120, virtual_address = 0x400000, file_size = 4, memory_size = 8, flags = 5\<rparr>"
  "elf_header_ok sample_elf"
  by (simp_all add: sample_elf_def header_count_def header_offset_at_def u64_at_def u32_at_def u16_at_def segment_at_def elf_header_ok_def
   u64_from_le_bytes_def u32_from_le_bytes_def u16_from_le_bytes_def be_value_def)
lemma sample_trampoline_ok: "trampoline_link_ok sample_trampoline"
  by (simp add: trampoline_link_ok_def sample_trampoline_def trampoline_code_virtual_base_def scratch_page_virtual_base_def
   align_down_to_page_def KERNEL_BINARY_VIRTUAL_ADDRESS_def)

lemma sample_link_ok: "link_ok sample_link"
proof -
  have "list_all (\<lambda>t. table_address sample_link t mod 4096 = 0 \<and>
       table_address sample_link t - KERNEL_BINARY_VIRTUAL_ADDRESS < 0x400000) all_tables"
    by (simp add: all_tables_def sample_link_def upt_rec KERNEL_BINARY_VIRTUAL_ADDRESS_def)
  moreover have "distinct (map (table_address sample_link) all_tables)"
    by (simp add: all_tables_def sample_link_def upt_rec)
  ultimately show ?thesis by (simp add: link_ok_def)
qed

lemma initial_paging_wf: "paging_wf lk paging_statics_new [KernelPml4 \<mapsto> (KernelPml4, [])]"
proof -
  have e: "table_entries paging_statics_new t = page_table_new" if "valid_table t" for t
    using that by (cases t) (simp_all add: paging_statics_new_def BOOTSTRAP_PAGE_TABLE_PAGE_COUNT_def
        DIRECT_MAP_BOOTSTRAP_TABLE_COUNT_def)
  have n: "next_bootstrap_index paging_statics_new = 0" "next_direct_map_index paging_statics_new = 0"
    "length (bootstrap_tables paging_statics_new) = 32" "length (direct_map_tables paging_statics_new) = 4"
    by (simp_all add: paging_statics_new_def BOOTSTRAP_PAGE_TABLE_PAGE_COUNT_def DIRECT_MAP_BOOTSTRAP_TABLE_COUNT_def)
  have u: "table_in_use paging_statics_new t \<longleftrightarrow> t = KernelPml4" for t by (cases t) (simp_all add: n)
  have k: "table_entries paging_statics_new KernelPml4 = page_table_new" using e [of KernelPml4] by simp
  show ?thesis
    unfolding paging_wf_def
    by (auto simp: sizes_ok_def n e u k page_table_new_def split: if_splits simp del: table_entries.simps)
qed

lemma sample_allocator_facts:
  "stack_contents (free_page_stack sample_allocator) = map (\<lambda>i. of_nat (i * 4096)) [1..<18]"
  "page_type_table sample_allocator = replicate MAXIMUM_PHYSICAL_PAGES Free"
  by (simp_all add: sample_allocator_def new_physical_allocator_def stack_contents_def)

lemma sample_frames:
  "map frame_of (map (\<lambda>i. of_nat (i * 4096)) [1..<18]) = [1..<18]"
  by (simp add: upt_rec compute_page_frame_number_def PAGE_SIZE_IN_BYTES_def)

lemma sample_free_supply: "free_supply sample_allocator 17"
proof -
  let ?l = "map (\<lambda>i. of_nat (i * 4096) :: u64) [1..<18]"
  have "distinct (map frame_of ?l)" unfolding sample_frames by simp
  moreover have "page_type_table sample_allocator ! frame_of a = Free" if "a \<in> set ?l" for a
  proof -
    have "frame_of a \<in> set (map frame_of ?l)" using that by (simp only: set_map image_eqI)
    then have "frame_of a < 18" unfolding sample_frames by simp
    then show ?thesis by (simp add: sample_allocator_facts MAXIMUM_PHYSICAL_PAGES_def)
  qed
  ultimately have "frames_free sample_allocator (rev ?l)"
    unfolding frames_free_def by (simp only: list_all_iff set_rev rev_map [symmetric] distinct_rev) blast
  then show ?thesis unfolding free_supply_def sample_allocator_facts by simp
qed

lemma sample_launch_inv: "launch_inv sample_link sample_launch_state [KernelPml4 \<mapsto> (KernelPml4, [])]"
proof -
  have f: "frame_of a < 18" if "a \<in> set (map (\<lambda>i. of_nat (i * 4096) :: u64) [1..<18])" for a
  proof -
    have "frame_of a \<in> set (map frame_of (map (\<lambda>i. of_nat (i * 4096)) [1..<18]))" using that by (simp only: set_map image_eqI)
    then show ?thesis unfolding sample_frames by simp
  qed
  have "free_pages_aligned sample_allocator"
    unfolding free_pages_aligned_def sample_allocator_facts by (simp add: upt_rec)
  moreover have "phys_inv sample_allocator"
    unfolding phys_inv_def sample_allocator_facts list_all_iff
  proof (intro conjI ballI)
    show "frame_of a < MAXIMUM_PHYSICAL_PAGES" if "a \<in> set (map (\<lambda>i. of_nat (i * 4096) :: u64) [1..<18])" for a
      using f [OF that] by (simp add: MAXIMUM_PHYSICAL_PAGES_def)
  qed (simp_all add: sample_allocator_def stack_inv_def)
  ultimately show ?thesis
    using initial_paging_wf [of sample_link] by (simp add: launch_inv_def sample_launch_state_def)
qed

lemma sample_segments:
  "image_segments sample_elf =
     [\<lparr>file_offset = 120, virtual_address = 0x400000, file_size = 4, memory_size = 8, flags = 5\<rparr>]"
  by (simp add: image_segments_def sample_elf_fields)

lemma sample_elf_wellformed: "elf_wellformed sample_elf"
  by (simp add: elf_wellformed_def sample_elf_fields program_header_ok_def segment_is_write_execute_def segment_in_file_def)

lemma sample_elf_loadable:
  "slice_len_ok sample_elf"
  "list_all (\<lambda>seg. segment_in_user_half seg \<and> file_size seg \<le> memory_size seg) (image_segments sample_elf)"
  by (simp_all add: slice_len_ok_def sample_elf_fields sample_segments segment_in_user_half_def)

lemma sample_resources:
  "entry_ok (u64_at sample_elf 24)" "list_all segment_flags_ok (image_segments sample_elf)"
  "free_supply (allocator (loader sample_launch_state)) (image_pages (image_segments sample_elf) + 16)"
  "next_thread_pool_slot_index sample_launch_state < MAXIMUM_THREADS"
  "\<not> 19 < next_bootstrap_index (paging (loader sample_launch_state)) + 3 * image_regions (image_segments sample_elf)"
  "\<not> 2 ^ 64 - 4 \<le> unat (u64_at sample_elf 32)"
  using sample_free_supply
  by (simp_all add: sample_segments sample_elf_fields sample_launch_state_def paging_statics_new_def entry_ok_def
      segment_flags_ok_def segment_is_write_execute_def image_pages_def image_regions_def segment_page_count_def
      segment_regions_def regions_of_def MAXIMUM_THREADS_def)

lemma sample_launch_succeeds:
  obtains h ls' where "create_server_process_from_elf sample_link sample_trampoline sample_launch_state Shell sample_elf =
     Some (Ok (h, new_space), ls')"
proof (cases rule: create_from_elf_front [OF sample_elf_loadable(1), of sample_link sample_trampoline
      sample_launch_state Shell, case_names rejected panic parsed])
  case (parsed arr)
  show thesis
  proof (cases rule: build_loaded_process_exact [OF sample_link_ok sample_trampoline_ok sample_launch_inv
        sample_elf_loadable(1) parsed(2) wellformed_loadable [OF sample_elf_wellformed sample_elf_loadable(2)], of Shell,
        case_names failed stuck started])
    case (started h ls' root)
    then show thesis using parsed(3) by (intro that) simp
  qed (use sample_resources in blast)+
qed (use sample_elf_wellformed sample_resources in blast)+

section \<open>Claims\<close>

text \<open>
  C37. Launching a process from an ELF image is exact. Let the linker's tables be aligned, distinct and inside the mapped
  kernel binary, the trampoline pages inside it too, the page tables form trees, the free pages be aligned and
  tracked, and let the first eight loadable segments of the file lie in the user half with no more file bytes than
  memory, which the loader itself does not check. If the launch succeeds, the file is a well-formed ELF64
  x86-64 executable with only \<open>PT_LOAD\<close> headers and a canonical entry point; the new address space holds
  exactly the bytes of its segments, zeros in the rest of their pages and in the sixteen stack pages, each with the
  permissions of its segment and below tables that are open to the user, nothing else below the kernel half and
  only the supervisor trampoline pages above; no other address space changes, in its leaf entries or in its
  tables; and the new thread starts at the entry point on that address space. An error is returned only when the
  file, a segment's flags, the entry point, the free frames or the thread slots do not allow the launch, and a panic
  happens only when the header-table offset is in the last four bytes of the address range or when the bootstrap
  tables may run out: more than 19 are taken or needed by the segments at three tables for each region of two
  mebibytes.
\<close>

theorem launched_process_is_the_image:
  assumes "link_ok lk" "trampoline_link_ok tr" "launch_inv lk ls P" "slice_len_ok elf"
    and "list_all (\<lambda>seg. segment_in_user_half seg \<and> file_size seg \<le> memory_size seg) (image_segments elf)"
  shows "case create_server_process_from_elf lk tr ls ptype elf of
      Some (Inr (h, cs), ls') \<Rightarrow> elf_wellformed elf \<and> entry_ok (u64_at elf 24) \<and>
        list_all segment_flags_ok (image_segments elf) \<and> cs = new_space \<and>
        (\<exists>root. process_started lk tr elf ptype P ls ls' h root)
    | Some (Inl e, ls') \<Rightarrow> \<not> (elf_wellformed elf \<and> entry_ok (u64_at elf 24) \<and>
        list_all segment_flags_ok (image_segments elf) \<and>
        free_supply (allocator (loader ls)) (image_pages (image_segments elf) + 16) \<and>
        next_thread_pool_slot_index ls < MAXIMUM_THREADS)
    | None \<Rightarrow> 0 < header_count elf \<and> 2 ^ 64 - 4 \<le> unat (u64_at elf 32) \<or>
        19 < next_bootstrap_index (paging (loader ls)) + 3 * image_regions (image_segments elf)"
proof (cases rule: create_from_elf_front [OF assms(4), of lk tr ls ptype, case_names rejected panic parsed])
  case (parsed arr)
  note ld = wellformed_loadable [OF parsed(1) assms(5)]
  show ?thesis
  proof (cases rule: build_loaded_process_exact [OF assms(1-4) parsed(2) ld, of ptype, case_names failed stuck started])
    case (started h ls' root)
    then show ?thesis using parsed(1,3) by auto
  qed (use parsed in auto)
qed auto

theorem launched_process_is_the_image_witness:
  "\<exists>h ls' root. create_server_process_from_elf sample_link sample_trampoline sample_launch_state Shell sample_elf =
     Some (Ok (h, new_space), ls') \<and>
     process_started sample_link sample_trampoline sample_elf Shell [KernelPml4 \<mapsto> (KernelPml4, [])]
       sample_launch_state ls' h root"
  using launched_process_is_the_image [OF sample_link_ok sample_trampoline_ok sample_launch_inv sample_elf_loadable, of Shell]
    sample_elf_wellformed sample_resources
  by (auto split: option.splits prod.splits sum.splits)

text \<open>
  C38. What a ring-3 program can do in its address space. For every file whose first eight loadable segments lie in
  the user half and have no more file bytes than memory, after a successful launch: no mapped page is both
  writable and executable, and at every address the processor, which combines the leaf entry with the three
  intermediate entries, permits the program exactly what the image says. It may read and write, and not execute, the
  sixteen stack pages; in a page of a segment it may read, it may write exactly if the segment is writable and
  execute exactly if the segment is executable, where the last segment that covers the page counts; everywhere
  else, the kernel half with its trampoline pages included, it may do nothing.
\<close>

theorem launched_process_is_write_xor_execute:
  assumes "link_ok lk" "trampoline_link_ok tr" "launch_inv lk ls P" "slice_len_ok elf"
    and "list_all (\<lambda>seg. segment_in_user_half seg \<and> file_size seg \<le> memory_size seg) (image_segments elf)"
    and "create_server_process_from_elf lk tr ls ptype elf = Some (Ok (h, cs), ls')"
  shows "\<exists>root. valid_table root \<and>
    user_page_table_physical_address (thread_pool ls' ! thread_index h) = table_frame lk root \<and>
    (\<forall>vb e. translate lk (paging (loader ls')) root vb = Some e \<longrightarrow> write_xor_execute (entry_flags e)) \<and>
    (\<forall>vb a. user_may lk (paging (loader ls')) root a vb \<longleftrightarrow>
       (if page_number vb \<in> stack_pages then a \<noteq> ExecuteAccess
        else case owner (image_segments elf) (page_number vb) of
          None \<Rightarrow> False
        | Some seg \<Rightarrow> (case a of ReadAccess \<Rightarrow> True
            | WriteAccess \<Rightarrow> flags seg AND 2 \<noteq> 0
            | ExecuteAccess \<Rightarrow> flags seg AND 1 \<noteq> 0)))"
proof (cases rule: create_from_elf_front [OF assms(4), of lk tr ls ptype, case_names rejected panic parsed])
  case (parsed arr)
  note ld = wellformed_loadable [OF parsed(1) assms(5)]
  show ?thesis
  proof (cases rule: build_loaded_process_exact [OF assms(1-4) parsed(2) ld, of ptype, case_names failed stuck started])
    case (started h' ls1 root)
    then have same: "h' = h" "ls1 = ls'" using parsed(3) assms(6) by simp_all
    have sp: "process_space lk tr elf (loader ls') root" "valid_table root" "thread_index h < MAXIMUM_THREADS"
      "thread_pool ls' = (thread_pool ls)[thread_index h := (build_initial_thread (u64_at elf 24)
         SERVER_STACK_TOP_VIRTUAL_ADDRESS)\<lparr>user_page_table_physical_address := table_frame lk root\<rparr>]"
      using started(4) unfolding same process_started_def Let_def by simp_all
    have len: "length (thread_pool ls) = MAXIMUM_THREADS" using assms(3) by (simp add: launch_inv_def)
    have half: "list_all segment_in_user_half (image_segments elf)" using assms(5) by (simp add: list_all_iff)
    note pages = process_pages [OF sp(1) trampoline_pages_kernel [OF assms(2)] started(3) half]
    show ?thesis
      by (intro exI [of _ root] conjI allI impI)
        (use sp(2-4) len pages [unfolded image_permits_def segment_permits_def] in simp_all)
  qed (use parsed assms(6) in simp_all)
qed (use assms(6) in simp_all)

theorem launched_process_is_write_xor_execute_witness:
  "\<exists>h cs ls' root. create_server_process_from_elf sample_link sample_trampoline sample_launch_state Shell sample_elf =
     Some (Ok (h, cs), ls') \<and>
     user_page_table_physical_address (thread_pool ls' ! thread_index h) = table_frame sample_link root \<and>
     user_may sample_link (paging (loader ls')) root ExecuteAccess 0x400001 \<and>
     \<not> user_may sample_link (paging (loader ls')) root WriteAccess 0x400001 \<and>
     user_may sample_link (paging (loader ls')) root WriteAccess 0x7FFFF8 \<and>
     \<not> user_may sample_link (paging (loader ls')) root ExecuteAccess 0x7FFFF8 \<and>
     \<not> user_may sample_link (paging (loader ls')) root ReadAccess 0xFFFFFFFF80123456"
proof -
  obtain h ls' where r: "create_server_process_from_elf sample_link sample_trampoline sample_launch_state Shell sample_elf =
     Some (Ok (h, new_space), ls')" by (rule sample_launch_succeeds)
  have pages: "page_number 0x400001 = 0x400" "page_number 0x7FFFF8 = 0x7FF" "page_number 0xFFFFFFFF80123456 = 0xFFFF80123"
    by (simp_all add: page_number_def)
  from launched_process_is_write_xor_execute [OF sample_link_ok sample_trampoline_ok sample_launch_inv
      sample_elf_loadable r] obtain root where
    root: "user_page_table_physical_address (thread_pool ls' ! thread_index h) = table_frame sample_link root" and
    may: "user_may sample_link (paging (loader ls')) root a vb \<longleftrightarrow>
       (if page_number vb \<in> stack_pages then a \<noteq> ExecuteAccess
        else case owner (image_segments sample_elf) (page_number vb) of
          None \<Rightarrow> False
        | Some seg \<Rightarrow> (case a of ReadAccess \<Rightarrow> True
            | WriteAccess \<Rightarrow> flags seg AND 2 \<noteq> 0
            | ExecuteAccess \<Rightarrow> flags seg AND 1 \<noteq> 0))" for vb a
    by blast
  show ?thesis
    by (rule exI [of _ h], rule exI [of _ new_space], rule exI [of _ ls'], rule exI [of _ root])
      (use r root in \<open>simp add: may pages stack_pages_def sample_segments segment_pages_def\<close>)
qed

text \<open>
  C39. Mapping a page is exact. Let the tables form trees, the frame be page-aligned and below 2^52, the flags be
  not empty and outside the address bits, and the address not be in the top-level slot of the direct map when the
  root is the kernel's. Flags that are writable and executable are refused and change nothing. Otherwise the call
  panics exactly when the pool has fewer tables left than the path misses. If it does not, it takes exactly the
  missing tables and links them with the intermediate flags for the leaf, user-accessible exactly if the leaf
  is; the page translates to the given frame and flags; every other page of this and of every other address
  space translates as before; and every other path keeps its intermediate flags, lengthened by the new tables
  only in this root below the same top-level entry.
\<close>

theorem mapping_changes_exactly_one_page:
  assumes "link_ok lk" "paging_wf lk st P" "P root = Some (root, [])"
    and "root = KernelPml4 \<longrightarrow> extract_page_map_level_4_index va \<noteq> DIRECT_MAP_SLOT"
    and "frame_ok pa" "flags_ok fl"
  shows "case map_single_page lk st root va pa fl of
      Some (Inl e, st') \<Rightarrow> e = WritableAndExecutableViolation \<and> \<not> write_xor_execute fl \<and> st' = st
    | Some (Inr _, st') \<Rightarrow> write_xor_execute fl \<and> (\<exists>P'. paging_wf lk st' P') \<and>
        next_bootstrap_index st' = next_bootstrap_index st + missing_tables lk st root va \<and>
        next_bootstrap_index st + missing_tables lk st root va \<le> 32 \<and>
        path_flags lk st' root (table_indices va) = path_flags lk st root (table_indices va) @
          replicate (missing_tables lk st root va)
            (if flags_contain fl USER_ACCESSIBLE then PRESENT OR WRITABLE OR USER_ACCESSIBLE else PRESENT OR WRITABLE) \<and>
        (\<forall>r vb. P r = Some (r, []) \<longrightarrow>
          translate lk st' r vb =
            (if r = root \<and> page_number vb = page_number va then Some (pa OR fl) else translate lk st r vb) \<and>
          (\<exists>n. path_flags lk st' r (table_indices vb) = path_flags lk st r (table_indices vb) @
              replicate n (compute_intermediate_flags_for_leaf fl) \<and>
            (n \<noteq> 0 \<longrightarrow> r = root \<and> extract_page_map_level_4_index vb = extract_page_map_level_4_index va)))
    | None \<Rightarrow> write_xor_execute fl \<and> 32 < next_bootstrap_index st + missing_tables lk st root va"
proof (cases rule: map_single_page_exact [OF assms, case_names violation full mapped])
  case (mapped st' P')
  note mp = maps_pageD [OF mapped(3)]
  have fl: "entry_flags (pa OR fl) = fl" by (rule entry_of_frame(3) [OF assms(5,6)])
  have wx: "write_xor_execute fl" using mapped(1) by (simp add: write_xor_execute_def)
  have n: "next_bootstrap_index st + missing_tables lk st root va \<le> 32"
    using wf_sizes [OF mp(1)] mp(4) by (simp add: sizes_ok_def)
  have inter: "compute_intermediate_flags_for_leaf fl =
      (if flags_contain fl USER_ACCESSIBLE then PRESENT OR WRITABLE OR USER_ACCESSIBLE else PRESENT OR WRITABLE)"
    by (simp add: compute_intermediate_flags_for_leaf_def compute_intermediate_page_table_flags_def or.assoc)
  show ?thesis
    unfolding mapped(2) option.case prod.case sum.case
    using wx mp(1,4,6) n maps_page_path [OF assms(1-3) mapped(3), unfolded fl inter]
      mp(7) [unfolded paths_grow_def fl]
    by (intro conjI allI impI) blast+
qed (simp_all add: write_xor_execute_def)

theorem mapping_changes_exactly_one_page_witness:
  "(\<exists>st'. map_single_page sample_link paging_statics_new KernelPml4 0x400000 0x5000 (PRESENT OR WRITABLE OR NO_EXECUTE) =
      Some (Ok (), st') \<and> next_bootstrap_index st' = 3 \<and>
    path_flags sample_link st' KernelPml4 (table_indices 0x400000) = replicate 3 (PRESENT OR WRITABLE) \<and>
    translate sample_link st' KernelPml4 0x400123 = Some (0x5000 OR (PRESENT OR WRITABLE OR NO_EXECUTE)) \<and>
    translate sample_link st' KernelPml4 0x401000 = translate sample_link paging_statics_new KernelPml4 0x401000)"
proof -
  have wx: "write_xor_execute (PRESENT OR WRITABLE OR NO_EXECUTE)" "flags_ok (PRESENT OR WRITABLE OR NO_EXECUTE)"
    "\<not> flags_contain (PRESENT OR WRITABLE OR NO_EXECUTE) USER_ACCESSIBLE"
    by (simp_all add: write_xor_execute_def flags_ok_def flags_contain_def page_flag_defs physical_address_mask_def)
  have i: "KernelPml4 = KernelPml4 \<longrightarrow> extract_page_map_level_4_index 0x400000 \<noteq> DIRECT_MAP_SLOT"
    by (simp add: index_digits DIRECT_MAP_SLOT_def)
  have f: "frame_ok 0x5000" by (simp add: frame_ok_def)
  have n: "next_bootstrap_index paging_statics_new = 0" by (simp add: paging_statics_new_def)
  have p: "path_flags sample_link paging_statics_new KernelPml4 (table_indices 0x400000) = []"
    by (rule path_flags_empty) (simp_all add: paging_statics_new_def table_indices_def index_bounds)
  then have m: "missing_tables sample_link paging_statics_new KernelPml4 0x400000 = 3" by (simp add: missing_tables_def)
  from mapping_changes_exactly_one_page [OF sample_link_ok initial_paging_wf _ i f wx(2)] show ?thesis
    using wx(1,3) n p m by (auto simp: page_number_def split: option.splits prod.splits sum.splits)
qed

text \<open>
  C40. The ELF checks accept exactly the well-formed files. The gate accepts a file exactly when every program
  header is inside it and of type \<open>PT_LOAD\<close>; the parser accepts it exactly when the ELF header is right and each
  loadable segment lies in the file and is not both writable and executable, and then yields the first
  eight segments in order. Neither returns for a header table that starts in the last bytes of the address
  range: the offset of the header wraps and the slice index panics.
\<close>

theorem elf_checks_accept_exactly_the_format:
  assumes "slice_len_ok bs"
  shows "(validate_program_header_types_are_load_only bs = Some (Ok ()) \<longleftrightarrow> 64 \<le> length bs \<and>
      (\<forall>i < header_count bs. header_offset_at bs i + 4 \<le> length bs \<and> u32_at bs (header_offset_at bs i) = 1)) \<and>
    (validate_program_header_types_are_load_only bs = None \<longleftrightarrow> 64 \<le> length bs \<and> 0 < header_count bs \<and>
      2 ^ 64 - 4 \<le> unat (u64_at bs 32)) \<and>
    (extract_loadable_segments bs = Some (Ok r) \<longleftrightarrow> elf_header_ok bs \<and>
      (\<forall>i < header_count bs. program_header_ok bs (header_offset_at bs i)) \<and>
      r = segment_slots (segments_from bs (unat (u64_at bs 32)) 0 (header_count bs))) \<and>
    (extract_loadable_segments bs = None \<longleftrightarrow> elf_header_ok bs \<and> 0 < header_count bs \<and>
      2 ^ 64 - 56 \<le> unat (u64_at bs 32))"
  by (intro conjI gate_exact [OF assms] extract_loadable_segments_exact [OF assms])

theorem elf_checks_accept_exactly_the_format_witness:
  "validate_program_header_types_are_load_only sample_elf = Some (Ok ()) \<and>
   extract_loadable_segments sample_elf =
     Some (Ok (Some \<lparr>file_offset = 120, virtual_address = 0x400000, file_size = 4, memory_size = 8, flags = 5\<rparr> #
       replicate 7 None))"
  using elf_checks_accept_exactly_the_format [of sample_elf]
    sample_elf_wellformed
  by (simp add: slice_len_ok_def sample_elf_fields elf_wellformed_def segment_slots_def segments_from_def
      map_filter_simps header_segment_def)

end
