(* ===== verification/Spec2Isabelle.thy ===== *)
theory Spec2Isabelle
  imports Capability_Claims Audit_Log Ipc_Claims Syscall_Claims Scheduler_Claims Memory_Claims Bsp_Claims Isolation_Claims Loading_Claims
begin

text \<open>
  A verification library for BraiNIX, a capability-based microkernel in Rust that is to serve language-model
  inference to remote clients. The sources are under \<open>src/src\<close> (the kernel in \<open>src/src/kernel/src\<close>, the other
  crates beside it).

  \<^bold>\<open>The parts and how they interact.\<close> Authority is held in capability spaces, one of 256 slots per
  process; the derivation tree records which slot was derived from which, and revocation walks it. System calls enter
  through one dispatcher, which reads the caller's capability space and calls the IPC operations, the interrupt
  bindings, the audit log or process exit. IPC is a rendezvous on endpoints, each with two bounded queues of waiting
  threads. The scheduler picks the next thread from a priority run queue that it rebuilds under a fixed partition
  table, per-thread budgets and priority inheritance. Pages come from a physical allocator and objects from pools. A
  process is launched from an ELF image: parser, page tables, loader and trampoline build its address space. Devices
  are confined by DMA windows and page descriptors. Clients speak the serving protocol (crate \<open>bsp\<close>): a wire format,
  a record layer and a session state machine.

  \<^bold>\<open>Conventions.\<close> A machine integer is a word of its width; \<open>usize\<close> is a natural number, with the wrapping or
  saturation of the source written out where a value can reach it. Release builds are the modelled ones, so an
  unchecked addition wraps. \<open>Result\<close> is a sum with the error on the left (\<open>Err\<close>, \<open>Ok\<close>), \<open>Option\<close> is
  \<open>option\<close>. Where the code can panic or need not return, its model has type \<open>option\<close> and \<open>None\<close> stands for that; the
  theorems say for which inputs it is \<open>None\<close>. Statics and objects reached through \<open>&mut\<close> are arguments returned
  updated.

  \<^bold>\<open>Prelude.\<close> \<open>Kernel_Prelude\<close>: the integer operations of the Rust standard library, results, fixed arrays and the
  contracts \<open>slot_array\<close> and \<open>keyed_table\<close> that the process table, the interrupt table and the pools implement.
  \<open>Wire_Bytes\<close>: integer encodings and slices.

  \<^bold>\<open>Capabilities\<close> (\<open>capability/*.rs\<close>). \<open>Capability_Space\<close> and \<open>Derivation\<close> model the slots, the tree, derivation,
  revocation and temporal validation; revocation is a loop over stored links, hence a partial function.
  \<open>Derivation_Forest\<close> relates the links to a forest, \<open>Capability_Authority\<close> defines histories of calls.
  \<open>Capability_Claims\<close>: derivation on every branch, confinement of authority over every history, revocation clears exactly the
  descendants and returns for orderly histories, use counts are exact; whenever the newest, childless child of a slot is
  revoked before the slot itself, the other descendants survive; and a history after which a revocation never returns.

  \<^bold>\<open>Audit log\<close> (\<open>audit_log.rs\<close>, \<open>audit_read.rs\<close>). \<open>Audit_Log\<close>: the ring buffer refines the list of the newest 4096 events.

  \<^bold>\<open>IPC\<close> (\<open>ipc/*.rs\<close>, \<open>thread/mod.rs\<close>). \<open>Ipc_Queue\<close> proves the circular buffer against \<open>bounded_fifo\<close>.
  \<open>Ipc_Operations\<close> and \<open>Ipc_Call\<close> model rendezvous, capability transfer, replies, send, receive, timeouts, calls, the
  wait-for graph and notifications. \<open>Ipc_Claims\<close>: what each branch of a send does, an index outside the pool included, the guards of a capability
  transfer, replies are used once, notifications are delivered once, and the pool invariant over any run.

  \<^bold>\<open>System calls\<close> (\<open>syscall/*.rs\<close>, \<open>process/process_table.rs\<close>). \<open>Process_Table\<close>, \<open>Device_Irq\<close> and \<open>Syscall_Dispatch\<close>
  model the table, exit, interrupt binding, frame and MMIO mapping and the dispatcher in its host configuration.
  \<open>Syscall_Claims\<close>: no run of calls changes a capability space, a call changes an endpoint only through a held
  capability, the invariant of the whole state holds from boot over calls and processes that come and go (\<open>kernel_step\<close>),
  every call but exit returns, and after the exit sequence no call for that thread has an effect. The sequence
  zeroes the space before it removes the entry; the zeroed space is unreachable then, so no state of the model shows it.

  \<^bold>\<open>Scheduler\<close> (\<open>scheduler/*.rs\<close>). \<open>Run_Queue\<close> proves the shifted arrays against \<open>stable_priority_queue\<close>;
  \<open>Scheduler\<close> models the rest. \<open>Scheduler_Claims\<close>: selection after a rebuild, the periodic partition schedule, budget
  enforcement and the extent of a priority boost.

  \<^bold>\<open>Memory\<close> (\<open>memory/*.rs\<close>). \<open>Kernel_Memory\<close> and \<open>Memory_Claims\<close>: a page in use is not handed out again, every outcome of a
  deallocation, the overlap test is exact and no two of the five regions share an address; the free stack is used through \<open>bounded_lifo\<close>.

  \<^bold>\<open>Process launch\<close> (\<open>process/elf_loader.rs\<close>, \<open>process/elf_load_into_address_space.rs\<close>, \<open>process/server_launch.rs\<close>,
  \<open>process/address_space.rs\<close>, \<open>arch/paging/*.rs\<close>, \<open>arch/syscall_trampoline.rs\<close>, the entry accessors of the vendored crate
  \<open>x86_64\<close>). \<open>Elf_Loader\<close>, \<open>Page_Tables\<close>, \<open>User_Loading\<close> and \<open>Process_Launch\<close> hold the model: page tables are the
  statics of the bootstrap pool and a store of entries by physical address; where the linker places the kernel's
  symbols is a parameter. \<open>Page_Table_Walk\<close> shows that the tables are disjoint trees and gives the walk of an address: the leaf entry (\<open>translate\<close>), the
  flags of the intermediate entries (\<open>path_flags\<close>) and the access the processor grants from both (\<open>user_may\<close>);
  \<open>Loaded_Image\<close> and \<open>Process_Image\<close> follow the bytes a process reads through the loader. \<open>Loading_Claims\<close>: the launched process is
  the image, for segments in the user half with no more file bytes than memory, neither of which the loader checks;
  ring 3 may do exactly what the segment flags say and no page is writable and executable; a mapping changes one
  translation and panics exactly when the table pool is too small; and the parser accepts exactly the format.

  \<^bold>\<open>Device isolation\<close> (crates \<open>dart\<close>, \<open>aarch64-mmu\<close>, \<open>pcie-config\<close>). \<open>Device_Isolation\<close>, \<open>Pcie_Config\<close> and \<open>Isolation_Claims\<close>: a held
  DMA window only shrinks, page descriptors carry the permission they were built for, and the walk over a device's
  capability list is bounded and exact.

  \<^bold>\<open>Serving protocol\<close> (crate \<open>bsp\<close>). \<open>Bsp_Codec\<close> and \<open>Bsp_Session\<close> hold the model; \<open>Bsp_Wire\<close> proves the decoders through the
  contract \<open>wire_field\<close>, \<open>Bsp_Records\<close> the writers. \<open>Bsp_Claims\<close>: decoding accepts exactly the format, records
  round-trip, nonces never repeat, no message is accepted before the handshake, and prompts are complete.

  \<^bold>\<open>Bounds.\<close> No model has fuel. Loops of the source with a static bound are recursions on that bound; loops over
  links in memory (revocation, the boost along the blocking chain, the capability walk) either carry the bound of the
  source or are partial functions, and their termination is a theorem about the states that reach them.

  \<^bold>\<open>Not modelled.\<close> Inline assembly, system registers, port and memory-mapped I/O, interrupt entry and the context
  switch (they have no semantics in the source language); the boot sequence, which is made of such effects; the serial and
  password calls, compiled for bare metal only; the fixed kernel regions of the boot page table and the direct map;
  floating-point tensor code; signatures and hashes of vendored packages, hence the measurement of the partition table
  and attestation; the network stack, SSH, the record store, the device-tree, weight-container and tokenizer parsers
  and the user-space servers, which the modelled parts do not depend on; the proof harnesses, fuzz targets and host tools.
  The manifest lists each of them.
\<close>

end
